(* ===== verification/Prelude.thy ===== *)
theory Prelude
  imports Main "HOL-Library.Word" "HOL-Library.Product_Lexorder" "HOL-Library.List_Lexorder"
    "HOL-Library.Char_ord" "HOL-Library.Sublist"
begin

text \<open>
  What every component of the control plane shares: 128-bit identifiers, Go's error values and
  \<open>errors.Is\<close>, \<open>time.Duration\<close> arithmetic on 64-bit integers, the list facts behind SQL's
  \<open>UPDATE ... WHERE\<close> and \<open>SELECT ... WHERE id = $1\<close>, and the interface of a transition system
  with an invariant.
\<close>

named_theorems rows "facts about rows selected and written by predicate"
named_theorems errs "facts about error values"

section \<open>Identifiers\<close>

text \<open>
  A \<open>uuid.UUID\<close> is 16 bytes; PostgreSQL's \<open>uuid\<close> type compares them as one unsigned 128-bit
  number, which is the order \<open>ORDER BY id\<close> uses.
\<close>

datatype uuid = UUID (uuid_bits: "128 word")

instantiation uuid :: linorder
begin

definition less_eq_uuid :: "uuid \<Rightarrow> uuid \<Rightarrow> bool" where
  "less_eq_uuid a b \<longleftrightarrow> uuid_bits a \<le> uuid_bits b"

definition less_uuid :: "uuid \<Rightarrow> uuid \<Rightarrow> bool" where
  "less_uuid a b \<longleftrightarrow> uuid_bits a < uuid_bits b"

instance
  by standard (auto simp: less_eq_uuid_def less_uuid_def intro: uuid.expand)

end

lemma uuid_le_simp [simp]: "UUID a \<le> UUID b \<longleftrightarrow> a \<le> b"
  by (simp add: less_eq_uuid_def)

lemma uuid_less_simp [simp]: "UUID a < UUID b \<longleftrightarrow> a < b"
  by (simp add: less_uuid_def)

section \<open>Errors\<close>

text \<open>
  \<open>cause\<close>: the errors that reach the program from outside its own packages (a context that
  ended, an error PostgreSQL reports with its SQLSTATE, a broken connection, a WebSocket close
  frame with its code and text, the end of a stream). \<open>error\<close>: the
  sentinels of the program's packages and of pgx, and the ways the code combines errors:
  \<open>fmt.Errorf("msg: %w", e)\<close> is \<open>Wrap\<close>, \<open>errors.Join\<close> and \<open>"%w: %w"\<close> are \<open>Pair\<close>, an error
  that wraps nothing is \<open>Text\<close>.
\<close>

datatype cause =
    Canceled | DeadlineExceeded
  | PgError string | ConnError string
  | CloseError int string | CloseSent | NetClosed | EndOfFile

datatype error =
    ErrNoRows
  | ErrNoCapacity | ErrQueueFull | ErrWaitTimeout | ErrSchedulerDraining | ErrUncertainCommit
  | ErrRelayDraining | ErrDuplicateRelay
  | ErrUnauthorized | ErrAuthBackend
  | Cause cause
  | Text string
  | Wrap string error
  | Pair error error

fun errors_Is :: "error \<Rightarrow> error \<Rightarrow> bool" where
  "errors_Is (Wrap m e) t = errors_Is e t"
| "errors_Is (Pair a b) t = (errors_Is a t \<or> errors_Is b t)"
| "errors_Is e t = (e = t)"

text \<open>\<open>errors.As\<close> for \<open>*pgconn.PgError\<close>: the first one found, depth first.\<close>

fun errors_As_pg :: "error \<Rightarrow> string option" where
  "errors_As_pg (Wrap m e) = errors_As_pg e"
| "errors_As_pg (Pair a b) = (case errors_As_pg a of Some c \<Rightarrow> Some c | None \<Rightarrow> errors_As_pg b)"
| "errors_As_pg (Cause (PgError c)) = Some c"
| "errors_As_pg e = None"

text \<open>\<open>errors.As\<close> for \<open>*websocket.CloseError\<close>.\<close>

fun errors_As_close :: "error \<Rightarrow> (int \<times> string) option" where
  "errors_As_close (Wrap m e) = errors_As_close e"
| "errors_As_close (Pair a b) =
    (case errors_As_close a of Some c \<Rightarrow> Some c | None \<Rightarrow> errors_As_close b)"
| "errors_As_close (Cause (CloseError c t)) = Some (c, t)"
| "errors_As_close e = None"

text \<open>\<open>errors.Join\<close> of two errors that may be nil.\<close>

definition errors_Join :: "error option \<Rightarrow> error option \<Rightarrow> error option" where
  "errors_Join a b =
    (case a of None \<Rightarrow> b | Some x \<Rightarrow> (case b of None \<Rightarrow> a | Some y \<Rightarrow> Some (Pair x y)))"

abbreviation is_no_rows :: "error \<Rightarrow> bool" where
  "is_no_rows e \<equiv> errors_Is e ErrNoRows"

section \<open>Durations\<close>

text \<open>
  \<open>time.Duration\<close> is a signed 64-bit count of nanoseconds. Products and sums wrap around;
  division truncates towards zero.
\<close>

definition wrap64 :: "int \<Rightarrow> int" where
  "wrap64 x = (x + 2 ^ 63) mod 2 ^ 64 - 2 ^ 63"

definition go_div :: "int \<Rightarrow> int \<Rightarrow> int" where
  "go_div a b = sgn a * sgn b * (\<bar>a\<bar> div \<bar>b\<bar>)"

definition microseconds :: "int \<Rightarrow> int" where
  "microseconds d = go_div d 1000"

abbreviation second :: int where
  "second \<equiv> 1000000000"

abbreviation millisecond :: int where
  "millisecond \<equiv> 1000000"

abbreviation minute :: int where
  "minute \<equiv> 60000000000"

lemma wrap64_id: "- (2 ^ 63) \<le> x \<Longrightarrow> x < 2 ^ 63 \<Longrightarrow> wrap64 x = x"
  by (simp add: wrap64_def)

lemma go_div_pos: "0 \<le> a \<Longrightarrow> 0 < b \<Longrightarrow> go_div a b = a div b"
  by (cases "a = 0") (auto simp: go_div_def sgn_if)

lemma microseconds_pos: "0 \<le> d \<Longrightarrow> microseconds d = d div 1000"
  by (simp add: microseconds_def go_div_pos)

section \<open>Rows\<close>

text \<open>
  A table is the list of its rows. \<open>update_where p f\<close> is \<open>UPDATE ... SET f WHERE p\<close>,
  \<open>lookup_row\<close> is \<open>SELECT * ... WHERE id = $1\<close> on a table with primary key \<open>key\<close>.
\<close>

definition update_where :: "('r \<Rightarrow> bool) \<Rightarrow> ('r \<Rightarrow> 'r) \<Rightarrow> 'r list \<Rightarrow> 'r list" where
  "update_where p f rs = map (\<lambda>r. if p r then f r else r) rs"

definition lookup_row :: "('r \<Rightarrow> uuid) \<Rightarrow> uuid \<Rightarrow> 'r list \<Rightarrow> 'r option" where
  "lookup_row key i rs = find (\<lambda>r. key r = i) rs"

lemma update_where_simps [simp]:
  "update_where p f [] = []"
  "update_where p f (r # rs) = (if p r then f r else r) # update_where p f rs"
  by (simp_all add: update_where_def)

lemma length_update_where [simp]: "length (update_where p f rs) = length rs"
  by (simp add: update_where_def)

lemma set_update_where: "set (update_where p f rs) = (\<lambda>r. if p r then f r else r) ` set rs"
  by (simp add: update_where_def)

lemma update_where_append [simp]:
  "update_where p f (xs @ ys) = update_where p f xs @ update_where p f ys"
  by (simp add: update_where_def)

lemma map_update_where:
  assumes "\<And>r. g (f r) = g r"
  shows "map g (update_where p f rs) = map g rs"
  using assms by (induction rs) auto

lemma update_where_id: "(\<And>r. r \<in> set rs \<Longrightarrow> \<not> p r) \<Longrightarrow> update_where p f rs = rs"
  by (induction rs) auto

lemma update_where_cong:
  "(\<And>r. r \<in> set rs \<Longrightarrow> p r = q r) \<Longrightarrow> update_where p f rs = update_where q f rs"
  by (induction rs) auto

lemma filter_update_where:
  assumes "\<And>r. r \<in> set rs \<Longrightarrow> p r \<Longrightarrow> q (f r) \<Longrightarrow> q r"
  shows "length (filter q (update_where p f rs)) \<le> length (filter q rs)"
  using assms by (induction rs) (auto intro: le_SucI)

lemma filter_update_where_eq:
  assumes "\<And>r. r \<in> set rs \<Longrightarrow> p r \<Longrightarrow> q (f r) = q r"
  shows "length (filter q (update_where p f rs)) = length (filter q rs)"
  using assms by (induction rs) auto

lemma lookup_row_Some: "lookup_row key i rs = Some r \<Longrightarrow> r \<in> set rs \<and> key r = i"
  by (auto simp: lookup_row_def find_Some_iff)

lemma lookup_row_None: "lookup_row key i rs = None \<longleftrightarrow> i \<notin> key ` set rs"
  by (auto simp: lookup_row_def find_None_iff)

lemma lookup_row_Nil [simp]: "lookup_row key i [] = None"
  by (simp add: lookup_row_def)

lemma lookup_row_Cons [simp]:
  "lookup_row key i (r # rs) = (if key r = i then Some r else lookup_row key i rs)"
  by (simp add: lookup_row_def)

lemma lookup_row_append:
  "lookup_row key i (xs @ ys) =
    (case lookup_row key i xs of Some r \<Rightarrow> Some r | None \<Rightarrow> lookup_row key i ys)"
  by (induction xs) auto

lemma lookup_row_unique:
  "distinct (map key rs) \<Longrightarrow> r \<in> set rs \<Longrightarrow> lookup_row key (key r) rs = Some r"
  by (induction rs) (auto simp: image_iff)

lemma lookup_row_iff:
  "distinct (map key rs) \<Longrightarrow> lookup_row key i rs = Some r \<longleftrightarrow> r \<in> set rs \<and> key r = i"
  using lookup_row_Some lookup_row_unique by fastforce

lemma lookup_update_where:
  assumes "\<And>r. key (f r) = key r"
  shows "lookup_row key i (update_where p f rs) =
    map_option (\<lambda>r. if p r then f r else r) (lookup_row key i rs)"
  using assms by (induction rs) auto

lemma lookup_filter:
  "distinct (map key rs) \<Longrightarrow> lookup_row key i (filter p rs) =
    (case lookup_row key i rs of Some r \<Rightarrow> if p r then Some r else None | None \<Rightarrow> None)"
proof (induction rs)
  case Nil
  then show ?case by simp
next
  case (Cons r rs)
  show ?case
  proof (cases "key r = i")
    case True
    with Cons.prems have "lookup_row key i rs = None" "lookup_row key i (filter p rs) = None"
      by (auto simp: lookup_row_None)
    with True show ?thesis by simp
  next
    case False
    with Cons show ?thesis by simp
  qed
qed

text \<open>Writing the rows a predicate selected, by their keys, is writing by the predicate.\<close>

lemma update_by_keys:
  assumes "distinct (map key rs)"
  shows "update_where (\<lambda>r. key r \<in> set (map key (filter p rs))) f rs = update_where p f rs"
proof (rule update_where_cong)
  fix r assume "r \<in> set rs"
  with assms show "(key r \<in> set (map key (filter p rs))) = p r"
    by (auto simp: distinct_map inj_on_def)
qed

lemma filter_by_keys:
  assumes "distinct (map key rs)"
  shows "filter (\<lambda>r. key r \<notin> set (map key (filter p rs))) rs = filter (\<lambda>r. \<not> p r) rs"
proof (rule filter_cong [OF refl])
  fix r assume "r \<in> set rs"
  with assms show "(key r \<notin> set (map key (filter p rs))) = (\<not> p r)"
    by (auto simp: distinct_map inj_on_def)
qed

lemmas row_facts = lookup_row_append lookup_update_where set_update_where map_update_where

declare row_facts [rows]

section \<open>Ordering by a key\<close>

lemma sort_key_eq_Nil [simp]: "sort_key f xs = [] \<longleftrightarrow> xs = []"
  by (metis length_0_conv length_sort)

lemma find_SomeD: "find p xs = Some x \<Longrightarrow> x \<in> set xs \<and> p x"
  by (auto simp: find_Some_iff)

lemma find_sorted_least:
  assumes "find p (sort_key f xs) = Some x" and "y \<in> set xs" and "p y"
  shows "f x \<le> f y"
proof -
  define ys where "ys = sort_key f xs"
  have srt: "sorted (map f ys)" by (simp add: ys_def)
  from assms(2) have "y \<in> set ys" by (simp add: ys_def)
  then obtain j where j: "j < length ys" "ys ! j = y" by (auto simp: in_set_conv_nth)
  from assms(1) obtain i where i: "i < length ys" "ys ! i = x" "\<And>k. k < i \<Longrightarrow> \<not> p (ys ! k)"
    by (auto simp: find_Some_iff ys_def)
  have "i \<le> j" using i(3) j assms(3) by (metis not_less)
  with srt i j show ?thesis
    by (metis length_map nth_map sorted_nth_mono)
qed

section \<open>Transition systems\<close>

text \<open>
  A transition system with an invariant: what holds at the start and is kept by every step
  holds in every reachable state, and along every run.
\<close>

inductive reaches :: "('s \<Rightarrow> 's \<Rightarrow> bool) \<Rightarrow> 's \<Rightarrow> 's \<Rightarrow> bool" for step where
  reaches_refl: "reaches step s s"
| reaches_step: "reaches step s t \<Longrightarrow> step t u \<Longrightarrow> reaches step s u"

lemma reaches_trans: "reaches step t u \<Longrightarrow> reaches step s t \<Longrightarrow> reaches step s u"
  by (induction rule: reaches.induct) (auto intro: reaches_step)

lemma reaches_1: "step s t \<Longrightarrow> reaches step s t"
  by (blast intro: reaches.intros)

locale invariant_system =
  fixes step :: "'s \<Rightarrow> 's \<Rightarrow> bool"
    and inv :: "'s \<Rightarrow> bool"
  assumes step_inv: "inv s \<Longrightarrow> step s t \<Longrightarrow> inv t"
begin

lemma reaches_inv: "reaches step s t \<Longrightarrow> inv s \<Longrightarrow> inv t"
  by (induction rule: reaches.induct) (auto intro: step_inv)

end

text \<open>
  A monotone observation: a relation every step keeps is kept along every run that starts in the
  invariant, provided it is a preorder.
\<close>

locale monotone_system = invariant_system step inv
  for step :: "'s \<Rightarrow> 's \<Rightarrow> bool" and inv :: "'s \<Rightarrow> bool" +
  fixes rel :: "'s \<Rightarrow> 's \<Rightarrow> bool"
  assumes rel_refl: "rel s s"
    and rel_trans: "rel s t \<Longrightarrow> rel t u \<Longrightarrow> rel s u"
    and step_rel: "inv s \<Longrightarrow> step s t \<Longrightarrow> rel s t"
begin

lemma reaches_rel: "reaches step s t \<Longrightarrow> inv s \<Longrightarrow> rel s t"
proof (induction rule: reaches.induct)
  case (reaches_refl s)
  show ?case by (rule rel_refl)
next
  case (reaches_step s t u)
  then show ?case by (blast intro: rel_trans step_rel reaches_inv)
qed

end

text \<open>
  A simulation: every step of the detailed system is a step of the abstract one or invisible there,
  so every run is an abstract run.
\<close>

locale simulation = invariant_system step inv
  for step :: "'s \<Rightarrow> 's \<Rightarrow> bool" and inv :: "'s \<Rightarrow> bool" +
  fixes abs :: "'s \<Rightarrow> 'a" and astep :: "'a \<Rightarrow> 'a \<Rightarrow> bool"
  assumes step_abs: "inv s \<Longrightarrow> step s t \<Longrightarrow> abs t = abs s \<or> astep (abs s) (abs t)"
begin

lemma reaches_abs: "reaches step s t \<Longrightarrow> inv s \<Longrightarrow> reaches astep (abs s) (abs t)"
proof (induction rule: reaches.induct)
  case (reaches_refl s)
  show ?case by (rule reaches.reaches_refl)
next
  case (reaches_step s t u)
  then have "reaches astep (abs s) (abs t)" "abs u = abs t \<or> astep (abs t) (abs u)"
    using step_abs reaches_inv by blast+
  then show ?case by (auto intro: reaches.reaches_step)
qed

end

end
