(* ===== verification/Store.thy ===== *)
theory Store
  imports Prelude
begin

text \<open>
  The database as the control plane sees it (\<open>server/internal/db\<close>): the enums and rows of
  \<open>db/data/models.go\<close> and \<open>db/migrations/00001_initial_schema.sql\<close>, the whole database as one
  record, and how a statement runs: on its own, or inside a transaction whose writes take effect
  at the commit. Every round trip to PostgreSQL consumes one \<open>beat\<close> of the surroundings: what
  other connections committed before it, how much time passed, which worker rows other
  transactions hold locked, and whether the round trip fails.
\<close>

section \<open>Rows\<close>

datatype worker_status = Available | Draining | Stalled | ShuttingDown

datatype session_mode = ModeDefault | ModeDedicated

datatype session_status = Pending | Running | Completed | Failed | Expired

text \<open>Times are \<open>timestamptz\<close> values in microseconds.\<close>

record worker =
  wid :: uuid
  waddress :: string
  wbrowser :: string
  wversion :: string
  wmax_slots :: int
  wstatus :: worker_status
  wheartbeat :: int
  wlifetime :: int
  wcreated :: int

record session =
  sid :: uuid
  sworker :: uuid
  sbrowser :: string
  sversion :: string
  saddress :: string
  smode :: session_mode
  sstatus :: session_status
  skey :: "uuid option"
  screated :: int
  sstarted :: "int option"
  sexpires :: "int option"
  sheartbeat :: int
  skeep_alive :: "int option"
  smetadata :: string

record api_key =
  kid :: uuid
  kname :: string
  khash :: string
  kprefix :: string
  kcreated :: int
  klast_used :: "int option"
  krevoked :: "int option"

text \<open>\<open>notified\<close> counts the committed \<open>pg_notify('capacity_changed', '')\<close> calls.\<close>

record database =
  workers :: "worker list"
  sessions :: "session list"
  api_keys :: "api_key list"
  notified :: nat

definition active :: "session \<Rightarrow> bool" where
  "active s \<longleftrightarrow> sstatus s = Pending \<or> sstatus s = Running"

definition known_browser :: "string \<Rightarrow> bool" where
  "known_browser b \<longleftrightarrow> b = ''chromium'' \<or> b = ''firefox'' \<or> b = ''webkit''"

text \<open>The column constraints of the schema's tables.\<close>

definition worker_check :: "worker \<Rightarrow> bool" where
  "worker_check w \<longleftrightarrow> known_browser (wbrowser w) \<and> 0 < wmax_slots w \<and> 0 \<le> wlifetime w"

definition session_check :: "session \<Rightarrow> bool" where
  "session_check s \<longleftrightarrow> known_browser (sbrowser s)
     \<and> (case skeep_alive s of None \<Rightarrow> True | Some k \<Rightarrow> 0 < k)
     \<and> (sstatus s = Running \<longrightarrow> sstarted s \<noteq> None)"

text \<open>
  What the schema enforces on the whole database: primary keys, the unique hash, the checks and
  the reference from a session to the API key that created it.
\<close>

definition schema_ok :: "database \<Rightarrow> bool" where
  "schema_ok d \<longleftrightarrow> distinct (map wid (workers d)) \<and> distinct (map sid (sessions d))
     \<and> distinct (map kid (api_keys d)) \<and> distinct (map khash (api_keys d))
     \<and> list_all worker_check (workers d) \<and> list_all session_check (sessions d)
     \<and> list_all (\<lambda>s. case skey s of None \<Rightarrow> True | Some k \<Rightarrow> k \<in> set (map kid (api_keys d))) (sessions d)"

definition count_active :: "database \<Rightarrow> uuid \<Rightarrow> int" where
  "count_active d i = int (length (filter (\<lambda>s. sworker s = i \<and> active s) (sessions d)))"

lemma count_active_nonneg [simp]: "0 \<le> count_active d i"
  by (simp add: count_active_def)

lemma schema_okD:
  assumes "schema_ok d"
  shows "distinct (map wid (workers d))" "distinct (map sid (sessions d))"
    "distinct (map kid (api_keys d))"
  using assms by (auto simp: schema_ok_def)

section \<open>Writes\<close>

text \<open>
  A write changes the rows a statement selected, given by their keys: the rows stay locked until
  the commit, so between the statement and the commit no one else changes them.
\<close>

type_synonym effect = "database \<Rightarrow> database"

definition notify :: effect where
  "notify d = d\<lparr>notified := Suc (notified d)\<rparr>"

definition set_workers :: "uuid list \<Rightarrow> (worker \<Rightarrow> worker) \<Rightarrow> effect" where
  "set_workers is f d = d\<lparr>workers := update_where (\<lambda>w. wid w \<in> set is) f (workers d)\<rparr>"

definition set_sessions :: "uuid list \<Rightarrow> (session \<Rightarrow> session) \<Rightarrow> effect" where
  "set_sessions is f d = d\<lparr>sessions := update_where (\<lambda>s. sid s \<in> set is) f (sessions d)\<rparr>"

definition set_keys :: "uuid list \<Rightarrow> (api_key \<Rightarrow> api_key) \<Rightarrow> effect" where
  "set_keys is f d = d\<lparr>api_keys := update_where (\<lambda>k. kid k \<in> set is) f (api_keys d)\<rparr>"

definition delete_workers :: "uuid list \<Rightarrow> effect" where
  "delete_workers is d = d\<lparr>workers := filter (\<lambda>w. wid w \<notin> set is) (workers d)\<rparr>"

definition delete_keys :: "uuid list \<Rightarrow> effect" where
  "delete_keys is d = d\<lparr>api_keys := filter (\<lambda>k. kid k \<notin> set is) (api_keys d)\<rparr>"

definition insert_worker :: "worker \<Rightarrow> effect" where
  "insert_worker w d = d\<lparr>workers := workers d @ [w]\<rparr>"

definition insert_session :: "session \<Rightarrow> effect" where
  "insert_session s d = d\<lparr>sessions := sessions d @ [s]\<rparr>"

definition insert_key :: "api_key \<Rightarrow> effect" where
  "insert_key k d = d\<lparr>api_keys := api_keys d @ [k]\<rparr>"

lemmas effect_defs = notify_def set_workers_def set_sessions_def set_keys_def delete_workers_def
  delete_keys_def insert_worker_def insert_session_def insert_key_def

lemma effect_frames [simp]:
  "workers (notify d) = workers d" "sessions (notify d) = sessions d"
  "api_keys (notify d) = api_keys d"
  "sessions (set_workers is f d) = sessions d" "api_keys (set_workers is f d) = api_keys d"
  "notified (set_workers is f d) = notified d"
  "workers (set_sessions is g d) = workers d" "api_keys (set_sessions is g d) = api_keys d"
  "notified (set_sessions is g d) = notified d"
  "workers (set_keys is h d) = workers d" "sessions (set_keys is h d) = sessions d"
  "sessions (delete_workers is d) = sessions d" "api_keys (delete_workers is d) = api_keys d"
  "workers (delete_keys is d) = workers d" "sessions (delete_keys is d) = sessions d"
  "sessions (insert_worker w d) = sessions d" "api_keys (insert_worker w d) = api_keys d"
  "workers (insert_session s d) = workers d" "api_keys (insert_session s d) = api_keys d"
  "workers (insert_key k d) = workers d" "sessions (insert_key k d) = sessions d"
  by (simp_all add: effect_defs)

lemma effect_targets:
  "workers (set_workers is f d) = update_where (\<lambda>w. wid w \<in> set is) f (workers d)"
  "sessions (set_sessions is g d) = update_where (\<lambda>s. sid s \<in> set is) g (sessions d)"
  "api_keys (set_keys is h d) = update_where (\<lambda>k. kid k \<in> set is) h (api_keys d)"
  "workers (delete_workers is d) = filter (\<lambda>w. wid w \<notin> set is) (workers d)"
  "api_keys (delete_keys is d) = filter (\<lambda>k. kid k \<notin> set is) (api_keys d)"
  "workers (insert_worker w d) = workers d @ [w]"
  "sessions (insert_session s d) = sessions d @ [s]"
  "api_keys (insert_key k d) = api_keys d @ [k]"
  "notified (notify d) = Suc (notified d)"
  by (simp_all add: effect_defs)

section \<open>Statements, transactions and the surroundings\<close>

text \<open>
  A statement reads the database it sees at \<open>now()\<close> and either fails (no row for a \<open>:one\<close>
  query, a violated constraint) or returns its rows and its write.
\<close>

type_synonym 'a stmt = "int \<Rightarrow> database \<Rightarrow> error + ('a \<times> effect)"

text \<open>
  One beat of the surroundings. In \<open>fault = Some (c, applied)\<close> the round trip fails with the
  cause \<open>c\<close>; \<open>applied\<close> says whether the server had already carried it out when the answer was
  lost (this matters for a statement outside a transaction and for a commit).
\<close>

record beat =
  others :: effect
  elapsed :: nat
  locked :: "uuid list"
  fault :: "(cause \<times> bool) option"

record world =
  wdb :: database
  clock :: int
  script :: "beat list"

definition quiet :: beat where
  "quiet = \<lparr>others = id, elapsed = 0, locked = [], fault = None\<rparr>"

definition next_beat :: "world \<Rightarrow> beat \<times> world" where
  "next_beat w = (case script w of
     [] \<Rightarrow> (quiet, w)
   | b # bs \<Rightarrow> (b, \<lparr>wdb = others b (wdb w), clock = clock w + int (elapsed b), script = bs\<rparr>))"

text \<open>A statement outside a transaction: it commits by itself.\<close>

definition exec :: "'a stmt \<Rightarrow> world \<Rightarrow> (error + 'a) \<times> world" where
  "exec q w = (let (b, w1) = next_beat w in
     case fault b of
       Some (c, applied) \<Rightarrow>
         (Inl (Cause c),
          (case q (clock w1) (wdb w1) of
             Inl _ \<Rightarrow> w1
           | Inr (_, e) \<Rightarrow> if applied then w1\<lparr>wdb := e (wdb w1)\<rparr> else w1))
     | None \<Rightarrow>
         (case q (clock w1) (wdb w1) of
            Inl e \<Rightarrow> (Inl e, w1)
          | Inr (a, e) \<Rightarrow> (Inr a, w1\<lparr>wdb := e (wdb w1)\<rparr>)))"

text \<open>
  An open transaction: its \<open>now()\<close> and the writes made so far. Its statements see the committed
  database with these writes on top (READ COMMITTED); nobody else sees them before the commit.
\<close>

record tx =
  tx_now :: int
  tx_effect :: effect

definition tx_begin :: "world \<Rightarrow> (error + tx) \<times> world" where
  "tx_begin w = (let (b, w1) = next_beat w in
     case fault b of
       Some (c, _) \<Rightarrow> (Inl (Cause c), w1)
     | None \<Rightarrow> (Inr \<lparr>tx_now = clock w1, tx_effect = id\<rparr>, w1))"

definition tx_exec :: "'a stmt \<Rightarrow> tx \<Rightarrow> world \<Rightarrow> (error + ('a \<times> tx)) \<times> world" where
  "tx_exec q t w = (let (b, w1) = next_beat w in
     case fault b of
       Some (c, _) \<Rightarrow> (Inl (Cause c), w1)
     | None \<Rightarrow>
         (case q (tx_now t) (tx_effect t (wdb w1)) of
            Inl e \<Rightarrow> (Inl e, w1)
          | Inr (a, e) \<Rightarrow> (Inr (a, t\<lparr>tx_effect := e \<circ> tx_effect t\<rparr>), w1)))"

definition tx_commit :: "tx \<Rightarrow> world \<Rightarrow> (error + unit) \<times> world" where
  "tx_commit t w = (let (b, w1) = next_beat w in
     case fault b of
       Some (c, applied) \<Rightarrow>
         (Inl (Cause c), if applied then w1\<lparr>wdb := tx_effect t (wdb w1)\<rparr> else w1)
     | None \<Rightarrow> (Inr (), w1\<lparr>wdb := tx_effect t (wdb w1)\<rparr>))"

text \<open>
  The deferred \<open>rollback\<close> of a transaction whose body failed: its own failure is joined to the
  error. After a commit, successful or not, pgx answers \<open>ErrTxClosed\<close>, which the code ignores.
\<close>

definition rollback :: "error \<Rightarrow> world \<Rightarrow> error \<times> world" where
  "rollback e w = (let (b, w1) = next_beat w in
     case fault b of
       Some (c, _) \<Rightarrow> (Pair e (Wrap ''rolling back transaction'' (Cause c)), w1)
     | None \<Rightarrow> (e, w1))"

definition fail_tx :: "error \<Rightarrow> world \<Rightarrow> (error + 'a) \<times> world" where
  "fail_tx e w = (let (e', w') = rollback e w in (Inl e', w'))"

text \<open>
  Sequencing as the Go code does it: \<open>if err != nil { return ... }\<close> after each call, with the
  message of \<open>fmt.Errorf\<close> wrapped around the error.
\<close>

definition andThen ::
  "(error + 'a) \<times> world \<Rightarrow> ('a \<Rightarrow> world \<Rightarrow> (error + 'b) \<times> world) \<Rightarrow> (error + 'b) \<times> world" where
  "andThen r k = (case r of (Inl e, w) \<Rightarrow> (Inl e, w) | (Inr a, w) \<Rightarrow> k a w)"

definition wrapErr :: "string \<Rightarrow> (error + 'a) \<times> world \<Rightarrow> (error + 'a) \<times> world" where
  "wrapErr m r = (case r of (Inl e, w) \<Rightarrow> (Inl (Wrap m e), w) | (Inr a, w) \<Rightarrow> (Inr a, w))"

text \<open>
  The pattern \<open>Begin; defer rollback; ...; Commit\<close>: a failed begin opens nothing, a failed body is
  rolled back, a failed commit has closed the transaction.
\<close>

definition in_tx ::
  "string \<Rightarrow> (tx \<Rightarrow> world \<Rightarrow> (error + ('a \<times> tx)) \<times> world) \<Rightarrow> string \<Rightarrow> world \<Rightarrow> (error + 'a) \<times> world" where
  "in_tx begin_msg body commit_msg w =
    andThen (wrapErr begin_msg (tx_begin w)) (\<lambda>t w1.
      (case body t w1 of
         (Inl e, w2) \<Rightarrow> fail_tx e w2
       | (Inr (a, t'), w2) \<Rightarrow>
           andThen (wrapErr commit_msg (tx_commit t' w2)) (\<lambda>_ w3. (Inr a, w3))))"

lemma andThen_simps [simp]:
  "andThen (Inl e, w) k = (Inl e, w)" "andThen (Inr a, w) k = k a w"
  by (simp_all add: andThen_def)

lemma wrapErr_simps [simp]:
  "wrapErr m (Inl e, w) = (Inl (Wrap m e), w)" "wrapErr m (Inr a, w) = (Inr a, w)"
  by (simp_all add: wrapErr_def)

lemma andThen_Inr:
  "andThen r k = (Inr b, w') \<longleftrightarrow> (\<exists>a w. r = (Inr a, w) \<and> k a w = (Inr b, w'))"
  by (auto simp: andThen_def split: prod.splits sum.splits)

lemma andThen_Inl:
  "andThen r k = (Inl e, w') \<longleftrightarrow> r = (Inl e, w') \<or> (\<exists>a w. r = (Inr a, w) \<and> k a w = (Inl e, w'))"
  by (auto simp: andThen_def split: prod.splits sum.splits)

lemma wrapErr_Inr: "wrapErr m r = (Inr a, w) \<longleftrightarrow> r = (Inr a, w)"
  by (auto simp: wrapErr_def split: prod.splits sum.splits)

lemma wrapErr_Inl: "wrapErr m r = (Inl e, w) \<longleftrightarrow> (\<exists>e'. r = (Inl e', w) \<and> e = Wrap m e')"
  by (auto simp: wrapErr_def split: prod.splits sum.splits)

lemmas monad_simps = andThen_Inr andThen_Inl wrapErr_Inr wrapErr_Inl

subsection \<open>Undisturbed execution\<close>

text \<open>A world whose script is empty: nobody interferes and no round trip fails.\<close>

definition calm :: "database \<Rightarrow> int \<Rightarrow> world" where
  "calm d t = \<lparr>wdb = d, clock = t, script = []\<rparr>"

lemma next_beat_calm [simp]: "next_beat (calm d t) = (quiet, calm d t)"
  by (simp add: next_beat_def calm_def)

lemma calm_simps [simp]: "wdb (calm d t) = d" "clock (calm d t) = t" "script (calm d t) = []"
  "(calm d t)\<lparr>wdb := d'\<rparr> = calm d' t"
  by (simp_all add: calm_def)

lemma quiet_simps [simp]: "fault quiet = None" "others quiet = id" "locked quiet = []"
  by (simp_all add: quiet_def)

lemma exec_calm [simp]:
  "exec q (calm d t) =
    (case q t d of Inl e \<Rightarrow> (Inl e, calm d t) | Inr (a, e) \<Rightarrow> (Inr a, calm (e d) t))"
  by (simp add: exec_def split: sum.splits)

lemma tx_begin_calm [simp]: "tx_begin (calm d t) = (Inr \<lparr>tx_now = t, tx_effect = id\<rparr>, calm d t)"
  by (simp add: tx_begin_def)

lemma tx_exec_calm [simp]:
  "tx_exec q x (calm d t) =
    (case q (tx_now x) (tx_effect x d) of
       Inl e \<Rightarrow> (Inl e, calm d t)
     | Inr (a, e) \<Rightarrow> (Inr (a, x\<lparr>tx_effect := e \<circ> tx_effect x\<rparr>), calm d t))"
  by (simp add: tx_exec_def split: sum.splits)

lemma tx_commit_calm [simp]: "tx_commit x (calm d t) = (Inr (), calm (tx_effect x d) t)"
  by (simp add: tx_commit_def)

lemma fail_tx_calm [simp]: "fail_tx e (calm d t) = (Inl e, calm d t)"
  by (simp add: fail_tx_def rollback_def)

lemma in_tx_calm:
  "in_tx m body m' (calm d t) =
    (case body \<lparr>tx_now = t, tx_effect = id\<rparr> (calm d t) of
       (Inl e, w) \<Rightarrow> fail_tx e w
     | (Inr (a, x), w) \<Rightarrow> andThen (wrapErr m' (tx_commit x w)) (\<lambda>_ w3. (Inr a, w3)))"
  by (simp add: in_tx_def)

subsection \<open>What a round trip can do to the database\<close>

text \<open>Inside a transaction no statement touches the committed database; only others do.\<close>

inductive disturbed :: "world \<Rightarrow> world \<Rightarrow> bool" where
  disturbed_refl: "disturbed w w"
| disturbed_beat: "disturbed w w1 \<Longrightarrow> next_beat w1 = (b, w2) \<Longrightarrow> disturbed w w2"

lemma disturbed_next: "next_beat w = (b, w1) \<Longrightarrow> disturbed w w1"
  by (blast intro: disturbed.intros)

lemma disturbed_trans: "disturbed v w \<Longrightarrow> disturbed u v \<Longrightarrow> disturbed u w"
  by (induction rule: disturbed.induct) (auto intro: disturbed.intros)

lemma tx_begin_disturbed: "tx_begin w = (r, w') \<Longrightarrow> disturbed w w'"
  by (auto simp: tx_begin_def Let_def disturbed_next split: prod.splits option.splits)

lemma tx_exec_disturbed: "tx_exec q t w = (r, w') \<Longrightarrow> disturbed w w'"
  by (auto simp: tx_exec_def Let_def disturbed_next split: prod.splits option.splits sum.splits)

lemma rollback_disturbed: "rollback e w = (e', w') \<Longrightarrow> disturbed w w'"
  by (auto simp: rollback_def Let_def disturbed_next split: prod.splits option.splits)

lemma fail_tx_disturbed: "fail_tx e w = (r, w') \<Longrightarrow> disturbed w w'"
  by (auto simp: fail_tx_def dest: rollback_disturbed split: prod.splits)

lemma disturbed_script_Nil: "disturbed w w' \<Longrightarrow> script w = [] \<Longrightarrow> w' = w"
  by (induction rule: disturbed.induct) (auto simp: next_beat_def)

lemma disturbed_calm: "disturbed (calm d t) w \<Longrightarrow> w = calm d t"
  by (rule disturbed_script_Nil) auto

text \<open>How a commit can end.\<close>

lemma tx_commit_cases:
  assumes "tx_commit t w = (r, w')"
  obtains (ok) w1 where "r = Inr ()" "disturbed w w1" "w' = w1\<lparr>wdb := tx_effect t (wdb w1)\<rparr>"
  | (lost) w1 c where "r = Inl (Cause c)" "disturbed w w1" "w' = w1\<lparr>wdb := tx_effect t (wdb w1)\<rparr>"
  | (failed) c where "r = Inl (Cause c)" "disturbed w w'"
  using assms
  by (auto simp: tx_commit_def Let_def dest: disturbed_next split: prod.splits option.splits if_splits)

lemma tx_exec_error:
  "tx_exec q t w = (Inl e, w') \<Longrightarrow>
    (\<exists>c. e = Cause c) \<or> (\<exists>d. q (tx_now t) d = Inl e)"
  by (auto simp: tx_exec_def Let_def split: prod.splits option.splits sum.splits)

lemma next_beat_wdb: "next_beat w = (b, w1) \<Longrightarrow> wdb w1 = others b (wdb w)"
  by (auto simp: next_beat_def split: list.splits)

lemma rollback_Is:
  assumes "errors_Is e t" and "rollback e w = (e', w')"
  shows "errors_Is e' t"
  using assms by (auto simp: rollback_def Let_def split: prod.splits option.splits)

lemma rollback_Is_own:
  assumes "rollback e w = (e', w')" and "\<nexists>c. t = Cause c"
  shows "errors_Is e' t = errors_Is e t"
  using assms by (auto simp: rollback_def Let_def split: prod.splits option.splits)

end
