(* ===== verification/Worker_Queries.thy ===== *)
theory Worker_Queries
  imports Store
begin

text \<open>
  The statements of \<open>db/data/workers.sql.go\<close>, each translated from its SQL text and its Go
  wrapper, with the facts the scheduler, the rescuer and the HTTP handlers use: which row a
  claim locks, which status transitions a worker can make, which workers a sweep stalls or
  deletes, and how the capacity report relates to the claims it advertises.
\<close>

section \<open>Registration and heartbeat\<close>

record register_worker_params =
  rw_id :: uuid
  rw_address :: string
  rw_browser :: string
  rw_version :: string
  rw_max_slots :: int
  rw_status :: worker_status

definition RegisterWorker :: "register_worker_params \<Rightarrow> worker stmt" where
  "RegisterWorker p now d =
    (let w = \<lparr>wid = rw_id p, waddress = rw_address p, wbrowser = rw_browser p,
              wversion = rw_version p, wmax_slots = rw_max_slots p, wstatus = rw_status p,
              wheartbeat = now, wlifetime = 0, wcreated = now\<rparr>
     in if \<not> worker_check w then Inl (Cause (PgError ''23514''))
        else if wid w \<in> set (map wid (workers d)) then Inl (Cause (PgError ''23505''))
        else Inr (w, insert_worker w))"

definition GetWorker :: "uuid \<Rightarrow> worker stmt" where
  "GetWorker i now d =
    (case lookup_row wid i (workers d) of None \<Rightarrow> Inl ErrNoRows | Some w \<Rightarrow> Inr (w, id))"

definition ListWorkers :: "worker list stmt" where
  "ListWorkers now d = Inr (sort_key (\<lambda>w. (wcreated w, wid w)) (workers d), id)"

text \<open>\<open>UPDATE workers SET f WHERE id = $1 AND guard RETURNING *\<close>.\<close>

definition update_worker :: "(worker \<Rightarrow> bool) \<Rightarrow> (worker \<Rightarrow> worker) \<Rightarrow> uuid \<Rightarrow> worker stmt" where
  "update_worker guard f i now d =
    (case lookup_row wid i (workers d) of
       None \<Rightarrow> Inl ErrNoRows
     | Some w \<Rightarrow> if guard w then Inr (f w, set_workers [i] f) else Inl ErrNoRows)"

definition beat_heart :: "int \<Rightarrow> worker \<Rightarrow> worker" where
  "beat_heart now w = w\<lparr>wheartbeat := now,
     wstatus := (if wstatus w = Stalled then Available else wstatus w)\<rparr>"

definition UpdateWorkerHeartbeat :: "uuid \<Rightarrow> worker stmt" where
  "UpdateWorkerHeartbeat i now d = update_worker (\<lambda>w. True) (beat_heart now) i now d"

definition status_request_ok :: "worker_status \<Rightarrow> worker_status \<Rightarrow> bool" where
  "status_request_ok target status \<longleftrightarrow>
     (target = Draining \<and> (status = Available \<or> status = Draining))
     \<or> (target = ShuttingDown
        \<and> (status = Available \<or> status = Draining \<or> status = Stalled \<or> status = ShuttingDown))"

definition SetWorkerStatus :: "uuid \<Rightarrow> worker_status \<Rightarrow> worker stmt" where
  "SetWorkerStatus i target now d =
     update_worker (\<lambda>w. status_request_ok target (wstatus w)) (\<lambda>w. w\<lparr>wstatus := target\<rparr>) i now d"

text \<open>A \<open>bigint\<close> that would leave its range is an error of the statement.\<close>

definition IncrementWorkerLifetimeSessions :: "uuid \<Rightarrow> worker stmt" where
  "IncrementWorkerLifetimeSessions i now d =
    (case lookup_row wid i (workers d) of
       None \<Rightarrow> Inl ErrNoRows
     | Some w \<Rightarrow> if wlifetime w + 1 \<ge> 2 ^ 63 then Inl (Cause (PgError ''22003''))
         else update_worker (\<lambda>w. True) (\<lambda>w. w\<lparr>wlifetime := wlifetime w + 1\<rparr>) i now d)"

definition NotifyCapacityChanged :: "unit stmt" where
  "NotifyCapacityChanged now d = Inr ((), notify)"

section \<open>The claim: which worker is selected and locked\<close>

record claim_params =
  cp_browser :: string
  cp_prefix :: string
  cp_ttl :: int
  cp_max_lifetime :: int
  cp_excluded :: "uuid list"

definition lifetime_left :: "int \<Rightarrow> worker \<Rightarrow> bool" where
  "lifetime_left limit w \<longleftrightarrow> limit = 0 \<or> wlifetime w < limit"

definition claimable :: "int \<Rightarrow> claim_params \<Rightarrow> int \<Rightarrow> worker \<Rightarrow> bool" where
  "claimable now p active_count w \<longleftrightarrow>
     wstatus w = Available \<and> wbrowser w = cp_browser p \<and> prefix (cp_prefix p) (wversion w)
     \<and> wheartbeat w > now - cp_ttl p \<and> lifetime_left (cp_max_lifetime p) w
     \<and> active_count < wmax_slots w \<and> wid w \<notin> set (cp_excluded p)"

text \<open>
  \<open>ORDER BY lifetime_sessions DESC, active_count ASC, id\<close>: the oldest worker first, then the
  least loaded.
\<close>

definition claim_key :: "database \<Rightarrow> worker \<Rightarrow> int \<times> int \<times> uuid" where
  "claim_key d w = (- wlifetime w, count_active d (wid w), wid w)"

definition claim_candidates :: "claim_params \<Rightarrow> int \<Rightarrow> database \<Rightarrow> worker list" where
  "claim_candidates p now snap =
     sort_key (claim_key snap)
       (filter (\<lambda>w. claimable now p (count_active snap (wid w)) w) (workers snap))"

text \<open>
  \<open>FOR UPDATE OF w SKIP LOCKED LIMIT 1\<close> under READ COMMITTED: candidates and their session
  counts come from the statement's snapshot \<open>snap\<close>. A candidate is skipped when another
  transaction holds its row (\<open>held\<close>), when the row is gone, or when its newest version in
  \<open>cur\<close> no longer passes the conditions; the first that remains is locked and returned in its
  newest version. The session count is not taken again: it is the snapshot's.
\<close>

definition lockable :: "claim_params \<Rightarrow> (uuid \<Rightarrow> bool) \<Rightarrow> database \<Rightarrow> int \<Rightarrow> database \<Rightarrow> worker \<Rightarrow> bool" where
  "lockable p held snap now cur w \<longleftrightarrow> \<not> held (wid w) \<and>
     (case lookup_row wid (wid w) (workers cur) of
        None \<Rightarrow> False
      | Some w' \<Rightarrow> claimable now p (count_active snap (wid w)) w')"

definition SelectClaimableWorker ::
  "claim_params \<Rightarrow> (uuid \<Rightarrow> bool) \<Rightarrow> database \<Rightarrow> worker stmt" where
  "SelectClaimableWorker p held snap now cur =
    (case find (lockable p held snap now cur) (claim_candidates p now snap) of
       None \<Rightarrow> Inl ErrNoRows
     | Some w \<Rightarrow> (case lookup_row wid (wid w) (workers cur) of
                    None \<Rightarrow> Inl ErrNoRows
                  | Some w' \<Rightarrow> Inr (w', id)))"

definition CountActiveSessionsByWorker :: "uuid \<Rightarrow> int stmt" where
  "CountActiveSessionsByWorker i now d = Inr (count_active d i, id)"

section \<open>Sweeps\<close>

definition silent :: "int \<Rightarrow> int \<Rightarrow> worker \<Rightarrow> bool" where
  "silent now ttl w \<longleftrightarrow> wheartbeat w < now - ttl"

definition StallSilentWorkers :: "int \<Rightarrow> int stmt" where
  "StallSilentWorkers ttl now d =
    (let ws = filter (\<lambda>w. wstatus w = Available \<and> silent now ttl w) (workers d)
     in Inr (int (length ws), set_workers (map wid ws) (\<lambda>w. w\<lparr>wstatus := Stalled\<rparr>)))"

definition dead_worker :: "int \<Rightarrow> int \<Rightarrow> int \<Rightarrow> worker \<Rightarrow> bool" where
  "dead_worker worker_ttl stalled_ttl now w \<longleftrightarrow>
     (wstatus w = ShuttingDown \<and> silent now worker_ttl w)
     \<or> (wstatus w = Stalled \<and> silent now stalled_ttl w)
     \<or> (wstatus w = Draining \<and> silent now stalled_ttl w)"

definition no_active_sessions :: "database \<Rightarrow> uuid \<Rightarrow> bool" where
  "no_active_sessions d i \<longleftrightarrow> \<not> list_ex (\<lambda>s. sworker s = i \<and> active s) (sessions d)"

definition DeleteDeadWorkers :: "int \<Rightarrow> int \<Rightarrow> uuid list stmt" where
  "DeleteDeadWorkers worker_ttl stalled_ttl now d =
    (let is = map wid (filter (\<lambda>w. dead_worker worker_ttl stalled_ttl now w
                                  \<and> no_active_sessions d (wid w)) (workers d))
     in Inr (is, delete_workers is))"

definition DeleteWorker :: "uuid \<Rightarrow> unit stmt" where
  "DeleteWorker i now d = Inr ((), delete_workers [i])"

section \<open>The capacity report\<close>

record capacity_row =
  cr_browser :: string
  cr_workers :: int
  cr_max_slots :: int
  cr_active_sessions :: int
  cr_available_slots :: int

definition eligible :: "int \<Rightarrow> int \<Rightarrow> int \<Rightarrow> worker \<Rightarrow> bool" where
  "eligible ttl limit now w \<longleftrightarrow>
     wstatus w = Available \<and> wheartbeat w > now - ttl \<and> lifetime_left limit w"

definition capacity_row_of :: "int \<Rightarrow> int \<Rightarrow> int \<Rightarrow> database \<Rightarrow> string \<Rightarrow> capacity_row" where
  "capacity_row_of ttl limit now d b =
    (let ws = filter (\<lambda>w. eligible ttl limit now w \<and> wbrowser w = b) (workers d)
     in \<lparr>cr_browser = b, cr_workers = int (length ws),
         cr_max_slots = sum_list (map wmax_slots ws),
         cr_active_sessions =
           int (length (filter (\<lambda>s. active s \<and> sbrowser s = b) (sessions d))),
         cr_available_slots =
           sum_list (map (\<lambda>w. max (wmax_slots w - count_active d (wid w)) 0) ws)\<rparr>)"

definition capacity_browsers :: "int \<Rightarrow> int \<Rightarrow> int \<Rightarrow> database \<Rightarrow> string list" where
  "capacity_browsers ttl limit now d =
     sort (remdups (map wbrowser (filter (eligible ttl limit now) (workers d))
                    @ map sbrowser (filter active (sessions d))))"

definition GetCapacityByBrowser :: "int \<Rightarrow> int \<Rightarrow> capacity_row list stmt" where
  "GetCapacityByBrowser ttl limit now d =
     Inr (map (capacity_row_of ttl limit now d) (capacity_browsers ttl limit now d), id)"

section \<open>Facts\<close>

lemma update_worker_Inr:
  "update_worker g f i now d = Inr (w', e) \<longleftrightarrow>
    (\<exists>w. lookup_row wid i (workers d) = Some w \<and> g w \<and> w' = f w \<and> e = set_workers [i] f)"
  by (auto simp: update_worker_def split: option.splits)

lemma update_worker_Inl:
  "update_worker g f i now d = Inl x \<longleftrightarrow>
    x = ErrNoRows \<and> (\<forall>w. lookup_row wid i (workers d) = Some w \<longrightarrow> \<not> g w)"
  by (auto simp: update_worker_def split: option.splits)

lemma candidate_iff:
  "w \<in> set (claim_candidates p now snap) \<longleftrightarrow>
    w \<in> set (workers snap) \<and> claimable now p (count_active snap (wid w)) w"
  by (auto simp: claim_candidates_def)

text \<open>
  What a claim gets: the newest version of a row nobody else holds, which passes every condition
  with the snapshot's count.
\<close>

lemma select_Inr:
  assumes "SelectClaimableWorker p held snap now cur = Inr (w', e)"
  shows "\<exists>w \<in> set (claim_candidates p now snap). wid w' = wid w \<and> lockable p held snap now cur w
     \<and> find (lockable p held snap now cur) (claim_candidates p now snap) = Some w"
    and "w' \<in> set (workers cur)" and "\<not> held (wid w')"
    and "claimable now p (count_active snap (wid w')) w'" and "e = id"
proof -
  from assms obtain w where w: "find (lockable p held snap now cur) (claim_candidates p now snap) = Some w"
    and l: "lookup_row wid (wid w) (workers cur) = Some w'" and e: "e = id"
    by (auto simp: SelectClaimableWorker_def split: option.splits)
  from w have f: "w \<in> set (claim_candidates p now snap)" "lockable p held snap now cur w"
    by (auto simp: find_Some_iff)
  from l have k: "w' \<in> set (workers cur)" "wid w' = wid w"
    using lookup_row_Some by fastforce+
  show "\<exists>w \<in> set (claim_candidates p now snap). wid w' = wid w \<and> lockable p held snap now cur w
     \<and> find (lockable p held snap now cur) (claim_candidates p now snap) = Some w"
    using f k w by auto
  show "w' \<in> set (workers cur)" "e = id" using k e by auto
  show "\<not> held (wid w')" "claimable now p (count_active snap (wid w')) w'"
    using f(2) l k by (auto simp: lockable_def)
qed

lemma select_Inl:
  "SelectClaimableWorker p held snap now cur = Inl x \<longleftrightarrow>
    x = ErrNoRows \<and> (\<forall>w \<in> set (claim_candidates p now snap). \<not> lockable p held snap now cur w)"
proof -
  have "find (lockable p held snap now cur) (claim_candidates p now snap) = Some w \<Longrightarrow>
      lookup_row wid (wid w) (workers cur) \<noteq> None" for w
    by (auto simp: find_Some_iff lockable_def split: option.splits)
  then show ?thesis
    by (auto simp: SelectClaimableWorker_def find_None_iff split: option.splits dest: find_SomeD)
qed

text \<open>In a quiet database a candidate is lockable as it is.\<close>

lemma lockable_quiet:
  assumes "distinct (map wid (workers d))" and "w \<in> set (claim_candidates p now d)"
  shows "lockable p (\<lambda>_. False) d now d w"
  using assms by (auto simp: lockable_def candidate_iff lookup_row_unique)

lemma capacity_row_available_pos:
  "0 < cr_available_slots (capacity_row_of ttl limit now d b) \<longleftrightarrow>
    (\<exists>w \<in> set (workers d). eligible ttl limit now w \<and> wbrowser w = b
       \<and> count_active d (wid w) < wmax_slots w)"
proof -
  define f where "f = (\<lambda>w :: worker. max (wmax_slots w - count_active d (wid w)) 0)"
  have sums: "0 < sum_list (map f ws) \<longleftrightarrow> (\<exists>w \<in> set ws. 0 < f w)" for ws
  proof (induction ws)
    case Nil
    then show ?case by simp
  next
    case (Cons w ws)
    have "0 \<le> f w" "0 \<le> sum_list (map f ws)"
      by (auto simp: f_def intro!: sum_list_nonneg)
    with Cons show ?case by (auto simp: add_pos_nonneg add_nonneg_pos less_le)
  qed
  have "cr_available_slots (capacity_row_of ttl limit now d b)
      = sum_list (map f (filter (\<lambda>w. eligible ttl limit now w \<and> wbrowser w = b) (workers d)))"
    by (simp add: capacity_row_of_def Let_def f_def)
  then show ?thesis by (simp add: sums) (auto simp: f_def)
qed

lemma set_capacity_browsers:
  "set (capacity_browsers ttl limit now d) =
    wbrowser ` {w \<in> set (workers d). eligible ttl limit now w} \<union> sbrowser ` {s \<in> set (sessions d). active s}"
  by (auto simp: capacity_browsers_def)

lemma no_active_sessions_count: "no_active_sessions d i \<longleftrightarrow> count_active d i = 0"
  by (auto simp: no_active_sessions_def count_active_def list_ex_iff filter_empty_conv)

end
