(* ===== verification/Session_Queries.thy ===== *)
theory Session_Queries
  imports Store
begin

text \<open>
  The statements of \<open>db/data/sessions.sql.go\<close>, each translated from its SQL text and its Go
  wrapper. The life of a session row is a state machine (\<open>session_next\<close>): every statement moves
  a session along it or leaves it alone, and its terminal states are final.
\<close>

section \<open>Reading\<close>

definition GetSession :: "uuid \<Rightarrow> session stmt" where
  "GetSession i now d =
    (case lookup_row sid i (sessions d) of None \<Rightarrow> Inl ErrNoRows | Some s \<Rightarrow> Inr (s, id))"

definition CountRunningSessionsByWorker :: "uuid \<Rightarrow> int stmt" where
  "CountRunningSessionsByWorker i now d =
    Inr (int (length (filter (\<lambda>s. sworker s = i \<and> sstatus s = Running) (sessions d))), id)"

definition ListSessionsByWorker :: "uuid \<Rightarrow> nat \<Rightarrow> nat \<Rightarrow> session list stmt" where
  "ListSessionsByWorker i page_offset page_size now d =
    Inr (take page_size (drop page_offset
          (sort_key (\<lambda>s. (screated s, sid s)) (filter (\<lambda>s. sworker s = i) (sessions d)))), id)"

text \<open>\<open>EXCEPT\<close> is a set operation: the reported identifiers, without repetition, in order.\<close>

definition ListStaleWorkerSessionIDs :: "uuid list \<Rightarrow> uuid \<Rightarrow> uuid list stmt" where
  "ListStaleWorkerSessionIDs reported i now d =
    (let known = map sid (filter (\<lambda>s. sworker s = i \<and> active s) (sessions d))
     in Inr (sort (remdups (filter (\<lambda>r. r \<notin> set known) reported)), id))"

section \<open>Transitions of one session\<close>

text \<open>\<open>UPDATE sessions SET f WHERE id = $1 AND guard RETURNING *\<close>.\<close>

definition update_session ::
  "(session \<Rightarrow> bool) \<Rightarrow> (session \<Rightarrow> session) \<Rightarrow> effect \<Rightarrow> uuid \<Rightarrow> session stmt" where
  "update_session guard f after i now d =
    (case lookup_row sid i (sessions d) of
       None \<Rightarrow> Inl ErrNoRows
     | Some s \<Rightarrow> if guard s then Inr (f s, after \<circ> set_sessions [i] f) else Inl ErrNoRows)"

definition start_row :: "int \<Rightarrow> session \<Rightarrow> session" where
  "start_row now s = s\<lparr>sstatus := Running, sstarted := Some now, sheartbeat := now, sexpires := None\<rparr>"

definition StartSession :: "uuid \<Rightarrow> session stmt" where
  "StartSession i now d =
     update_session (\<lambda>s. sstatus s = Pending) (start_row now) id i now d"

definition CompleteSession :: "uuid \<Rightarrow> session stmt" where
  "CompleteSession i now d =
     update_session (\<lambda>s. sstatus s = Running) (\<lambda>s. s\<lparr>sstatus := Completed\<rparr>) notify i now d"

definition FailSession :: "uuid \<Rightarrow> session stmt" where
  "FailSession i now d = update_session active (\<lambda>s. s\<lparr>sstatus := Failed\<rparr>) notify i now d"

definition TerminateSession :: "uuid \<Rightarrow> session stmt" where
  "TerminateSession i now d = update_session active (\<lambda>s. s\<lparr>sstatus := Completed\<rparr>) notify i now d"

definition RenewSessionHeartbeat :: "uuid \<Rightarrow> session stmt" where
  "RenewSessionHeartbeat i now d =
     update_session (\<lambda>s. sstatus s = Running) (\<lambda>s. s\<lparr>sheartbeat := now\<rparr>) id i now d"

section \<open>Bulk transitions\<close>

definition dead_session :: "int \<Rightarrow> int \<Rightarrow> session \<Rightarrow> bool" where
  "dead_session ttl now s \<longleftrightarrow> active s \<and>
     (sheartbeat s < now - ttl
      \<or> (case sexpires s of None \<Rightarrow> False | Some e \<Rightarrow> e < now))"

definition ExpireDeadSessions :: "int \<Rightarrow> (uuid \<times> uuid) list stmt" where
  "ExpireDeadSessions ttl now d =
    (let ss = filter (dead_session ttl now) (sessions d)
     in Inr (map (\<lambda>s. (sid s, sworker s)) ss, set_sessions (map sid ss) (\<lambda>s. s\<lparr>sstatus := Expired\<rparr>)))"

definition unreported :: "uuid \<Rightarrow> int \<Rightarrow> uuid list \<Rightarrow> int \<Rightarrow> session \<Rightarrow> bool" where
  "unreported i grace reported now s \<longleftrightarrow>
     sworker s = i \<and> sstatus s = Running
     \<and> (case sstarted s of None \<Rightarrow> False | Some t \<Rightarrow> t < now - grace)
     \<and> sid s \<notin> set reported"

definition FailUnreportedWorkerSessions :: "uuid \<Rightarrow> int \<Rightarrow> uuid list \<Rightarrow> uuid list stmt" where
  "FailUnreportedWorkerSessions i grace reported now d =
    (let is = map sid (filter (unreported i grace reported now) (sessions d))
     in Inr (is, set_sessions is (\<lambda>s. s\<lparr>sstatus := Failed\<rparr>)))"

section \<open>The claim's insert\<close>

record insert_claimed_params =
  ic_id :: uuid
  ic_worker :: uuid
  ic_browser :: string
  ic_version :: string
  ic_address :: string
  ic_key :: "uuid option"
  ic_pending_ttl :: int
  ic_metadata :: "string option"

definition claimed_row :: "insert_claimed_params \<Rightarrow> int \<Rightarrow> session" where
  "claimed_row p now =
     \<lparr>sid = ic_id p, sworker = ic_worker p, sbrowser = ic_browser p, sversion = ic_version p,
      saddress = ic_address p, smode = ModeDefault, sstatus = Pending, skey = ic_key p,
      screated = now, sstarted = None, sexpires = Some (now + ic_pending_ttl p),
      sheartbeat = now, skeep_alive = None,
      smetadata = (case ic_metadata p of None \<Rightarrow> ''{}'' | Some m \<Rightarrow> m)\<rparr>"

definition InsertClaimedSession :: "insert_claimed_params \<Rightarrow> session stmt" where
  "InsertClaimedSession p now d =
    (let s = claimed_row p now
     in if \<not> session_check s then Inl (Cause (PgError ''23514''))
        else if sid s \<in> set (map sid (sessions d)) then Inl (Cause (PgError ''23505''))
        else if (case skey s of None \<Rightarrow> False | Some k \<Rightarrow> k \<notin> set (map kid (api_keys d)))
             then Inl (Cause (PgError ''23503''))
        else Inr (s, insert_session s))"

section \<open>The life of a session\<close>

definition terminal :: "session_status \<Rightarrow> bool" where
  "terminal st \<longleftrightarrow> st = Completed \<or> st = Failed \<or> st = Expired"

inductive session_next :: "session_status \<Rightarrow> session_status \<Rightarrow> bool" where
  next_start: "session_next Pending Running"
| next_terminate: "session_next Pending Completed"
| next_complete: "session_next Running Completed"
| next_fail_pending: "session_next Pending Failed"
| next_fail: "session_next Running Failed"
| next_expire_pending: "session_next Pending Expired"
| next_expire: "session_next Running Expired"

inductive_simps next_from_terminal [simp]: "session_next Completed t" "session_next Failed t"
  "session_next Expired t"
inductive_simps next_from_active [simp]: "session_next Pending t" "session_next Running t"

lemma terminal_active: "active s \<longleftrightarrow> \<not> terminal (sstatus s)"
  by (cases "sstatus s") (auto simp: active_def terminal_def)

text \<open>
  One row before and after a statement: what never changes stays, the status stays or takes one
  step, and a session that has started keeps its start.
\<close>

definition same_session :: "session \<Rightarrow> session \<Rightarrow> bool" where
  "same_session s t \<longleftrightarrow> sid t = sid s \<and> sworker t = sworker s \<and> sbrowser t = sbrowser s
     \<and> sversion t = sversion s \<and> saddress t = saddress s \<and> smode t = smode s \<and> skey t = skey s
     \<and> screated t = screated s \<and> skeep_alive t = skeep_alive s \<and> smetadata t = smetadata s"

definition session_moves :: "session \<Rightarrow> session \<Rightarrow> bool" where
  "session_moves s t \<longleftrightarrow> same_session s t
     \<and> (sstatus t = sstatus s \<or> session_next (sstatus s) (sstatus t))
     \<and> (terminal (sstatus s) \<longrightarrow> t = s)
     \<and> (sstatus t = Running \<longrightarrow> sstarted t \<noteq> None \<or> sstarted t = sstarted s)"

lemma session_moves_refl [simp]: "session_moves s s"
  by (simp add: session_moves_def same_session_def)

lemma session_moves_active: "session_moves s t \<Longrightarrow> active t \<Longrightarrow> active s"
  by (auto simp: session_moves_def terminal_active)

lemma session_moves_ids:
  "session_moves s t \<Longrightarrow> sid t = sid s \<and> sworker t = sworker s \<and> sbrowser t = sbrowser s"
  by (simp add: session_moves_def same_session_def)

section \<open>Facts\<close>

lemma update_session_Inr:
  "update_session g f a i now d = Inr (s', e) \<longleftrightarrow>
    (\<exists>s. lookup_row sid i (sessions d) = Some s \<and> g s \<and> s' = f s \<and> e = a \<circ> set_sessions [i] f)"
  by (auto simp: update_session_def split: option.splits)

lemma update_session_Inl:
  "update_session g f a i now d = Inl x \<longleftrightarrow>
    x = ErrNoRows \<and> (\<forall>s. lookup_row sid i (sessions d) = Some s \<longrightarrow> \<not> g s)"
  by (auto simp: update_session_def split: option.splits)

lemmas session_transition_defs = StartSession_def CompleteSession_def FailSession_def
  TerminateSession_def RenewSessionHeartbeat_def

lemma session_transition_Inl:
  "StartSession i now d = Inl x \<Longrightarrow> x = ErrNoRows"
  "CompleteSession i now d = Inl x \<Longrightarrow> x = ErrNoRows"
  "FailSession i now d = Inl x \<Longrightarrow> x = ErrNoRows"
  "TerminateSession i now d = Inl x \<Longrightarrow> x = ErrNoRows"
  "RenewSessionHeartbeat i now d = Inl x \<Longrightarrow> x = ErrNoRows"
  "GetSession i now d = Inl x \<Longrightarrow> x = ErrNoRows"
  by (auto simp: session_transition_defs update_session_Inl GetSession_def split: option.splits)

text \<open>Writing every selected row by a move is a move of every row.\<close>

definition sessions_move :: "database \<Rightarrow> database \<Rightarrow> bool" where
  "sessions_move d d' \<longleftrightarrow> (\<exists>f. sessions d' = map f (sessions d) \<and> (\<forall>s \<in> set (sessions d). session_moves s (f s)))"

lemma set_sessions_move:
  assumes "\<And>s. s \<in> set (sessions d) \<Longrightarrow> sid s \<in> set is \<Longrightarrow> session_moves s (f s)"
  shows "sessions_move d (set_sessions is f d)"
  unfolding sessions_move_def
  by (rule exI [of _ "\<lambda>s. if sid s \<in> set is then f s else s"])
    (use assms in \<open>auto simp: effect_targets update_where_def\<close>)

lemma sessions_move_refl [simp]: "sessions_move d d"
  unfolding sessions_move_def by (rule exI [of _ id]) simp

lemma sessions_move_same: "sessions d' = sessions d \<Longrightarrow> sessions_move d d'"
  unfolding sessions_move_def by (rule exI [of _ id]) simp

lemma sessions_move_ids: "sessions_move d d' \<Longrightarrow> map sid (sessions d') = map sid (sessions d)"
  by (auto simp: sessions_move_def session_moves_ids)

lemma sessions_move_notify: "sessions_move d d' \<Longrightarrow> sessions_move d (notify d')"
  by (simp add: sessions_move_def)

lemma sessions_move_count:
  assumes "sessions_move d d'"
  shows "count_active d' i \<le> count_active d i"
proof -
  from assms obtain f where f: "sessions d' = map f (sessions d)"
    and m: "\<forall>s \<in> set (sessions d). session_moves s (f s)"
    by (auto simp: sessions_move_def)
  have "length (filter (\<lambda>s. sworker s = i \<and> active s) (map f ss))
      \<le> length (filter (\<lambda>s. sworker s = i \<and> active s) ss)"
    if "\<forall>s \<in> set ss. session_moves s (f s)" for ss
    using that
  proof (induction ss)
    case Nil
    then show ?case by simp
  next
    case (Cons s ss)
    then have "session_moves s (f s)" by simp
    then have "sworker (f s) = sworker s" "active (f s) \<Longrightarrow> active s"
      by (auto dest: session_moves_ids session_moves_active)
    with Cons show ?case by auto
  qed
  with f m show ?thesis by (simp add: count_active_def)
qed

lemma sessions_move_lookup:
  assumes "sessions_move d d'" and "lookup_row sid i (sessions d) = Some s"
  shows "\<exists>t. lookup_row sid i (sessions d') = Some t \<and> session_moves s t"
proof -
  from assms(1) obtain f where f: "sessions d' = map f (sessions d)"
    and m: "\<forall>s \<in> set (sessions d). session_moves s (f s)"
    by (auto simp: sessions_move_def)
  have "lookup_row sid i (map f ss) = map_option f (lookup_row sid i ss)"
    if "\<forall>s \<in> set ss. session_moves s (f s)" for ss
    using that by (induction ss) (auto dest: session_moves_ids)
  with f m assms(2) show ?thesis using lookup_row_Some by fastforce
qed

lemma row_moves:
  "sstatus s = Pending \<Longrightarrow> session_moves s (start_row now s)"
  "sstatus s = Running \<Longrightarrow> session_moves s (s\<lparr>sstatus := Completed\<rparr>)"
  "active s \<Longrightarrow> session_moves s (s\<lparr>sstatus := Completed\<rparr>)"
  "active s \<Longrightarrow> session_moves s (s\<lparr>sstatus := Failed\<rparr>)"
  "active s \<Longrightarrow> session_moves s (s\<lparr>sstatus := Expired\<rparr>)"
  "sstatus s = Running \<Longrightarrow> session_moves s (s\<lparr>sheartbeat := now\<rparr>)"
  by (auto simp: session_moves_def same_session_def start_row_def active_def terminal_def)

lemma update_session_moves:
  assumes "distinct (map sid (sessions d))" and "update_session g f a i now d = Inr (s', e)"
    and "\<And>s. g s \<Longrightarrow> session_moves s (f s)" and "a = id \<or> a = notify"
  shows "sessions_move d (e d)"
proof -
  from assms(2) obtain s where s: "lookup_row sid i (sessions d) = Some s" "g s"
    and e: "e = a \<circ> set_sessions [i] f"
    by (auto simp: update_session_Inr)
  have "sessions_move d (set_sessions [i] f d)"
  proof (rule set_sessions_move)
    fix t assume "t \<in> set (sessions d)" "sid t \<in> set [i]"
    with s assms(1) have "t = s"
      using lookup_row_unique [of sid "sessions d" t] by auto
    with s assms(3) show "session_moves t (f t)" by simp
  qed
  with e assms(4) show ?thesis by (auto intro: sessions_move_notify)
qed

text \<open>Every statement of one session moves the rows along the state machine.\<close>

lemma session_statement_moves:
  assumes "distinct (map sid (sessions d))"
  shows "StartSession i now d = Inr (s, e) \<Longrightarrow> sessions_move d (e d)"
    "CompleteSession i now d = Inr (s, e) \<Longrightarrow> sessions_move d (e d)"
    "FailSession i now d = Inr (s, e) \<Longrightarrow> sessions_move d (e d)"
    "TerminateSession i now d = Inr (s, e) \<Longrightarrow> sessions_move d (e d)"
    "RenewSessionHeartbeat i now d = Inr (s, e) \<Longrightarrow> sessions_move d (e d)"
  unfolding session_transition_defs
  by (erule update_session_moves [OF assms]; simp add: row_moves)+

lemma bulk_statement_moves:
  assumes "distinct (map sid (sessions d))"
  shows "ExpireDeadSessions ttl now d = Inr (rs, e) \<Longrightarrow> sessions_move d (e d)"
    "FailUnreportedWorkerSessions i grace reported now d = Inr (is, e) \<Longrightarrow> sessions_move d (e d)"
proof -
  have sel: "t \<in> set (sessions d) \<Longrightarrow> sid t \<in> set (map sid (filter p (sessions d))) \<Longrightarrow> p t" for p t
    using assms by (auto simp: distinct_map inj_on_def)
  show "ExpireDeadSessions ttl now d = Inr (rs, e) \<Longrightarrow> sessions_move d (e d)"
    by (auto simp: ExpireDeadSessions_def Let_def dead_session_def
        intro!: set_sessions_move row_moves dest!: sel)
  show "FailUnreportedWorkerSessions i grace reported now d = Inr (is, e) \<Longrightarrow> sessions_move d (e d)"
    by (auto simp: FailUnreportedWorkerSessions_def Let_def unreported_def active_def
        intro!: set_sessions_move row_moves dest!: sel)
qed

end
