(* ===== verification/Key_Queries.thy ===== *)
theory Key_Queries
  imports Store
begin

text \<open>
  The statements of \<open>db/data/api_keys.sql.go\<close>: keys are inserted, looked up by the digest of
  their token, touched at most once a minute, revoked once, and deleted only by the \<open>apikey create\<close>
  command when it could not print the token.
\<close>

record insert_key_params =
  ik_id :: uuid
  ik_name :: string
  ik_hash :: string
  ik_prefix :: string

definition InsertAPIKey :: "insert_key_params \<Rightarrow> api_key stmt" where
  "InsertAPIKey p now d =
    (let k = \<lparr>kid = ik_id p, kname = ik_name p, khash = ik_hash p, kprefix = ik_prefix p,
              kcreated = now, klast_used = None, krevoked = None\<rparr>
     in if kid k \<in> set (map kid (api_keys d)) \<or> khash k \<in> set (map khash (api_keys d))
        then Inl (Cause (PgError ''23505''))
        else Inr (k, insert_key k))"

definition GetAPIKey :: "uuid \<Rightarrow> api_key stmt" where
  "GetAPIKey i now d =
    (case lookup_row kid i (api_keys d) of None \<Rightarrow> Inl ErrNoRows | Some k \<Rightarrow> Inr (k, id))"

definition GetActiveAPIKeyByHash :: "string \<Rightarrow> api_key stmt" where
  "GetActiveAPIKeyByHash h now d =
    (case find (\<lambda>k. khash k = h \<and> krevoked k = None) (api_keys d) of
       None \<Rightarrow> Inl ErrNoRows | Some k \<Rightarrow> Inr (k, id))"

definition CountActiveAPIKeys :: "int stmt" where
  "CountActiveAPIKeys now d = Inr (int (length (filter (\<lambda>k. krevoked k = None) (api_keys d))), id)"

definition ListAPIKeys :: "api_key list stmt" where
  "ListAPIKeys now d = Inr (sort_key (\<lambda>k. (kcreated k, kid k)) (api_keys d), id)"

text \<open>\<open>interval '1 minute'\<close> in microseconds; a statement that selects no row is no error.\<close>

definition touch_due :: "int \<Rightarrow> api_key \<Rightarrow> bool" where
  "touch_due now k \<longleftrightarrow> (case klast_used k of None \<Rightarrow> True | Some t \<Rightarrow> t < now - 60000000)"

definition TouchAPIKey :: "uuid \<Rightarrow> unit stmt" where
  "TouchAPIKey i now d =
    Inr ((), set_keys (map kid (filter (\<lambda>k. kid k = i \<and> touch_due now k) (api_keys d)))
               (\<lambda>k. k\<lparr>klast_used := Some now\<rparr>))"

definition RevokeAPIKey :: "uuid \<Rightarrow> api_key stmt" where
  "RevokeAPIKey i now d =
    (case lookup_row kid i (api_keys d) of
       None \<Rightarrow> Inl ErrNoRows
     | Some k \<Rightarrow> if krevoked k = None
         then Inr (k\<lparr>krevoked := Some now\<rparr>, set_keys [i] (\<lambda>k. k\<lparr>krevoked := Some now\<rparr>))
         else Inl ErrNoRows)"

text \<open>\<open>ON DELETE RESTRICT\<close>: a key that a session refers to cannot be deleted.\<close>

definition DeleteAPIKey :: "uuid \<Rightarrow> unit stmt" where
  "DeleteAPIKey i now d =
    (if list_ex (\<lambda>s. skey s = Some i) (sessions d) \<and> i \<in> set (map kid (api_keys d))
     then Inl (Cause (PgError ''23503''))
     else Inr ((), delete_keys [i]))"

section \<open>Facts\<close>

lemma active_key_Inr:
  "GetActiveAPIKeyByHash h now d = Inr (k, e) \<Longrightarrow>
    k \<in> set (api_keys d) \<and> khash k = h \<and> krevoked k = None \<and> e = id"
  by (auto simp: GetActiveAPIKeyByHash_def split: option.splits dest: find_SomeD)

lemma active_key_Inl:
  "GetActiveAPIKeyByHash h now d = Inl x \<longleftrightarrow>
    x = ErrNoRows \<and> (\<forall>k \<in> set (api_keys d). khash k = h \<longrightarrow> krevoked k \<noteq> None)"
  by (auto simp: GetActiveAPIKeyByHash_def find_None_iff split: option.splits dest: find_SomeD)

lemma no_active_keys:
  "CountActiveAPIKeys now d = Inr (0, id) \<longleftrightarrow> (\<forall>k \<in> set (api_keys d). krevoked k \<noteq> None)"
  by (auto simp: CountActiveAPIKeys_def filter_empty_conv)

end
