(* ===== verification/Fleet.thy ===== *)
theory Fleet
  imports Worker_Queries Session_Queries Key_Queries
begin

text \<open>
  Every statement the program runs against the database, other than a claim's, as one step
  relation \<open>store_step\<close>, and what a step can do to a worker row and to a session row. The steps
  of a multi-statement transaction (a heartbeat, a registration) are given one by one, so every
  interleaving of the real transactions is among the runs. A statement that needs a row another
  transaction holds locked waits: \<open>L\<close> says which worker rows are locked.
\<close>

section \<open>The life of a worker\<close>

inductive worker_next :: "worker_status \<Rightarrow> worker_status \<Rightarrow> bool" where
  next_drain: "worker_next Available Draining"
| next_shut: "worker_next Available ShuttingDown"
| next_stall: "worker_next Available Stalled"
| next_revive: "worker_next Stalled Available"
| next_shut_stalled: "worker_next Stalled ShuttingDown"
| next_shut_draining: "worker_next Draining ShuttingDown"

inductive_simps worker_next_simps [simp]: "worker_next Available t" "worker_next Stalled t"
  "worker_next Draining t" "worker_next ShuttingDown t"

definition same_worker :: "worker \<Rightarrow> worker \<Rightarrow> bool" where
  "same_worker w v \<longleftrightarrow> wid v = wid w \<and> waddress v = waddress w \<and> wbrowser v = wbrowser w
     \<and> wversion v = wversion w \<and> wmax_slots v = wmax_slots w \<and> wcreated v = wcreated w
     \<and> wlifetime v = wlifetime w"

definition worker_moves :: "worker \<Rightarrow> worker \<Rightarrow> bool" where
  "worker_moves w v \<longleftrightarrow> same_worker w v \<and> (wstatus v = wstatus w \<or> worker_next (wstatus w) (wstatus v))"

lemma worker_kept: "w \<in> A \<Longrightarrow> \<exists>v \<in> A. worker_moves v w"
  "w \<in> A \<Longrightarrow> \<exists>v \<in> A. worker_moves w v"
  by (auto simp: worker_moves_def same_worker_def)

lemma worker_moves_refl [simp]: "worker_moves w w"
  by (simp add: worker_moves_def same_worker_def)

lemma worker_row_moves:
  "worker_moves w (beat_heart now w)"
  "status_request_ok target (wstatus w) \<Longrightarrow> worker_moves w (w\<lparr>wstatus := target\<rparr>)"
  "wstatus w = Available \<Longrightarrow> worker_moves w (w\<lparr>wstatus := Stalled\<rparr>)"
  by (cases "wstatus w"; auto simp: worker_moves_def same_worker_def beat_heart_def status_request_ok_def)+

section \<open>Statements as steps\<close>

inductive store_step :: "(uuid \<Rightarrow> bool) \<Rightarrow> database \<Rightarrow> database \<Rightarrow> bool" for L where
  ss_start: "StartSession i now d = Inr (s, e) \<Longrightarrow> store_step L d (e d)"
| ss_complete: "CompleteSession i now d = Inr (s, e) \<Longrightarrow> store_step L d (e d)"
| ss_fail: "FailSession i now d = Inr (s, e) \<Longrightarrow> store_step L d (e d)"
| ss_terminate: "TerminateSession i now d = Inr (s, e) \<Longrightarrow> store_step L d (e d)"
| ss_renew: "RenewSessionHeartbeat i now d = Inr (s, e) \<Longrightarrow> store_step L d (e d)"
| ss_expire: "ExpireDeadSessions ttl now d = Inr (rs, e) \<Longrightarrow> store_step L d (e d)"
| ss_unreported: "FailUnreportedWorkerSessions i grace reported now d = Inr (rs, e) \<Longrightarrow> store_step L d (e d)"
| ss_notify: "NotifyCapacityChanged now d = Inr ((), e) \<Longrightarrow> store_step L d (e d)"
| ss_register: "RegisterWorker p now d = Inr (w, e) \<Longrightarrow> store_step L d (e d)"
| ss_beat: "UpdateWorkerHeartbeat i now d = Inr (w, e) \<Longrightarrow> \<not> L i \<Longrightarrow> store_step L d (e d)"
| ss_status: "SetWorkerStatus i target now d = Inr (w, e) \<Longrightarrow> \<not> L i \<Longrightarrow> store_step L d (e d)"
| ss_stall: "StallSilentWorkers ttl now d = Inr (n, e) \<Longrightarrow>
    (\<And>w. w \<in> set (workers d) \<Longrightarrow> wstatus w = Available \<Longrightarrow> silent now ttl w \<Longrightarrow> \<not> L (wid w)) \<Longrightarrow>
    store_step L d (e d)"
| ss_delete: "DeleteDeadWorkers worker_ttl stalled_ttl now d = Inr (is, e) \<Longrightarrow>
    (\<And>i. i \<in> set is \<Longrightarrow> \<not> L i) \<Longrightarrow> store_step L d (e d)"
| ss_key_insert: "InsertAPIKey kp now d = Inr (k, e) \<Longrightarrow> store_step L d (e d)"
| ss_key_touch: "TouchAPIKey i now d = Inr ((), e) \<Longrightarrow> store_step L d (e d)"
| ss_key_revoke: "RevokeAPIKey i now d = Inr (k, e) \<Longrightarrow> store_step L d (e d)"
| ss_key_delete: "DeleteAPIKey i now d = Inr ((), e) \<Longrightarrow> store_step L d (e d)"

section \<open>What a step does to the tables\<close>

text \<open>
  The workers table: kept rows move along the worker's life, a new row has a new identifier and a
  positive number of slots, a row that disappears was unlocked and had no active session, and a
  locked row does not change at all.
\<close>

definition workers_evolve :: "(uuid \<Rightarrow> bool) \<Rightarrow> database \<Rightarrow> database \<Rightarrow> bool" where
  "workers_evolve L d d' \<longleftrightarrow>
     (\<forall>v \<in> set (workers d'). (\<exists>w \<in> set (workers d). worker_moves w v)
        \<or> (wid v \<notin> wid ` set (workers d) \<and> 0 < wmax_slots v))
     \<and> (\<forall>w \<in> set (workers d). (\<exists>v \<in> set (workers d'). worker_moves w v)
        \<or> (\<not> L (wid w) \<and> count_active d (wid w) = 0))
     \<and> (\<forall>w \<in> set (workers d). L (wid w) \<longrightarrow> w \<in> set (workers d'))
     \<and> (distinct (map wid (workers d)) \<longrightarrow> distinct (map wid (workers d')))"

lemma workers_evolve_same: "workers d' = workers d \<Longrightarrow> workers_evolve L d d'"
  unfolding workers_evolve_def using worker_moves_refl by fastforce

lemma set_workers_evolve:
  assumes "\<And>w. w \<in> set (workers d) \<Longrightarrow> wid w \<in> set is \<Longrightarrow> worker_moves w (f w) \<and> \<not> L (wid w)"
  shows "workers_evolve L d (set_workers is f d)"
proof -
  define g where "g = (\<lambda>w. if wid w \<in> set is then f w else w)"
  have g: "worker_moves w (g w)" "L (wid w) \<Longrightarrow> g w = w" if "w \<in> set (workers d)" for w
    using assms that by (auto simp: g_def)
  have ids: "map wid (map g (workers d)) = map wid (workers d)"
    using g(1) by (auto simp: worker_moves_def same_worker_def)
  have ws: "workers (set_workers is f d) = map g (workers d)"
    by (simp add: effect_targets update_where_def g_def)
  have im: "w \<in> set (workers d) \<Longrightarrow> g w \<in> set (map g (workers d))" for w
    by simp
  show ?thesis
    unfolding workers_evolve_def ws ids
  proof (intro conjI ballI impI)
    fix v assume "v \<in> set (map g (workers d))"
    then show "(\<exists>w \<in> set (workers d). worker_moves w v) \<or> (wid v \<notin> wid ` set (workers d) \<and> 0 < wmax_slots v)"
      using g(1) by (auto simp only: set_map)
  next
    fix w assume w: "w \<in> set (workers d)"
    then show "(\<exists>v \<in> set (map g (workers d)). worker_moves w v) \<or> (\<not> L (wid w) \<and> count_active d (wid w) = 0)"
      using g(1) im by blast
    assume "L (wid w)"
    with w show "w \<in> set (map g (workers d))" using g(2) im by metis
  qed
qed

lemma delete_workers_evolve:
  assumes "\<And>i. i \<in> set is \<Longrightarrow> \<not> L i \<and> count_active d i = 0"
  shows "workers_evolve L d (delete_workers is d)"
  unfolding workers_evolve_def effect_targets
  using assms worker_kept by (auto intro: distinct_map_filter)

lemma insert_worker_evolve:
  assumes "wid w \<notin> wid ` set (workers d)" and "0 < wmax_slots w"
  shows "workers_evolve L d (insert_worker w d)"
  unfolding workers_evolve_def effect_targets
  using assms worker_kept by auto

lemma update_worker_evolves:
  assumes "distinct (map wid (workers d))" and "update_worker g f i now d = Inr (w, e)"
    and "\<And>w. g w \<Longrightarrow> worker_moves w (f w)" and "\<not> L i"
  shows "workers_evolve L d (e d)"
proof -
  from assms(2) obtain w0 where w0: "lookup_row wid i (workers d) = Some w0" "g w0" "e = set_workers [i] f"
    by (auto simp: update_worker_Inr)
  have "worker_moves v (f v) \<and> \<not> L (wid v)" if "v \<in> set (workers d)" "wid v \<in> set [i]" for v
    using that w0 assms(1,3,4) lookup_row_unique [of wid "workers d" v] by auto
  with w0(3) show ?thesis by (auto intro: set_workers_evolve)
qed

lemma store_step_sessions:
  assumes "store_step L d d'" and "distinct (map sid (sessions d))"
  shows "sessions_move d d'"
  using assms
  by (cases rule: store_step.cases)
    (auto intro: session_statement_moves bulk_statement_moves sessions_move_same
      simp: NotifyCapacityChanged_def RegisterWorker_def UpdateWorkerHeartbeat_def SetWorkerStatus_def
        update_worker_Inr StallSilentWorkers_def DeleteDeadWorkers_def InsertAPIKey_def TouchAPIKey_def
        RevokeAPIKey_def DeleteAPIKey_def Let_def split: if_splits option.splits)

lemma selected_key:
  "distinct (map wid ws) \<Longrightarrow> w \<in> set ws \<Longrightarrow> wid w \<in> set (map wid (filter p ws)) \<Longrightarrow> p w"
  by (auto simp: distinct_map inj_on_def)

lemma store_step_workers:
  assumes "store_step L d d'" and "distinct (map wid (workers d))"
  shows "workers_evolve L d d'"
  using assms(1)
proof (cases rule: store_step.cases)
  case (ss_beat i now w e)
  with assms(2) show ?thesis
    by (auto simp: UpdateWorkerHeartbeat_def intro: update_worker_evolves worker_row_moves)
next
  case (ss_status i target now w e)
  with assms(2) show ?thesis
    by (auto simp: SetWorkerStatus_def intro: update_worker_evolves worker_row_moves)
next
  case (ss_stall ttl now n e)
  then show ?thesis
    by (auto simp: StallSilentWorkers_def Let_def intro!: set_workers_evolve worker_row_moves
        dest: selected_key [OF assms(2)])
next
  case (ss_delete worker_ttl stalled_ttl now "is" e)
  then show ?thesis
    by (auto simp: DeleteDeadWorkers_def Let_def no_active_sessions_count intro!: delete_workers_evolve)
next
  case (ss_register p now w e)
  then show ?thesis
    by (auto simp: RegisterWorker_def Let_def worker_check_def intro!: insert_worker_evolve split: if_splits)
qed (auto intro!: workers_evolve_same simp: session_transition_defs update_session_Inr ExpireDeadSessions_def
    FailUnreportedWorkerSessions_def NotifyCapacityChanged_def InsertAPIKey_def TouchAPIKey_def
    RevokeAPIKey_def DeleteAPIKey_def Let_def split: if_splits option.splits)

lemma store_step_count:
  "store_step L d d' \<Longrightarrow> distinct (map sid (sessions d)) \<Longrightarrow> count_active d' i \<le> count_active d i"
  by (blast intro: sessions_move_count store_step_sessions)

lemma store_step_sids:
  "store_step L d d' \<Longrightarrow> distinct (map sid (sessions d)) \<Longrightarrow> map sid (sessions d') = map sid (sessions d)"
  by (blast intro: sessions_move_ids store_step_sessions)

end
