(* ===== verification/Scheduler.thy ===== *)
theory Scheduler
  imports Worker_Queries Session_Queries
begin

text \<open>
  \<open>internal/scheduler/scheduler.go\<close>: one claim of a worker slot (\<open>claimOnce\<close>), the bounded retry
  around it (\<open>Claim\<close>), the admission queue (\<open>Admit\<close>), the capacity report and the worker
  heartbeat that reconciles sessions and starts the drain of a worker that reached its lifetime
  limit. Durations are nanoseconds, the database's times microseconds.
\<close>

section \<open>Options and requests\<close>

definition maxClaimAttempts :: nat where
  "maxClaimAttempts = 8"

definition defaultPollingInterval :: int where
  "defaultPollingInterval = second"

definition DefaultReconciliationGrace :: int where
  "DefaultReconciliationGrace = 15 * second"

record sched_options =
  so_worker_ttl :: int
  so_pending_ttl :: int
  so_max_lifetime :: int
  so_max_queue :: int
  so_queue_wait :: int
  so_polling :: int
  so_grace :: int

definition new_scheduler :: "sched_options \<Rightarrow> sched_options" where
  "new_scheduler o' = o'\<lparr>
     so_polling := (if so_polling o' \<le> 0 then defaultPollingInterval else so_polling o'),
     so_grace := (if so_grace o' \<le> 0 then DefaultReconciliationGrace else so_grace o')\<rparr>"

record claim_request =
  cq_browser :: string
  cq_prefix :: string
  cq_key :: "uuid option"
  cq_metadata :: "string option"

definition select_params :: "sched_options \<Rightarrow> claim_request \<Rightarrow> uuid list \<Rightarrow> claim_params" where
  "select_params opts req excluded =
     \<lparr>cp_browser = cq_browser req, cp_prefix = cq_prefix req,
      cp_ttl = microseconds (so_worker_ttl opts), cp_max_lifetime = so_max_lifetime opts,
      cp_excluded = excluded\<rparr>"

definition insert_params :: "sched_options \<Rightarrow> claim_request \<Rightarrow> uuid \<Rightarrow> worker \<Rightarrow> insert_claimed_params" where
  "insert_params opts req new_id worker =
     \<lparr>ic_id = new_id, ic_worker = wid worker, ic_browser = wbrowser worker,
      ic_version = wversion worker, ic_address = waddress worker, ic_key = cq_key req,
      ic_pending_ttl = microseconds (so_pending_ttl opts), ic_metadata = cq_metadata req\<rparr>"

section \<open>One claim\<close>

text \<open>
  The body of the claim's transaction. The selection's snapshot is the database when the
  statement starts; the row it locks is read in the database the beat leaves. The error side
  carries \<open>fullWorkerID\<close>.
\<close>

definition claim_select ::
  "claim_params \<Rightarrow> tx \<Rightarrow> world \<Rightarrow> (error + worker) \<times> world" where
  "claim_select p t w = (let (b, w1) = next_beat w in
     case fault b of
       Some (c, _) \<Rightarrow> (Inl (Cause c), w1)
     | None \<Rightarrow>
         (case SelectClaimableWorker p (\<lambda>i. i \<in> set (locked b)) (wdb w) (tx_now t) (wdb w1) of
            Inl e \<Rightarrow> (Inl e, w1)
          | Inr (worker, _) \<Rightarrow> (Inr worker, w1)))"

definition claim_write ::
  "sched_options \<Rightarrow> claim_request \<Rightarrow> uuid \<Rightarrow> worker \<Rightarrow> tx \<Rightarrow> world \<Rightarrow> (error + (session \<times> tx)) \<times> world" where
  "claim_write opts req new_id worker t w =
    andThen (wrapErr ''inserting claimed session''
              (tx_exec (InsertClaimedSession (insert_params opts req new_id worker)) t w))
      (\<lambda>(session, t1) w1.
        andThen (wrapErr ''incrementing worker lifetime sessions''
                  (tx_exec (IncrementWorkerLifetimeSessions (wid worker)) t1 w1))
          (\<lambda>(_, t2) w2. (Inr (session, t2), w2)))"

definition claim_body ::
  "sched_options \<Rightarrow> claim_request \<Rightarrow> uuid \<Rightarrow> uuid list \<Rightarrow> tx \<Rightarrow> world
    \<Rightarrow> ((error \<times> uuid option) + (session \<times> tx)) \<times> world" where
  "claim_body opts req new_id excluded t w =
    (case claim_select (select_params opts req excluded) t w of
       (Inl e, w1) \<Rightarrow>
         (if is_no_rows e then (Inl (ErrNoCapacity, None), w1)
          else (Inl (Wrap ''selecting claimable worker'' e, None), w1))
     | (Inr worker, w1) \<Rightarrow>
         (case tx_exec (CountActiveSessionsByWorker (wid worker)) t w1 of
            (Inl e, w2) \<Rightarrow> (Inl (Wrap ''recounting worker sessions'' e, None), w2)
          | (Inr (active_count, t1), w2) \<Rightarrow>
              (if active_count \<ge> wmax_slots worker then (Inl (ErrNoCapacity, Some (wid worker)), w2)
               else (case claim_write opts req new_id worker t1 w2 of
                       (Inl e, w3) \<Rightarrow> (Inl (e, None), w3)
                     | (Inr r, w3) \<Rightarrow> (Inr r, w3)))))"

definition claimOnce ::
  "sched_options \<Rightarrow> claim_request \<Rightarrow> uuid \<Rightarrow> uuid list \<Rightarrow> world
    \<Rightarrow> ((error \<times> uuid option) + session) \<times> world" where
  "claimOnce opts req new_id excluded w =
    (case tx_begin w of
       (Inl e, w1) \<Rightarrow> (Inl (Wrap ''beginning session claim'' e, None), w1)
     | (Inr t, w1) \<Rightarrow>
         (case claim_body opts req new_id excluded t w1 of
            (Inl (e, full), w2) \<Rightarrow> (let (e', w3) = rollback e w2 in (Inl (e', full), w3))
          | (Inr (session, t'), w2) \<Rightarrow>
              (case tx_commit t' w2 of
                 (Inl e, w3) \<Rightarrow> (Inl (Pair ErrUncertainCommit e, None), w3)
               | (Inr _, w3) \<Rightarrow> (Inr session, w3))))"

section \<open>Bounded retry\<close>

text \<open>
  \<open>Claim\<close> makes at most \<open>maxClaimAttempts\<close> attempts. \<open>ce_id k\<close> is the identifier attempt \<open>k\<close>
  draws, \<open>ce_wait k\<close> how the wait after it ended (\<open>Some c\<close>: the request's context was done).
\<close>

record claim_env =
  ce_id :: "nat \<Rightarrow> uuid"
  ce_wait :: "nat \<Rightarrow> cause option"

fun claim_attempts ::
  "sched_options \<Rightarrow> claim_request \<Rightarrow> claim_env \<Rightarrow> nat \<Rightarrow> uuid list \<Rightarrow> world \<Rightarrow> (error + session) \<times> world" where
  "claim_attempts opts req env 0 excluded w = (Inl ErrNoCapacity, w)"
| "claim_attempts opts req env (Suc left) excluded w =
    (let attempt = maxClaimAttempts - Suc left in
     case claimOnce opts req (ce_id env attempt) excluded w of
       (Inr session, w') \<Rightarrow> (Inr session, w')
     | (Inl (e, full), w') \<Rightarrow>
         (if \<not> errors_Is e ErrNoCapacity then (Inl e, w')
          else (case full of
                  Some i \<Rightarrow> claim_attempts opts req env left (excluded @ [i]) w'
                | None \<Rightarrow>
                    (if left = 0 then (Inl ErrNoCapacity, w')
                     else (case ce_wait env attempt of
                             Some c \<Rightarrow> (Inl (Cause c), w')
                           | None \<Rightarrow> claim_attempts opts req env left excluded w')))))"

definition Claim ::
  "sched_options \<Rightarrow> claim_request \<Rightarrow> claim_env \<Rightarrow> world \<Rightarrow> (error + session) \<times> world" where
  "Claim opts req env w = claim_attempts opts req env maxClaimAttempts [] w"

section \<open>Admission\<close>

text \<open>
  What the loop of \<open>Admit\<close> can observe: the request's context, the scheduler's lifecycle context
  and the wait context, each with its error once it is done.
\<close>

record signals =
  sg_ctx :: "cause option"
  sg_drain :: bool
  sg_wait :: "cause option"

definition queueWaitError :: "signals \<Rightarrow> error option" where
  "queueWaitError sg =
    (case sg_ctx sg of
       Some c \<Rightarrow> Some (Cause c)
     | None \<Rightarrow>
         (if sg_drain sg then Some ErrSchedulerDraining
          else if sg_wait sg = Some DeadlineExceeded then Some ErrWaitTimeout
          else map_option Cause (sg_wait sg)))"

text \<open>
  One iteration: the signals at its top, the identifier the claim draws, the signals after a
  failed claim, and which case of the final \<open>select\<close> fires. In \<open>WaitDone\<close> the wait context is
  done, with the error \<open>c\<close>.
\<close>

datatype select_case = WaitDone "cause option" bool cause | LifecycleDone | Woken | PollTimer

record round =
  rd_top :: signals
  rd_id :: uuid
  rd_after :: signals
  rd_select :: select_case

definition wait_done_error :: "cause option \<Rightarrow> bool \<Rightarrow> cause \<Rightarrow> error" where
  "wait_done_error ctx drain c =
    (case ctx of
       Some c' \<Rightarrow> Cause c'
     | None \<Rightarrow> if drain then ErrSchedulerDraining
         else if c = DeadlineExceeded then ErrWaitTimeout else Cause c)"

lemma wait_done_error_eq:
  "queueWaitError \<lparr>sg_ctx = ctx, sg_drain = drain, sg_wait = Some c\<rparr> = Some (wait_done_error ctx drain c)"
  by (simp add: queueWaitError_def wait_done_error_def split: option.splits)

text \<open>The queue loop; a script of iterations that runs out leaves the request waiting (\<open>None\<close>).\<close>

fun admit_loop ::
  "sched_options \<Rightarrow> claim_request \<Rightarrow> round list \<Rightarrow> uuid list \<Rightarrow> world
    \<Rightarrow> (error + session) option \<times> world" where
  "admit_loop opts req [] excluded w = (None, w)"
| "admit_loop opts req (r # rs) excluded w =
    (case queueWaitError (rd_top r) of
       Some e \<Rightarrow> (Some (Inl e), w)
     | None \<Rightarrow>
         (case claimOnce opts req (rd_id r) excluded w of
            (Inr session, w') \<Rightarrow> (Some (Inr session), w')
          | (Inl (e, full), w') \<Rightarrow>
              (if errors_Is e ErrNoCapacity \<and> full \<noteq> None
               then admit_loop opts req rs (excluded @ [the full]) w'
               else if errors_Is e ErrUncertainCommit then (Some (Inl e), w')
               else (case queueWaitError (rd_after r) of
                       Some e' \<Rightarrow> (Some (Inl e'), w')
                     | None \<Rightarrow>
                         (if errors_Is e (Cause Canceled) \<or> errors_Is e (Cause DeadlineExceeded)
                          then (Some (Inl e), w')
                          else (case rd_select r of
                                  WaitDone ctx drain c \<Rightarrow> (Some (Inl (wait_done_error ctx drain c)), w')
                                | LifecycleDone \<Rightarrow> (Some (Inl ErrSchedulerDraining), w')
                                | Woken \<Rightarrow> admit_loop opts req rs [] w'
                                | PollTimer \<Rightarrow> admit_loop opts req rs [] w'))))))"

definition enterQueue :: "sched_options \<Rightarrow> int \<Rightarrow> int option" where
  "enterQueue opts queued = (if queued \<ge> so_max_queue opts then None else Some (queued + 1))"

definition leaveQueue :: "int \<Rightarrow> int" where
  "leaveQueue queued = queued - 1"

text \<open>
  \<open>Admit\<close> with the queue depth it finds, whether the scheduler is draining at its two checks, the
  environment of its first claim and the iterations of its loop. The depth is returned; a request
  still waiting stays counted.
\<close>

record admit_env =
  ae_draining_first :: bool
  ae_claim :: claim_env
  ae_draining_second :: bool
  ae_rounds :: "round list"

definition Admit ::
  "sched_options \<Rightarrow> claim_request \<Rightarrow> admit_env \<Rightarrow> int \<Rightarrow> world
    \<Rightarrow> (error + session) option \<times> int \<times> world" where
  "Admit opts req env queued w =
    (if ae_draining_first env then (Some (Inl ErrSchedulerDraining), queued, w)
     else (case Claim opts req (ae_claim env) w of
             (Inr session, w1) \<Rightarrow> (Some (Inr session), queued, w1)
           | (Inl e, w1) \<Rightarrow>
               (if \<not> errors_Is e ErrNoCapacity then (Some (Inl e), queued, w1)
                else if ae_draining_second env then (Some (Inl ErrSchedulerDraining), queued, w1)
                else (case enterQueue opts queued of
                        None \<Rightarrow> (Some (Inl ErrQueueFull), queued, w1)
                      | Some q \<Rightarrow>
                          (case admit_loop opts req (ae_rounds env) [] w1 of
                             (None, w2) \<Rightarrow> (None, q, w2)
                           | (Some r, w2) \<Rightarrow> (Some r, leaveQueue q, w2))))))"

section \<open>Capacity and heartbeat\<close>

record capacity_report =
  cap_browsers :: "capacity_row list"
  cap_queued :: int
  cap_max_queue :: int

definition Capacity :: "sched_options \<Rightarrow> int \<Rightarrow> world \<Rightarrow> (error + capacity_report) \<times> world" where
  "Capacity opts queued w =
    andThen (wrapErr ''querying capacity''
        (exec (GetCapacityByBrowser (microseconds (so_worker_ttl opts)) (so_max_lifetime opts)) w))
      (\<lambda>rows w1. (Inr \<lparr>cap_browsers = rows, cap_queued = queued, cap_max_queue = so_max_queue opts\<rparr>, w1))"

text \<open>
  The end of the heartbeat: a worker that is still available and has used up its lifetime is
  sent into draining; if its row has left that state meanwhile, it is left alone.
\<close>

definition drain_if_due :: "sched_options \<Rightarrow> worker \<Rightarrow> tx \<Rightarrow> world \<Rightarrow> (error + (worker \<times> tx)) \<times> world" where
  "drain_if_due opts worker t w =
    (if so_max_lifetime opts > 0 \<and> wlifetime worker \<ge> so_max_lifetime opts \<and> wstatus worker = Available
     then (case tx_exec (SetWorkerStatus (wid worker) Draining) t w of
             (Inr (draining, t1), w1) \<Rightarrow> (Inr (draining, t1), w1)
           | (Inl e, w1) \<Rightarrow>
               (if is_no_rows e then (Inr (worker, t), w1)
                else (Inl (Wrap ''draining lifetime-limited worker'' e), w1)))
     else (Inr (worker, t), w))"

definition heartbeat_body ::
  "sched_options \<Rightarrow> uuid \<Rightarrow> uuid list \<Rightarrow> tx \<Rightarrow> world
    \<Rightarrow> (error + ((worker \<times> uuid list \<times> uuid list) \<times> tx)) \<times> world" where
  "heartbeat_body opts i reported t w =
    andThen (wrapErr ''updating worker heartbeat'' (tx_exec (UpdateWorkerHeartbeat i) t w))
     (\<lambda>(worker, t1) w1.
    andThen (wrapErr ''failing unreported worker sessions''
        (tx_exec (FailUnreportedWorkerSessions i (microseconds (so_grace opts)) reported) t1 w1))
     (\<lambda>(failed, t2) w2.
    andThen (if failed \<noteq> []
             then wrapErr ''notifying reconciled capacity'' (tx_exec NotifyCapacityChanged t2 w2)
             else (Inr ((), t2), w2))
     (\<lambda>(_, t3) w3.
    andThen (wrapErr ''listing stale worker sessions''
        (tx_exec (ListStaleWorkerSessionIDs reported i) t3 w3))
     (\<lambda>(stale, t4) w4.
    andThen (drain_if_due opts worker t4 w4)
     (\<lambda>(worker', t5) w5. (Inr ((worker', stale, failed), t5), w5))))))"

definition Heartbeat ::
  "sched_options \<Rightarrow> uuid \<Rightarrow> uuid list \<Rightarrow> world \<Rightarrow> (error + (worker \<times> uuid list \<times> uuid list)) \<times> world" where
  "Heartbeat opts i reported w =
     in_tx ''beginning worker heartbeat'' (heartbeat_body opts i reported) ''committing worker heartbeat'' w"

section \<open>Polling jitter\<close>

text \<open>
  \<open>jitteredPollingInterval\<close> (and \<open>jitter\<close> of the rescuer): \<open>interval*4/5\<close> plus a random part up to
  \<open>interval*2/5\<close>. \<open>rand.Int64N n\<close> panics when \<open>n \<le> 0\<close> (\<open>None\<close>); \<open>roll\<close> is its raw draw.
\<close>

definition rand_Int64N :: "int \<Rightarrow> int \<Rightarrow> int option" where
  "rand_Int64N n roll = (if n \<le> 0 then None else Some (roll mod n))"

definition jitteredPollingInterval :: "int \<Rightarrow> int \<Rightarrow> int option" where
  "jitteredPollingInterval interval roll =
    (let span = go_div (wrap64 (interval * 2)) 5
     in case rand_Int64N (wrap64 (span + 1)) roll of
          None \<Rightarrow> None
        | Some r \<Rightarrow> Some (wrap64 (go_div (wrap64 (interval * 4)) 5 + r)))"

end
