(* ===== verification/Claim_Facts.thy ===== *)
theory Claim_Facts
  imports Scheduler
begin

text \<open>
  What one claim, the bounded retry and the admission loop do to the database, whatever the other
  connections do and wherever a round trip fails: a claim commits one session or nothing, an
  answer that was lost at the commit is never retried, and the worker chosen is the one the
  staggered-restart order puts first.
\<close>

section \<open>The write of a claim\<close>

definition claim_effect :: "worker \<Rightarrow> session \<Rightarrow> effect" where
  "claim_effect worker s =
     set_workers [wid worker] (\<lambda>w. w\<lparr>wlifetime := wlifetime w + 1\<rparr>) \<circ> insert_session s"

text \<open>
  A claim's history: it locked \<open>worker\<close> (selected in \<open>snap\<close>, read in \<open>cur\<close>), counted fewer active
  sessions than slots in \<open>seen\<close>, and inserted \<open>s\<close>.
\<close>

definition claim_made ::
  "sched_options \<Rightarrow> claim_request \<Rightarrow> uuid \<Rightarrow> uuid list \<Rightarrow> worker \<Rightarrow> session \<Rightarrow> bool" where
  "claim_made opts req new_id excluded worker s \<longleftrightarrow>
     (\<exists>held snap now cur seen.
        SelectClaimableWorker (select_params opts req excluded) held snap now cur = Inr (worker, id)
        \<and> count_active seen (wid worker) < wmax_slots worker
        \<and> s = claimed_row (insert_params opts req new_id worker) now)"

definition claim_committed ::
  "sched_options \<Rightarrow> claim_request \<Rightarrow> uuid \<Rightarrow> uuid list \<Rightarrow> world \<Rightarrow> world \<Rightarrow> session \<Rightarrow> bool" where
  "claim_committed opts req new_id excluded w w' s \<longleftrightarrow>
     (\<exists>worker w1. claim_made opts req new_id excluded worker s \<and> disturbed w w1
        \<and> w' = w1\<lparr>wdb := claim_effect worker s (wdb w1)\<rparr>)"

section \<open>Inside the transaction\<close>

lemma claim_select_Inr:
  assumes "claim_select p t w = (Inr worker, w1)"
  shows "disturbed w w1"
    and "\<exists>held. SelectClaimableWorker p held (wdb w) (tx_now t) (wdb w1) = Inr (worker, id)"
  using assms
  by (auto simp: claim_select_def Let_def split: prod.splits option.splits sum.splits
      dest: disturbed_next select_Inr(5))

lemma claim_select_Inl:
  assumes "claim_select p t w = (Inl e, w1)"
  shows "disturbed w w1" and "e = ErrNoRows \<or> (\<exists>c. e = Cause c)"
  using assms
  by (auto simp: claim_select_def Let_def select_Inl split: prod.splits option.splits sum.splits
      dest: disturbed_next)

lemma tx_exec_Inr:
  "tx_exec q t w = (Inr (a, t'), w') \<Longrightarrow>
    \<exists>e. q (tx_now t) (tx_effect t (wdb w')) = Inr (a, e) \<and> t' = t\<lparr>tx_effect := e \<circ> tx_effect t\<rparr>
      \<and> disturbed w w'"
  by (auto simp: tx_exec_def Let_def split: prod.splits option.splits sum.splits dest: disturbed_next)

lemma insert_claimed_Inr:
  "InsertClaimedSession p now d = Inr (s, e) \<Longrightarrow> s = claimed_row p now \<and> e = insert_session s"
  by (auto simp: InsertClaimedSession_def Let_def split: if_splits)

lemma insert_claimed_Inl: "InsertClaimedSession p now d = Inl e \<Longrightarrow> \<exists>c. e = Cause c"
  by (auto simp: InsertClaimedSession_def Let_def split: if_splits)

lemma increment_Inr:
  "IncrementWorkerLifetimeSessions i now d = Inr (w, e) \<Longrightarrow>
    e = set_workers [i] (\<lambda>w. w\<lparr>wlifetime := wlifetime w + 1\<rparr>)"
  by (auto simp: IncrementWorkerLifetimeSessions_def update_worker_Inr split: option.splits if_splits)

lemma increment_Inl:
  "IncrementWorkerLifetimeSessions i now d = Inl e \<Longrightarrow> e = ErrNoRows \<or> (\<exists>c. e = Cause c)"
  by (auto simp: IncrementWorkerLifetimeSessions_def update_worker_Inl split: option.splits if_splits)

lemma claim_write_Inr:
  assumes "claim_write opts req new_id worker t w = (Inr (s, t'), w')"
  shows "disturbed w w'" and "s = claimed_row (insert_params opts req new_id worker) (tx_now t)"
    and "tx_effect t' = claim_effect worker s \<circ> tx_effect t"
proof -
  obtain t1 w1 where
    i: "tx_exec (InsertClaimedSession (insert_params opts req new_id worker)) t w = (Inr (s, t1), w1)"
    and n: "\<exists>x. tx_exec (IncrementWorkerLifetimeSessions (wid worker)) t1 w1 = (Inr (x, t'), w')"
    using assms by (auto simp: claim_write_def monad_simps)
  from tx_exec_Inr [OF i] have t1: "s = claimed_row (insert_params opts req new_id worker) (tx_now t)"
      "t1 = t\<lparr>tx_effect := insert_session s \<circ> tx_effect t\<rparr>" "disturbed w w1"
    by (auto dest: insert_claimed_Inr)
  from n have t': "t' = t1\<lparr>tx_effect :=
        set_workers [wid worker] (\<lambda>w. w\<lparr>wlifetime := wlifetime w + 1\<rparr>) \<circ> tx_effect t1\<rparr>"
      "disturbed w1 w'"
    by (auto dest!: tx_exec_Inr increment_Inr)
  show "disturbed w w'" using t1(3) t'(2) by (blast intro: disturbed_trans)
  show "s = claimed_row (insert_params opts req new_id worker) (tx_now t)" by (rule t1(1))
  show "tx_effect t' = claim_effect worker s \<circ> tx_effect t"
    by (simp add: t'(1) t1(2) claim_effect_def comp_assoc)
qed

lemma claim_write_Inl:
  assumes "claim_write opts req new_id worker t w = (Inl e, w')"
  shows "disturbed w w'" and "\<not> errors_Is e ErrNoCapacity" and "\<not> errors_Is e ErrUncertainCommit"
proof -
  let ?i = "tx_exec (InsertClaimedSession (insert_params opts req new_id worker)) t w"
  from assms have *: "(\<exists>x. e = Wrap ''inserting claimed session'' x \<and> ?i = (Inl x, w'))
    \<or> (\<exists>s t1 w1 x. ?i = (Inr (s, t1), w1) \<and> e = Wrap ''incrementing worker lifetime sessions'' x
        \<and> tx_exec (IncrementWorkerLifetimeSessions (wid worker)) t1 w1 = (Inl x, w'))"
    by (auto simp: claim_write_def monad_simps)
  then show "disturbed w w'"
    by (meson disturbed_trans tx_exec_disturbed)
  from * show "\<not> errors_Is e ErrNoCapacity" and "\<not> errors_Is e ErrUncertainCommit"
    by (auto dest!: tx_exec_error insert_claimed_Inl increment_Inl)
qed

text \<open>What the body of the transaction can return.\<close>

lemma claim_body_Inr:
  assumes "claim_body opts req new_id excluded t w = (Inr (s, t'), w')" and "tx_effect t = id"
  shows "disturbed w w'"
    and "\<exists>worker. claim_made opts req new_id excluded worker s \<and> tx_effect t' = claim_effect worker s"
proof -
  obtain worker w1 n t1 w2 where
    sel: "claim_select (select_params opts req excluded) t w = (Inr worker, w1)"
    and cnt: "tx_exec (CountActiveSessionsByWorker (wid worker)) t w1 = (Inr (n, t1), w2)"
    and room: "n < wmax_slots worker"
    and wr: "claim_write opts req new_id worker t1 w2 = (Inr (s, t'), w')"
    using assms(1) by (auto simp: claim_body_def split: prod.splits sum.splits if_splits)
  from claim_select_Inr [OF sel] obtain held where
    s: "disturbed w w1" "SelectClaimableWorker (select_params opts req excluded) held (wdb w) (tx_now t) (wdb w1)
        = Inr (worker, id)" by blast
  from tx_exec_Inr [OF cnt] assms(2) have
    c: "n = count_active (wdb w2) (wid worker)" "t1 = t" "disturbed w1 w2"
    by (auto simp: CountActiveSessionsByWorker_def)
  show "disturbed w w'" using s(1) c(3) claim_write_Inr(1) [OF wr] by (blast intro: disturbed_trans)
  have "claim_made opts req new_id excluded worker s"
    unfolding claim_made_def using s(2) room c(1,2) claim_write_Inr(2) [OF wr] by blast
  then show "\<exists>worker. claim_made opts req new_id excluded worker s \<and> tx_effect t' = claim_effect worker s"
    using claim_write_Inr(3) [OF wr] c(2) assms(2) by auto
qed

lemma claim_body_Inl:
  assumes "claim_body opts req new_id excluded t w = (Inl (e, full), w')"
  shows "disturbed w w'" and "\<not> errors_Is e ErrUncertainCommit"
    and "full \<noteq> None \<Longrightarrow> errors_Is e ErrNoCapacity"
proof -
  have seln: "claim_select p t w = (Inl x, w1) \<Longrightarrow> disturbed w w1 \<and> \<not> errors_Is x ErrUncertainCommit"
    for p x w1 by (auto dest: claim_select_Inl)
  have cntn: "tx_exec (CountActiveSessionsByWorker i) t w1 = (Inl x, w2) \<Longrightarrow> \<not> errors_Is x ErrUncertainCommit"
    for i x w1 w2 by (auto dest!: tx_exec_error simp: CountActiveSessionsByWorker_def)
  consider (select) x where "claim_select (select_params opts req excluded) t w = (Inl x, w')"
    | (selected) worker w1 where
        "claim_select (select_params opts req excluded) t w = (Inr worker, w1)"
        "(\<exists>x. tx_exec (CountActiveSessionsByWorker (wid worker)) t w1 = (Inl x, w'))
         \<or> (\<exists>n t1. tx_exec (CountActiveSessionsByWorker (wid worker)) t w1 = (Inr (n, t1), w'))
         \<or> (\<exists>n t1 w2. tx_exec (CountActiveSessionsByWorker (wid worker)) t w1 = (Inr (n, t1), w2)
              \<and> claim_write opts req new_id worker t1 w2 = (Inl e, w'))"
    using assms by (auto simp: claim_body_def split: prod.splits sum.splits if_splits)
  then show "disturbed w w'"
    by cases (meson seln disturbed_trans tx_exec_disturbed claim_select_Inr(1) claim_write_Inl(1))+
  from assms show "\<not> errors_Is e ErrUncertainCommit" "full \<noteq> None \<Longrightarrow> errors_Is e ErrNoCapacity"
    by (auto simp: claim_body_def split: prod.splits sum.splits if_splits
        dest: seln cntn claim_write_Inl(3))
qed

section \<open>One claim\<close>

lemma claimOnce_Inr:
  assumes "claimOnce opts req new_id excluded w = (Inr s, w')"
  shows "claim_committed opts req new_id excluded w w' s"
proof -
  obtain t w1 t' w2 where
    b: "tx_begin w = (Inr t, w1)" and body: "claim_body opts req new_id excluded t w1 = (Inr (s, t'), w2)"
    and cm: "tx_commit t' w2 = (Inr (), w')"
    using assms by (auto simp: claimOnce_def Let_def split: prod.splits sum.splits)
  from b have t: "tx_effect t = id"
    by (auto simp: tx_begin_def Let_def split: prod.splits option.splits)
  obtain worker where m: "claim_made opts req new_id excluded worker s" "tx_effect t' = claim_effect worker s"
    using claim_body_Inr(2) [OF body t] by blast
  obtain w3 where "disturbed w2 w3" "w' = w3\<lparr>wdb := tx_effect t' (wdb w3)\<rparr>"
    using cm by (rule tx_commit_cases) auto
  with m tx_begin_disturbed [OF b] claim_body_Inr(1) [OF body t] show ?thesis
    unfolding claim_committed_def by (metis disturbed_trans)
qed

lemma claimOnce_Inl:
  assumes "claimOnce opts req new_id excluded w = (Inl (e, full), w')"
  shows "disturbed w w' \<or> (\<exists>s. claim_committed opts req new_id excluded w w' s)"
    and "\<not> errors_Is e ErrUncertainCommit \<Longrightarrow> disturbed w w'"
    and "errors_Is e ErrUncertainCommit \<Longrightarrow> \<not> errors_Is e ErrNoCapacity \<and> full = None"
    and "full \<noteq> None \<Longrightarrow> errors_Is e ErrNoCapacity"
proof -
  consider (nobegin) x where "tx_begin w = (Inl x, w')" "e = Wrap ''beginning session claim'' x" "full = None"
    | (body) t w1 x w2 where "tx_begin w = (Inr t, w1)"
        "claim_body opts req new_id excluded t w1 = (Inl (x, full), w2)" "rollback x w2 = (e, w')"
    | (commit) t w1 s t' w2 x where "tx_begin w = (Inr t, w1)"
        "claim_body opts req new_id excluded t w1 = (Inr (s, t'), w2)" "tx_commit t' w2 = (Inl x, w')"
        "e = Pair ErrUncertainCommit x" "full = None"
    using assms by (auto simp: claimOnce_def Let_def split: prod.splits sum.splits)
  then have "(disturbed w w' \<or> (\<exists>s. claim_committed opts req new_id excluded w w' s))
    \<and> (\<not> errors_Is e ErrUncertainCommit \<longrightarrow> disturbed w w')
    \<and> (errors_Is e ErrUncertainCommit \<longrightarrow> \<not> errors_Is e ErrNoCapacity \<and> full = None)
    \<and> (full \<noteq> None \<longrightarrow> errors_Is e ErrNoCapacity)"
  proof cases
    case nobegin
    then have "\<exists>c. x = Cause c"
      by (auto simp: tx_begin_def Let_def split: prod.splits option.splits)
    with nobegin show ?thesis by (auto dest: tx_begin_disturbed)
  next
    case body
    note b = claim_body_Inl [OF body(2)]
    have "disturbed w w'"
      using tx_begin_disturbed [OF body(1)] b(1) rollback_disturbed [OF body(3)]
      by (blast intro: disturbed_trans)
    moreover have "\<not> errors_Is e ErrUncertainCommit"
      using b(2) rollback_Is_own [OF body(3), of ErrUncertainCommit] by simp
    moreover have "full \<noteq> None \<longrightarrow> errors_Is e ErrNoCapacity"
      using b(3) rollback_Is [OF _ body(3)] by blast
    ultimately show ?thesis by blast
  next
    case commit
    from commit(1) have t: "tx_effect t = id"
      by (auto simp: tx_begin_def Let_def split: prod.splits option.splits)
    obtain worker where m: "claim_made opts req new_id excluded worker s"
        "tx_effect t' = claim_effect worker s"
      using claim_body_Inr(2) [OF commit(2) t] by blast
    have d: "disturbed w w2"
      using tx_begin_disturbed [OF commit(1)] claim_body_Inr(1) [OF commit(2) t] by (rule disturbed_trans [rotated])
    from commit(3) show ?thesis
    proof (cases rule: tx_commit_cases)
      case (lost w3 c)
      then have "claim_committed opts req new_id excluded w w' s"
        unfolding claim_committed_def using m d by (metis disturbed_trans)
      with lost commit show ?thesis by auto
    next
      case (failed c)
      with commit d show ?thesis by (auto intro: disturbed_trans)
    qed auto
  qed
  then show "disturbed w w' \<or> (\<exists>s. claim_committed opts req new_id excluded w w' s)"
    and "\<not> errors_Is e ErrUncertainCommit \<Longrightarrow> disturbed w w'"
    and "errors_Is e ErrUncertainCommit \<Longrightarrow> \<not> errors_Is e ErrNoCapacity \<and> full = None"
    and "full \<noteq> None \<Longrightarrow> errors_Is e ErrNoCapacity"
    by blast+
qed

end
