(* ===== verification/Admission.thy ===== *)
theory Admission
  imports Claim_Facts
begin

text \<open>
  The retry, the queue and their results: what \<open>Claim\<close> and \<open>Admit\<close> leave in the database whatever
  happens around them, the depth of the queue, when the loop returns, and the exact result of a
  claim in an undisturbed database.
\<close>

section \<open>At most one session per request\<close>

text \<open>The request committed exactly one claim between \<open>w\<close> and \<open>w'\<close>; the rest was others' doing.\<close>

definition one_claim ::
  "sched_options \<Rightarrow> claim_request \<Rightarrow> world \<Rightarrow> world \<Rightarrow> session \<Rightarrow> bool" where
  "one_claim opts req w w' s \<longleftrightarrow>
     (\<exists>v v' new_id excluded. disturbed w v \<and> claim_committed opts req new_id excluded v v' s \<and> disturbed v' w')"

lemma one_claim_pre: "disturbed w v \<Longrightarrow> one_claim opts req v w' s \<Longrightarrow> one_claim opts req w w' s"
  unfolding one_claim_def by (blast intro: disturbed_trans)

lemma one_claimI: "claim_committed opts req n ex w w' s \<Longrightarrow> one_claim opts req w w' s"
  unfolding one_claim_def by (blast intro: disturbed_refl)

text \<open>The shape every layer of the admission path has.\<close>

definition claims_once ::
  "sched_options \<Rightarrow> claim_request \<Rightarrow> world \<Rightarrow> world \<Rightarrow> (error + session) option \<Rightarrow> bool" where
  "claims_once opts req w w' out \<longleftrightarrow>
     (case out of
        None \<Rightarrow> disturbed w w'
      | Some (Inr s) \<Rightarrow> one_claim opts req w w' s
      | Some (Inl e) \<Rightarrow> disturbed w w'
          \<or> (errors_Is e ErrUncertainCommit \<and> (\<exists>s. one_claim opts req w w' s)))"

lemma claims_once_pre:
  "disturbed w v \<Longrightarrow> claims_once opts req v w' out \<Longrightarrow> claims_once opts req w w' out"
  unfolding claims_once_def
  by (auto split: option.splits sum.splits intro: disturbed_trans one_claim_pre)

lemma claimOnce_once:
  "claimOnce opts req n ex w = (Inr s, w') \<Longrightarrow> claims_once opts req w w' (Some (Inr s))"
  "claimOnce opts req n ex w = (Inl (e, full), w') \<Longrightarrow> claims_once opts req w w' (Some (Inl e))"
proof -
  show "claimOnce opts req n ex w = (Inr s, w') \<Longrightarrow> claims_once opts req w w' (Some (Inr s))"
    by (auto simp: claims_once_def dest: claimOnce_Inr intro: one_claimI)
  assume c: "claimOnce opts req n ex w = (Inl (e, full), w')"
  from claimOnce_Inl(1,2) [OF c] show "claims_once opts req w w' (Some (Inl e))"
    by (auto simp: claims_once_def intro: one_claimI)
qed

lemma claimOnce_no_commit:
  assumes "claimOnce opts req n ex w = (Inl (e, full), w')"
  shows "errors_Is e ErrNoCapacity \<Longrightarrow> disturbed w w'"
    and "\<not> errors_Is e ErrUncertainCommit \<Longrightarrow> disturbed w w'"
  using claimOnce_Inl [OF assms] by blast+

lemma claim_attempts_once:
  "claim_attempts opts req env left ex w = (r, w') \<Longrightarrow> claims_once opts req w w' (Some r)"
proof (induction left arbitrary: ex w)
  case 0
  then show ?case by (auto simp: claims_once_def disturbed_refl)
next
  case (Suc left)
  let ?k = "maxClaimAttempts - Suc left"
  obtain o' w1 where c: "claimOnce opts req (ce_id env ?k) ex w = (o', w1)" by fastforce
  show ?case
  proof (cases o')
    case (Inr s)
    with Suc.prems c show ?thesis by (auto simp: Let_def dest: claimOnce_once)
  next
    case (Inl ef)
    obtain e full where ef: "ef = (e, full)" by fastforce
    note c' = c [unfolded Inl ef]
    show ?thesis
    proof (cases "errors_Is e ErrNoCapacity")
      case False
      with Suc.prems c' show ?thesis by (auto simp: Let_def dest: claimOnce_once)
    next
      case True
      then have d: "disturbed w w1" using claimOnce_no_commit(1) [OF c'] by blast
      have stop: "claims_once opts req w w1 (Some (Inl x))" for x
        using d by (simp add: claims_once_def)
      have more: "claim_attempts opts req env left ex' w1 = (r, w') \<Longrightarrow> claims_once opts req w w' (Some r)" for ex'
        by (rule claims_once_pre [OF d]) (rule Suc.IH)
      from Suc.prems c' True
      have "(\<exists>x. r = Inl x \<and> w' = w1) \<or> (\<exists>ex'. claim_attempts opts req env left ex' w1 = (r, w'))"
        by (auto simp: Let_def split: option.splits if_splits)
      then show ?thesis using stop more by blast
    qed
  qed
qed

lemma claim_attempts_no_capacity:
  "claim_attempts opts req env left ex w = (Inl e, w') \<Longrightarrow> errors_Is e ErrNoCapacity \<Longrightarrow> disturbed w w'"
proof (induction left arbitrary: ex w)
  case 0
  then show ?case by (simp add: disturbed_refl)
next
  case (Suc left)
  let ?k = "maxClaimAttempts - Suc left"
  obtain o' w1 where c: "claimOnce opts req (ce_id env ?k) ex w = (o', w1)" by fastforce
  show ?case
  proof (cases o')
    case (Inr s)
    with Suc.prems c show ?thesis by (simp add: Let_def)
  next
    case (Inl ef)
    obtain x full where ef: "ef = (x, full)" by fastforce
    note c' = c [unfolded Inl ef]
    have d: "errors_Is x ErrNoCapacity \<Longrightarrow> disturbed w w1"
      using claimOnce_no_commit(1) [OF c'] .
    have more: "disturbed w w1 \<Longrightarrow> claim_attempts opts req env left ex' w1 = (Inl e, w') \<Longrightarrow> disturbed w w'" for ex'
      using Suc.IH Suc.prems(2) by (blast intro: disturbed_trans)
    from Suc.prems c'
    have "(errors_Is x ErrNoCapacity \<and> w' = w1) \<or> (x = e \<and> w' = w1)
      \<or> (errors_Is x ErrNoCapacity \<and> (\<exists>ex'. claim_attempts opts req env left ex' w1 = (Inl e, w')))"
      by (auto simp: Let_def split: option.splits if_splits)
    then show ?thesis using d more Suc.prems(2) by blast
  qed
qed

lemma Claim_once: "Claim opts req env w = (r, w') \<Longrightarrow> claims_once opts req w w' (Some r)"
  unfolding Claim_def by (rule claim_attempts_once)

lemma admit_loop_once:
  "admit_loop opts req rs ex w = (out, w') \<Longrightarrow> claims_once opts req w w' out"
proof (induction rs arbitrary: ex w)
  case Nil
  then show ?case by (simp add: claims_once_def disturbed_refl)
next
  case (Cons r rs)
  obtain o' w1 where c: "claimOnce opts req (rd_id r) ex w = (o', w1)" by fastforce
  have quit: "claims_once opts req w w (Some (Inl x))" for x
    by (simp add: claims_once_def disturbed_refl)
  show ?case
  proof (cases o')
    case (Inr s)
    with Cons.prems c quit show ?thesis
      by (auto split: option.splits dest: claimOnce_once)
  next
    case (Inl ef)
    obtain e full where ef: "ef = (e, full)" by fastforce
    note c' = c [unfolded Inl ef]
    show ?thesis
    proof (cases "errors_Is e ErrUncertainCommit")
      case True
      with Cons.prems c' quit claimOnce_once(2) [OF c'] claimOnce_Inl(3) [OF c'] show ?thesis
        by (auto split: option.splits)
    next
      case False
      then have d: "disturbed w w1" using claimOnce_no_commit(2) [OF c'] by blast
      have stop: "claims_once opts req w w1 (Some (Inl x))" for x
        using d by (simp add: claims_once_def)
      have more: "admit_loop opts req rs ex' w1 = (out, w') \<Longrightarrow> claims_once opts req w w' out" for ex'
        by (rule claims_once_pre [OF d]) (rule Cons.IH)
      from Cons.prems c' False
      have "(\<exists>x. out = Some (Inl x) \<and> (w' = w \<or> w' = w1)) \<or> (\<exists>ex'. admit_loop opts req rs ex' w1 = (out, w'))"
        by (auto split: option.splits if_splits select_case.splits)
      then show ?thesis using quit stop more by blast
    qed
  qed
qed

lemma Admit_once:
  assumes "Admit opts req env q w = (out, q', w')"
  shows "claims_once opts req w w' out"
proof (cases "ae_draining_first env")
  case True
  with assms show ?thesis by (auto simp: Admit_def claims_once_def disturbed_refl)
next
  case False
  obtain r w1 where c: "Claim opts req (ae_claim env) w = (r, w1)" by fastforce
  note once = Claim_once [OF c]
  have d: "disturbed w w1" if "r = Inl e" "errors_Is e ErrNoCapacity" for e
    using c that unfolding Claim_def by (auto dest: claim_attempts_no_capacity)
  from assms False c
  have "(out = Some r \<and> w' = w1)
    \<or> (\<exists>e x. r = Inl e \<and> errors_Is e ErrNoCapacity \<and> out = Some (Inl x) \<and> w' = w1)
    \<or> (\<exists>e. r = Inl e \<and> errors_Is e ErrNoCapacity \<and> admit_loop opts req (ae_rounds env) [] w1 = (out, w'))"
    by (auto simp: Admit_def split: option.splits if_splits prod.splits sum.splits)
  then consider (claim) "out = Some r" "w' = w1"
    | (refused) x where "disturbed w w1" "out = Some (Inl x)" "w' = w1"
    | (queued) "disturbed w w1" "admit_loop opts req (ae_rounds env) [] w1 = (out, w')"
    using d by blast
  then show ?thesis
  proof cases
    case claim
    with once show ?thesis by simp
  next
    case refused
    then show ?thesis by (simp add: claims_once_def)
  next
    case queued
    then show ?thesis by (blast intro: claims_once_pre admit_loop_once)
  qed
qed

section \<open>The queue's depth and the end of the wait\<close>

lemma Admit_depth:
  "Admit opts req env q w = (out, q', w') \<Longrightarrow>
    (case out of Some _ \<Rightarrow> q' = q | None \<Rightarrow> q' = q + 1 \<and> q < so_max_queue opts)"
  by (auto simp: Admit_def enterQueue_def leaveQueue_def split: option.splits if_splits prod.splits sum.splits)

text \<open>An iteration whose top sees an ended context, a drain or a passed deadline ends the loop.\<close>

lemma admit_loop_returns:
  "r \<in> set rs \<Longrightarrow> queueWaitError (rd_top r) \<noteq> None \<Longrightarrow> fst (admit_loop opts req rs ex w) \<noteq> None"
proof (induction rs arbitrary: ex w)
  case Nil
  then show ?case by simp
next
  case (Cons x rs)
  show ?case
  proof (cases "x = r")
    case True
    with Cons.prems show ?thesis by (auto split: option.splits)
  next
    case False
    with Cons.prems have r: "r \<in> set rs" by simp
    show ?thesis
      using Cons.IH [OF r Cons.prems(2)]
      by (auto split: option.splits prod.splits sum.splits select_case.splits)
  qed
qed

text \<open>Each immediate retry excludes one more worker: a worker found full is not one already excluded.\<close>

lemma full_worker_fresh:
  assumes "claimOnce opts req n ex w = (Inl (e, Some i), w')"
  shows "i \<notin> set ex"
proof -
  obtain t w1 x w2 where "claim_body opts req n ex t w1 = (Inl (x, Some i), w2)"
    using assms by (auto simp: claimOnce_def Let_def split: prod.splits sum.splits)
  then obtain worker w3 where "claim_select (select_params opts req ex) t w1 = (Inr worker, w3)" "i = wid worker"
    by (auto simp: claim_body_def split: prod.splits sum.splits if_splits)
  then show ?thesis
    using select_Inr(4) by (fastforce dest: claim_select_Inr(2) simp: claimable_def select_params_def)
qed

section \<open>A claim in an undisturbed database\<close>

lemma select_quiet:
  assumes "distinct (map wid (workers d))"
  shows "SelectClaimableWorker p (\<lambda>_. False) d now d =
    (case claim_candidates p now d of [] \<Rightarrow> Inl ErrNoRows | w # _ \<Rightarrow> Inr (w, id))"
proof (cases "claim_candidates p now d")
  case Nil
  then show ?thesis by (simp add: SelectClaimableWorker_def)
next
  case (Cons w ws)
  then have "lockable p (\<lambda>_. False) d now d w"
    using lockable_quiet [OF assms] by (metis list.set_intros(1))
  moreover have "lookup_row wid (wid w) (workers d) = Some w"
    using assms Cons candidate_iff [of w p now d] by (auto intro: lookup_row_unique)
  ultimately show ?thesis by (simp add: SelectClaimableWorker_def Cons)
qed

definition insert_possible :: "claim_request \<Rightarrow> uuid \<Rightarrow> worker \<Rightarrow> database \<Rightarrow> bool" where
  "insert_possible req new_id worker d \<longleftrightarrow>
     new_id \<notin> set (map sid (sessions d))
     \<and> (case cq_key req of None \<Rightarrow> True | Some k \<Rightarrow> k \<in> set (map kid (api_keys d)))
     \<and> wlifetime worker + 1 < 2 ^ 63"

lemma claimOnce_calm:
  assumes "schema_ok d"
    and "\<And>worker. worker \<in> set (workers d) \<Longrightarrow> insert_possible req n worker d"
  shows "claimOnce opts req n ex (calm d t) =
    (case claim_candidates (select_params opts req ex) t d of
       [] \<Rightarrow> (Inl (ErrNoCapacity, None), calm d t)
     | worker # _ \<Rightarrow>
         (let s = claimed_row (insert_params opts req n worker) t
          in (Inr s, calm (claim_effect worker s d) t)))"
proof (cases "claim_candidates (select_params opts req ex) t d")
  case Nil
  then show ?thesis
    using select_quiet [OF schema_okD(1) [OF assms(1)], of "select_params opts req ex" t]
    by (simp add: claimOnce_def claim_body_def claim_select_def rollback_def)
next
  case (Cons worker ws)
  let ?s = "claimed_row (insert_params opts req n worker) t"
  have cand: "worker \<in> set (workers d)" "claimable t (select_params opts req ex) (count_active d (wid worker)) worker"
    using candidate_iff [of worker "select_params opts req ex" t d] Cons by auto
  have look: "lookup_row wid (wid worker) (workers d) = Some worker"
    using assms(1) cand(1) by (auto intro: lookup_row_unique dest: schema_okD)
  have "session_check ?s"
    using assms(1) cand(1)
    by (auto simp: session_check_def claimed_row_def insert_params_def schema_ok_def list_all_iff worker_check_def)
  moreover have "insert_possible req n worker d" using assms(2) cand(1) .
  ultimately have ins: "InsertClaimedSession (insert_params opts req n worker) t d = Inr (?s, insert_session ?s)"
    by (auto simp: InsertClaimedSession_def Let_def claimed_row_def insert_params_def insert_possible_def
        split: option.splits)
  have inc: "IncrementWorkerLifetimeSessions (wid worker) t (insert_session ?s d)
      = Inr (worker\<lparr>wlifetime := wlifetime worker + 1\<rparr>,
             set_workers [wid worker] (\<lambda>w. w\<lparr>wlifetime := wlifetime w + 1\<rparr>))"
    using \<open>insert_possible req n worker d\<close> look
    by (simp add: IncrementWorkerLifetimeSessions_def update_worker_def insert_possible_def)
  have "count_active d (wid worker) < wmax_slots worker" using cand(2) by (simp add: claimable_def)
  then show ?thesis
    using select_quiet [OF schema_okD(1) [OF assms(1)], of "select_params opts req ex" t] Cons ins inc
    by (simp add: claimOnce_def claim_body_def claim_select_def claim_write_def Let_def
        CountActiveSessionsByWorker_def claim_effect_def comp_def)
qed

section \<open>Polling jitter\<close>

lemma jitter_bounds:
  assumes "0 < i" and "i < 2 ^ 61"
  shows "\<exists>r. jitteredPollingInterval i roll = Some r
    \<and> i * 4 div 5 \<le> r \<and> r \<le> i * 4 div 5 + i * 2 div 5"
proof -
  define m where "m = i * 2 div 5 + 1"
  define r where "r = roll mod m"
  have m: "0 < m" "wrap64 m = m" "m = i * 2 div 5 + 1"
    using assms by (auto simp: m_def intro!: wrap64_id)
  have w: "wrap64 (i * 2) = i * 2" "wrap64 (i * 4) = i * 4"
    using assms by (auto intro!: wrap64_id)
  have g: "go_div (i * 2) 5 = i * 2 div 5" "go_div (i * 4) 5 = i * 4 div 5"
    using assms by (auto intro: go_div_pos)
  have r: "0 \<le> r" "r < m"
    using m(1) by (auto simp: r_def)
  have s: "wrap64 (i * 4 div 5 + r) = i * 4 div 5 + r"
  proof (rule wrap64_id)
    have b: "0 \<le> i * 4 div 5" "i * 4 div 5 \<le> i * 4" "i * 2 div 5 \<le> i * 2"
      using assms by auto
    from b r show "- (2 ^ 63) \<le> i * 4 div 5 + r" by simp
    from b r m(3) assms(2) show "i * 4 div 5 + r < 2 ^ 63" by simp
  qed
  have "jitteredPollingInterval i roll = Some (i * 4 div 5 + r)"
    unfolding jitteredPollingInterval_def rand_Int64N_def Let_def w g m(3) [symmetric] m(2)
    using m(1) s by (simp add: r_def)
  then show ?thesis using r m(3) by auto
qed

end
