(* ===== verification/Claim_Protocol.thy ===== *)
theory Claim_Protocol
  imports Fleet Admission
begin

text \<open>
  Claims of several server processes against one database, statement by statement: each claim is
  a program counter of \<open>claimOnce\<close>, and between its statements any other claim and any other
  statement of the program (\<open>store_step\<close>) runs. What holds across every interleaving: a worker is
  never given more active sessions than it has slots, and a session is only ever committed on a
  worker that is still available and whose address, browser and version it carries.
\<close>

section \<open>Claims in flight\<close>

text \<open>
  The state of one call of \<open>claimOnce\<close>: the selection has its snapshot (\<open>Selecting\<close>), it has
  locked a worker row, it has recounted and found room, it has inserted its session (not yet
  visible to others), it has incremented the worker's counter.
\<close>

datatype claim_pc =
    Idle
  | Selecting claim_request uuid "uuid list" database int
  | Locked claim_request uuid int worker
  | Counted claim_request uuid int worker
  | Inserted int worker session
  | Incremented worker session

record fleet =
  fdb :: database
  claims :: "claim_pc list"

fun holding :: "claim_pc \<Rightarrow> worker option" where
  "holding (Locked req n now w) = Some w"
| "holding (Counted req n now w) = Some w"
| "holding (Inserted now w s) = Some w"
| "holding (Incremented w s) = Some w"
| "holding _ = None"

fun admitted :: "claim_pc \<Rightarrow> bool" where
  "admitted (Counted req n now w) = True"
| "admitted (Inserted now w s) = True"
| "admitted (Incremented w s) = True"
| "admitted _ = False"

fun unpublished :: "claim_pc \<Rightarrow> session option" where
  "unpublished (Inserted now w s) = Some s"
| "unpublished (Incremented w s) = Some s"
| "unpublished _ = None"

definition held :: "fleet \<Rightarrow> uuid \<Rightarrow> bool" where
  "held f i \<longleftrightarrow> list_ex (\<lambda>pc. map_option wid (holding pc) = Some i) (claims f)"

definition unpublished_ids :: "fleet \<Rightarrow> uuid list" where
  "unpublished_ids f = map sid (List.map_filter unpublished (claims f))"

definition set_claim :: "nat \<Rightarrow> claim_pc \<Rightarrow> fleet \<Rightarrow> fleet" where
  "set_claim c pc f = f\<lparr>claims := (claims f)[c := pc]\<rparr>"

section \<open>Steps\<close>

text \<open>
  One statement of one claim, or one statement of anything else. The unique index makes an insert
  fail on an identifier another open transaction has inserted. A claim can be abandoned at any
  point before its commit: its context ends, its connection breaks, its process dies. The selection
  skips the rows other transactions hold locked (\<open>L\<close>): those of the claims in flight, and maybe more,
  a heartbeat's that has not committed yet.
\<close>

inductive claim_step :: "sched_options \<Rightarrow> fleet \<Rightarrow> fleet \<Rightarrow> bool" for opts where
  cs_begin: "c < length (claims f) \<Longrightarrow> claims f ! c = Idle \<Longrightarrow>
    claim_step opts f (set_claim c (Selecting req n ex (fdb f) now) f)"
| cs_lock: "c < length (claims f) \<Longrightarrow> claims f ! c = Selecting req n ex snap now \<Longrightarrow>
    (\<And>i. held f i \<Longrightarrow> L i) \<Longrightarrow>
    SelectClaimableWorker (select_params opts req ex) L snap now (fdb f) = Inr (w, e) \<Longrightarrow>
    claim_step opts f (set_claim c (Locked req n now w) f)"
| cs_none: "c < length (claims f) \<Longrightarrow> claims f ! c = Selecting req n ex snap now \<Longrightarrow>
    (\<And>i. held f i \<Longrightarrow> L i) \<Longrightarrow>
    SelectClaimableWorker (select_params opts req ex) L snap now (fdb f) = Inl x \<Longrightarrow>
    claim_step opts f (set_claim c Idle f)"
| cs_room: "c < length (claims f) \<Longrightarrow> claims f ! c = Locked req n now w \<Longrightarrow>
    CountActiveSessionsByWorker (wid w) now (fdb f) = Inr (k, e) \<Longrightarrow> \<not> k \<ge> wmax_slots w \<Longrightarrow>
    claim_step opts f (set_claim c (Counted req n now w) f)"
| cs_full: "c < length (claims f) \<Longrightarrow> claims f ! c = Locked req n now w \<Longrightarrow>
    CountActiveSessionsByWorker (wid w) now (fdb f) = Inr (k, e) \<Longrightarrow> k \<ge> wmax_slots w \<Longrightarrow>
    claim_step opts f (set_claim c Idle f)"
| cs_insert: "c < length (claims f) \<Longrightarrow> claims f ! c = Counted req n now w \<Longrightarrow>
    InsertClaimedSession (insert_params opts req n w) now (fdb f) = Inr (s, e) \<Longrightarrow>
    sid s \<notin> set (unpublished_ids f) \<Longrightarrow>
    claim_step opts f (set_claim c (Inserted now w s) f)"
| cs_increment: "c < length (claims f) \<Longrightarrow> claims f ! c = Inserted now w s \<Longrightarrow>
    IncrementWorkerLifetimeSessions (wid w) now (insert_session s (fdb f)) = Inr (w', e) \<Longrightarrow>
    claim_step opts f (set_claim c (Incremented w s) f)"
| cs_commit: "c < length (claims f) \<Longrightarrow> claims f ! c = Incremented w s \<Longrightarrow>
    claim_step opts f (set_claim c Idle f\<lparr>fdb := claim_effect w s (fdb f)\<rparr>)"
| cs_abort: "c < length (claims f) \<Longrightarrow> claim_step opts f (set_claim c Idle f)"
| cs_other: "store_step (held f) (fdb f) d' \<Longrightarrow> claim_step opts f (f\<lparr>fdb := d'\<rparr>)"

section \<open>The invariant\<close>

text \<open>An active session carries the address, browser and version of a worker that exists.\<close>

definition routed :: "session \<Rightarrow> worker \<Rightarrow> bool" where
  "routed s w \<longleftrightarrow> sworker s = wid w \<and> saddress s = waddress w \<and> sbrowser s = wbrowser w
     \<and> sversion s = wversion w"

definition fleet_ok :: "database \<Rightarrow> bool" where
  "fleet_ok d \<longleftrightarrow> distinct (map wid (workers d)) \<and> distinct (map sid (sessions d))
     \<and> (\<forall>w \<in> set (workers d). count_active d (wid w) \<le> wmax_slots w)
     \<and> (\<forall>s \<in> set (sessions d). active s \<longrightarrow> (\<exists>w \<in> set (workers d). routed s w))"

definition pc_ok :: "database \<Rightarrow> claim_pc \<Rightarrow> bool" where
  "pc_ok d pc \<longleftrightarrow> (case holding pc of
       None \<Rightarrow> True
     | Some w \<Rightarrow> w \<in> set (workers d) \<and> wstatus w = Available
         \<and> (admitted pc \<longrightarrow> count_active d (wid w) < wmax_slots w)
         \<and> (case unpublished pc of
              None \<Rightarrow> True
            | Some s \<Rightarrow> routed s w \<and> sid s \<notin> sid ` set (sessions d)))"

definition exclusive :: "claim_pc list \<Rightarrow> bool" where
  "exclusive pcs \<longleftrightarrow> (\<forall>a < length pcs. \<forall>b < length pcs. a \<noteq> b \<longrightarrow>
     (\<forall>v w. holding (pcs ! a) = Some v \<longrightarrow> holding (pcs ! b) = Some w \<longrightarrow> wid v \<noteq> wid w)
     \<and> (\<forall>s t. unpublished (pcs ! a) = Some s \<longrightarrow> unpublished (pcs ! b) = Some t \<longrightarrow> sid s \<noteq> sid t))"

definition claim_inv :: "fleet \<Rightarrow> bool" where
  "claim_inv f \<longleftrightarrow> fleet_ok (fdb f) \<and> list_all (pc_ok (fdb f)) (claims f) \<and> exclusive (claims f)"

lemma set_claim_simps [simp]: "fdb (set_claim c pc f) = fdb f"
  "claims (set_claim c pc f) = (claims f)[c := pc]"
  by (simp_all add: set_claim_def)

lemma pc_ok_simps [simp]:
  "pc_ok d Idle" "pc_ok d (Selecting req n ex snap now)"
  "pc_ok d (Locked req n now w) \<longleftrightarrow> w \<in> set (workers d) \<and> wstatus w = Available"
  "pc_ok d (Counted req n now w) \<longleftrightarrow> w \<in> set (workers d) \<and> wstatus w = Available
     \<and> count_active d (wid w) < wmax_slots w"
  "pc_ok d (Inserted now w s) \<longleftrightarrow> w \<in> set (workers d) \<and> wstatus w = Available
     \<and> count_active d (wid w) < wmax_slots w \<and> routed s w \<and> sid s \<notin> sid ` set (sessions d)"
  "pc_ok d (Incremented w s) \<longleftrightarrow> w \<in> set (workers d) \<and> wstatus w = Available
     \<and> count_active d (wid w) < wmax_slots w \<and> routed s w \<and> sid s \<notin> sid ` set (sessions d)"
  by (simp_all add: pc_ok_def)

lemma heldI: "c < length (claims f) \<Longrightarrow> holding (claims f ! c) = Some w \<Longrightarrow> held f (wid w)"
  unfolding held_def list_ex_iff using nth_mem by fastforce

lemma unpublished_idsI:
  "c < length (claims f) \<Longrightarrow> unpublished (claims f ! c) = Some s \<Longrightarrow> sid s \<in> set (unpublished_ids f)"
  unfolding unpublished_ids_def by (auto simp: map_filter_def intro!: image_eqI [of _ _ "claims f ! c"])

text \<open>A claim's own step: the database stays, its program counter moves.\<close>

lemma exclusive_update:
  assumes "exclusive (claims f)"
    and "\<And>w. holding pc = Some w \<Longrightarrow> holding (claims f ! c) = Some w \<or> \<not> held f (wid w)"
    and "\<And>s. unpublished pc = Some s \<Longrightarrow>
      unpublished (claims f ! c) = Some s \<or> sid s \<notin> set (unpublished_ids f)"
    and "c < length (claims f)"
  shows "exclusive ((claims f)[c := pc])"
  using assms unfolding exclusive_def
  by (auto simp: nth_list_update dest: heldI unpublished_idsI) (metis heldI unpublished_idsI)+

lemma claim_inv_own:
  assumes "claim_inv f" and "c < length (claims f)" and "pc_ok (fdb f) pc"
    and "\<And>w. holding pc = Some w \<Longrightarrow> holding (claims f ! c) = Some w \<or> \<not> held f (wid w)"
    and "\<And>s. unpublished pc = Some s \<Longrightarrow>
      unpublished (claims f ! c) = Some s \<or> sid s \<notin> set (unpublished_ids f)"
  shows "claim_inv (set_claim c pc f)"
  using assms exclusive_update [of f pc c] set_update_subset_insert [of "claims f" c pc]
  by (auto simp: claim_inv_def list_all_iff)

section \<open>Every step keeps the invariant\<close>

lemma no_worker_no_active:
  "fleet_ok d \<Longrightarrow> i \<notin> wid ` set (workers d) \<Longrightarrow> count_active d i = 0"
  by (fastforce simp: fleet_ok_def count_active_def filter_empty_conv routed_def)

lemma active_counted: "s \<in> set (sessions d) \<Longrightarrow> active s \<Longrightarrow> 0 < count_active d (sworker s)"
  by (auto simp: count_active_def filter_empty_conv)

lemma routed_moves: "session_moves s s' \<Longrightarrow> worker_moves w w' \<Longrightarrow> routed s w \<Longrightarrow> routed s' w'"
  by (simp add: routed_def session_moves_def same_session_def worker_moves_def same_worker_def)

lemma sessions_move_back:
  "sessions_move d d' \<Longrightarrow> t \<in> set (sessions d') \<Longrightarrow> \<exists>s \<in> set (sessions d). session_moves s t"
  unfolding sessions_move_def by fastforce

lemma store_step_fleet_ok:
  assumes "store_step L d d'" and ok: "fleet_ok d"
  shows "fleet_ok d'"
proof -
  from ok have dw: "distinct (map wid (workers d))" and ds: "distinct (map sid (sessions d))"
    by (auto simp: fleet_ok_def)
  note we = store_step_workers [OF assms(1) dw]
  note sm = store_step_sessions [OF assms(1) ds]
  note cnt = store_step_count [OF assms(1) ds]
  have "distinct (map wid (workers d'))" using we dw by (simp add: workers_evolve_def)
  moreover have "distinct (map sid (sessions d'))"
    using ds sessions_move_ids [OF sm] by simp
  moreover have "count_active d' (wid v) \<le> wmax_slots v" if v: "v \<in> set (workers d')" for v
  proof -
    from we v consider w where "w \<in> set (workers d)" "worker_moves w v"
      | "wid v \<notin> wid ` set (workers d)" "0 < wmax_slots v"
      unfolding workers_evolve_def by blast
    then show ?thesis
    proof cases
      case 1
      then have "count_active d (wid w) \<le> wmax_slots w" "wid v = wid w" "wmax_slots v = wmax_slots w"
        using ok by (auto simp: fleet_ok_def worker_moves_def same_worker_def)
      with cnt [of "wid v"] show ?thesis by simp
    next
      case 2
      with cnt [of "wid v"] no_worker_no_active [OF ok] show ?thesis by force
    qed
  qed
  moreover have "\<exists>v \<in> set (workers d'). routed t v" if t: "t \<in> set (sessions d')" "active t" for t
  proof -
    obtain s where s: "s \<in> set (sessions d)" "session_moves s t"
      using sessions_move_back [OF sm t(1)] by blast
    with t(2) have act: "active s" by (blast intro: session_moves_active)
    with ok s(1) obtain w where w: "w \<in> set (workers d)" "routed s w"
      by (auto simp: fleet_ok_def)
    have "count_active d (wid w) \<noteq> 0"
      using active_counted [OF s(1) act] w(2) by (simp add: routed_def)
    with we w(1) obtain v where "v \<in> set (workers d')" "worker_moves w v"
      unfolding workers_evolve_def by blast
    with s(2) w(2) show ?thesis by (blast intro: routed_moves)
  qed
  ultimately show ?thesis by (simp add: fleet_ok_def)
qed

lemma store_step_pc_ok:
  assumes "store_step L d d'" and "fleet_ok d" and "pc_ok d pc"
    and "\<And>w. holding pc = Some w \<Longrightarrow> L (wid w)"
  shows "pc_ok d' pc"
proof -
  from assms(2) have dw: "distinct (map wid (workers d))" and ds: "distinct (map sid (sessions d))"
    by (auto simp: fleet_ok_def)
  have "w \<in> set (workers d')" if "w \<in> set (workers d)" "L (wid w)" for w
    using store_step_workers [OF assms(1) dw] that by (simp add: workers_evolve_def)
  moreover have "sid ` set (sessions d') = sid ` set (sessions d)"
    using store_step_sids [OF assms(1) ds] by (metis set_map)
  moreover have "count_active d' i < k" if "count_active d i < k" for i k
    using store_step_count [OF assms(1) ds, of i] that by simp
  ultimately show ?thesis
    using assms(3,4) by (cases pc) auto
qed

lemma claim_effect_simps:
  "workers (claim_effect w s d) = update_where (\<lambda>v. wid v = wid w) (\<lambda>v. v\<lparr>wlifetime := wlifetime v + 1\<rparr>) (workers d)"
  "sessions (claim_effect w s d) = sessions d @ [s]"
  by (simp_all add: claim_effect_def effect_targets)

lemma claim_effect_count:
  "count_active (claim_effect w s d) i = count_active d i + (if sworker s = i \<and> active s then 1 else 0)"
  by (simp add: count_active_def claim_effect_simps)

lemma claim_effect_fleet_ok:
  assumes "fleet_ok d" and "pc_ok d (Incremented w s)"
  shows "fleet_ok (claim_effect w s d)"
proof -
  let ?up = "\<lambda>v. if wid v = wid w then v\<lparr>wlifetime := wlifetime v + 1\<rparr> else v"
  from assms(2) have w: "w \<in> set (workers d)" "count_active d (wid w) < wmax_slots w" "routed s w"
    "sid s \<notin> sid ` set (sessions d)" by auto
  have uniq: "v = w" if "v \<in> set (workers d)" "wid v = wid w" for v
    using assms(1) w(1) that by (auto simp: fleet_ok_def distinct_map inj_on_def)
  have ids: "map wid (workers (claim_effect w s d)) = map wid (workers d)"
    by (simp add: claim_effect_simps map_update_where)
  have ws: "set (workers (claim_effect w s d)) = ?up ` set (workers d)"
    by (simp add: claim_effect_simps set_update_where)
  have room: "count_active (claim_effect w s d) (wid v) \<le> wmax_slots v" if "v \<in> set (workers d)" for v
  proof -
    have "count_active d (wid v) \<le> wmax_slots v" using assms(1) that by (simp add: fleet_ok_def)
    moreover have "sworker s = wid v \<Longrightarrow> count_active d (wid v) < wmax_slots v"
      using uniq [OF that] w(2,3) by (simp add: routed_def)
    ultimately show ?thesis by (auto simp: claim_effect_count)
  qed
  have "count_active (claim_effect w s d) (wid v) \<le> wmax_slots v"
    if "v \<in> set (workers (claim_effect w s d))" for v
  proof -
    from that obtain u where "u \<in> set (workers d)" "v = ?up u" unfolding ws by blast
    with room [of u] show ?thesis by (auto split: if_splits)
  qed
  moreover have "\<exists>v \<in> set (workers (claim_effect w s d)). routed t v"
    if t: "t \<in> set (sessions (claim_effect w s d))" "active t" for t
  proof -
    have "\<exists>v \<in> set (workers d). routed t v"
    proof (cases "t = s")
      case True
      with w(1,3) show ?thesis by blast
    next
      case False
      with t assms(1) show ?thesis by (simp add: claim_effect_simps fleet_ok_def)
    qed
    moreover have "routed t (?up v) = routed t v" for v by (simp add: routed_def)
    ultimately show ?thesis unfolding ws by blast
  qed
  moreover have "distinct (map sid (sessions (claim_effect w s d)))"
    using assms(1) w(4) by (simp add: fleet_ok_def claim_effect_simps(2))
  moreover have "distinct (map wid (workers (claim_effect w s d)))"
    using assms(1) by (simp add: fleet_ok_def ids)
  ultimately show ?thesis
    unfolding fleet_ok_def by blast
qed

lemma claim_effect_pc_ok:
  assumes "pc_ok d pc" and "\<And>v. holding pc = Some v \<Longrightarrow> wid v \<noteq> wid w" and "routed s w"
    and "\<And>t. unpublished pc = Some t \<Longrightarrow> sid t \<noteq> sid s"
  shows "pc_ok (claim_effect w s d) pc"
proof -
  have "v \<in> set (workers (claim_effect w s d))" if "v \<in> set (workers d)" "wid v \<noteq> wid w" for v
    using that by (force simp: claim_effect_simps set_update_where)
  with assms show ?thesis
    by (cases pc) (auto simp: claim_effect_count claim_effect_simps(2) routed_def)
qed

lemma select_available:
  "SelectClaimableWorker p h snap now cur = Inr (w, e) \<Longrightarrow>
    w \<in> set (workers cur) \<and> \<not> h (wid w) \<and> wstatus w = Available"
  using select_Inr(2,3,4) by (fastforce simp: claimable_def)

lemma inserted_ok:
  "InsertClaimedSession (insert_params opts req n w) now d = Inr (s, e) \<Longrightarrow>
    routed s w \<and> sid s \<notin> sid ` set (sessions d)"
  by (auto simp: InsertClaimedSession_def Let_def claimed_row_def insert_params_def routed_def
      split: if_splits)

lemma claim_inv_nth: "claim_inv f \<Longrightarrow> c < length (claims f) \<Longrightarrow> pc_ok (fdb f) (claims f ! c)"
  by (simp add: claim_inv_def list_all_length)

lemma claim_inv_commit:
  assumes "claim_inv f" and "c < length (claims f)" and "claims f ! c = Incremented w s"
  shows "claim_inv (set_claim c Idle f\<lparr>fdb := claim_effect w s (fdb f)\<rparr>)"
proof -
  have ok: "pc_ok (fdb f) (Incremented w s)" using claim_inv_nth [OF assms(1,2)] assms(3) by simp
  have "pc_ok (claim_effect w s (fdb f)) ((claims f)[c := Idle] ! a)" if "a < length (claims f)" for a
  proof (cases "a = c")
    case True
    with that show ?thesis by simp
  next
    case False
    have "pc_ok (claim_effect w s (fdb f)) (claims f ! a)"
    proof (rule claim_effect_pc_ok)
      show "pc_ok (fdb f) (claims f ! a)" using assms(1) that by (rule claim_inv_nth)
      show "routed s w" using ok by simp
    qed (use assms that False in \<open>auto simp: claim_inv_def exclusive_def\<close>)
    with False show ?thesis by simp
  qed
  moreover have "exclusive ((claims f)[c := Idle])"
    using assms by (intro exclusive_update) (auto simp: claim_inv_def)
  ultimately show ?thesis
    using assms(1) ok by (simp add: claim_inv_def list_all_length claim_effect_fleet_ok)
qed

lemma claim_step_inv:
  assumes "claim_inv f" and "claim_step opts f f'"
  shows "claim_inv f'"
  using assms(2)
proof (cases rule: claim_step.cases)
  case (cs_commit c w s)
  with assms(1) show ?thesis by (simp add: claim_inv_commit)
next
  case (cs_other d')
  from assms(1) have ok: "fleet_ok (fdb f)" by (simp add: claim_inv_def)
  have "pc_ok d' (claims f ! c)" if "c < length (claims f)" for c
    using cs_other(2) ok claim_inv_nth [OF assms(1) that] heldI [OF that] by (rule store_step_pc_ok)
  with assms(1) store_step_fleet_ok [OF cs_other(2) ok] show ?thesis
    unfolding cs_other(1) by (simp add: claim_inv_def list_all_length)
next
  case (cs_begin c req n ex now)
  show ?thesis unfolding cs_begin(1) by (rule claim_inv_own [OF assms(1) cs_begin(2)]) simp_all
next
  case (cs_lock c req n ex snap now L w e)
  note sel = select_available [OF cs_lock(5)] cs_lock(4) [of "wid w"]
  show ?thesis
    unfolding cs_lock(1) by (rule claim_inv_own [OF assms(1) cs_lock(2)]) (use sel in auto)
next
  case (cs_none c req n ex snap now L x)
  show ?thesis unfolding cs_none(1) by (rule claim_inv_own [OF assms(1) cs_none(2)]) simp_all
next
  case (cs_room c req n now w k e)
  note ok = claim_inv_nth [OF assms(1) cs_room(2)]
  show ?thesis
    unfolding cs_room(1)
    by (rule claim_inv_own [OF assms(1) cs_room(2)])
      (use ok cs_room in \<open>auto simp: CountActiveSessionsByWorker_def\<close>)
next
  case (cs_full c req n now w k e)
  show ?thesis unfolding cs_full(1) by (rule claim_inv_own [OF assms(1) cs_full(2)]) simp_all
next
  case (cs_insert c req n now w s e)
  note ok = claim_inv_nth [OF assms(1) cs_insert(2)]
  show ?thesis
    unfolding cs_insert(1)
    by (rule claim_inv_own [OF assms(1) cs_insert(2)])
      (use ok cs_insert(3,5) inserted_ok [OF cs_insert(4)] in auto)
next
  case (cs_increment c now w s w' e)
  note ok = claim_inv_nth [OF assms(1) cs_increment(2)]
  show ?thesis
    unfolding cs_increment(1)
    by (rule claim_inv_own [OF assms(1) cs_increment(2)]) (use ok cs_increment(3) in auto)
next
  case (cs_abort c)
  show ?thesis unfolding cs_abort(1) by (rule claim_inv_own [OF assms(1) cs_abort(2)]) simp_all
qed

interpretation claiming: invariant_system "claim_step opts" claim_inv
  by unfold_locales (rule claim_step_inv)

lemma start_inv: "claim_inv \<lparr>fdb = d, claims = replicate n Idle\<rparr> \<longleftrightarrow> fleet_ok d"
  by (auto simp: claim_inv_def exclusive_def list_all_iff)

section \<open>The history of a session\<close>

text \<open>
  Between two states of a run every session row survives, keeps what it was created with, moves
  along \<open>session_next\<close>, and is frozen once terminal.
\<close>

definition session_history :: "database \<Rightarrow> database \<Rightarrow> bool" where
  "session_history d d' \<longleftrightarrow> (\<forall>i s. lookup_row sid i (sessions d) = Some s \<longrightarrow>
     (\<exists>t. lookup_row sid i (sessions d') = Some t \<and> same_session s t
        \<and> session_next\<^sup>*\<^sup>* (sstatus s) (sstatus t) \<and> (terminal (sstatus s) \<longrightarrow> t = s)))"

lemma session_history_refl: "session_history d d"
  by (auto simp: session_history_def same_session_def)

lemma session_history_trans:
  assumes "session_history a b" and "session_history b c"
  shows "session_history a c"
  unfolding session_history_def
proof (intro allI impI)
  fix i s assume "lookup_row sid i (sessions a) = Some s"
  with assms(1) obtain t where t: "lookup_row sid i (sessions b) = Some t" "same_session s t"
      "session_next\<^sup>*\<^sup>* (sstatus s) (sstatus t)" "terminal (sstatus s) \<longrightarrow> t = s"
    unfolding session_history_def by blast
  with assms(2) obtain u where u: "lookup_row sid i (sessions c) = Some u" "same_session t u"
      "session_next\<^sup>*\<^sup>* (sstatus t) (sstatus u)" "terminal (sstatus t) \<longrightarrow> u = t"
    unfolding session_history_def by blast
  have "same_session s u" using t(2) u(2) by (simp add: same_session_def)
  moreover have "session_next\<^sup>*\<^sup>* (sstatus s) (sstatus u)" using t(3) u(3) by (rule rtranclp_trans)
  ultimately show "\<exists>u. lookup_row sid i (sessions c) = Some u \<and> same_session s u
      \<and> session_next\<^sup>*\<^sup>* (sstatus s) (sstatus u) \<and> (terminal (sstatus s) \<longrightarrow> u = s)"
    using t(4) u(1,4) by auto
qed

lemma sessions_move_history: "sessions_move d d' \<Longrightarrow> session_history d d'"
  unfolding session_history_def
  by (fastforce dest: sessions_move_lookup simp: session_moves_def)

lemma claim_effect_history: "session_history d (claim_effect w s d)"
  using session_history_refl [of d]
  by (auto simp: session_history_def claim_effect_simps lookup_row_append)

lemma claim_step_history:
  assumes "claim_inv f" and "claim_step opts f f'"
  shows "session_history (fdb f) (fdb f')"
  using assms(2)
proof (cases rule: claim_step.cases)
  case (cs_other d')
  with assms(1) show ?thesis
    by (auto simp: claim_inv_def fleet_ok_def intro: sessions_move_history store_step_sessions)
qed (simp_all add: session_history_refl claim_effect_history)

interpretation histories: monotone_system "claim_step opts" claim_inv
  "\<lambda>f f'. session_history (fdb f) (fdb f')"
  by unfold_locales (auto intro: session_history_refl session_history_trans claim_step_history)

end
