(* ===== verification/Claim_Run.thy ===== *)
theory Claim_Run
  imports Claim_Protocol
begin

text \<open>
  The admission path of the code (\<open>claimOnce\<close>, \<open>Claim\<close>, \<open>Admit\<close>) is a run of the claim protocol among
  rival claims. What the surroundings of a round trip may do is not restricted to a fixed kind of
  statement: before each round trip the rivals and all other statements of the program make any steps
  of the protocol that are open to them while this claim is where it is, so what it has locked they
  leave alone. The trace of a call says where it is before each of its round trips; \<open>company\<close> says that
  what happens before them are such steps.
\<close>

section \<open>Company\<close>

text \<open>
  What PostgreSQL adds to the rivals' steps: the selection finds their rows locked, and an identifier
  a claim is about to insert is not the one a rival has inserted and not committed (its identifiers are
  random).
\<close>

fun meets :: "claim_pc list \<Rightarrow> beat \<Rightarrow> claim_pc list \<Rightarrow> bool" where
  "meets [Selecting req n ex snap now] b rivals \<longleftrightarrow>
     (\<forall>pc \<in> set rivals. \<forall>w. holding pc = Some w \<longrightarrow> wid w \<in> set (locked b))"
| "meets [Counted req n now w] b rivals \<longleftrightarrow>
     (\<forall>pc \<in> set rivals. \<forall>s. unpublished pc = Some s \<longrightarrow> sid s \<noteq> n)"
| "meets _ b rivals \<longleftrightarrow> True"

inductive company :: "sched_options \<Rightarrow> claim_pc list \<Rightarrow> (claim_pc list \<times> world) list \<Rightarrow> claim_pc list \<Rightarrow> bool"
  for opts where
  company_done: "company opts rivals [] rivals"
| company_beat: "next_beat w = (b, w1) \<Longrightarrow>
    reaches (claim_step opts) \<lparr>fdb = wdb w, claims = own @ rivals\<rparr> \<lparr>fdb = wdb w1, claims = own @ rivals1\<rparr> \<Longrightarrow>
    meets own b rivals1 \<Longrightarrow> company opts rivals1 tr rivals2 \<Longrightarrow>
    company opts rivals ((own, w) # tr) rivals2"

inductive_cases company_NilE [elim!]: "company opts rivals [] rivals'"
inductive_cases company_ConsE: "company opts rivals ((own, w) # tr) rivals'"

lemma company_Nil [simp]: "company opts rivals [] rivals' \<longleftrightarrow> rivals' = rivals"
  by (auto intro: company_done)

lemma company_append:
  "company opts rivals (tr @ tr') rivals' \<longleftrightarrow> (\<exists>r1. company opts rivals tr r1 \<and> company opts r1 tr' rivals')"
proof (induction tr arbitrary: rivals)
  case Nil
  then show ?case by simp
next
  case (Cons x tr)
  obtain own w where "x = (own, w)" by fastforce
  with Cons show ?case by (auto elim!: company_ConsE intro: company_beat) (meson company_beat Cons.IH)+
qed

section \<open>The traces of the code\<close>

text \<open>Each function's trace follows its text: a round trip, and then what its outcome leads to.\<close>

definition write_trace ::
  "sched_options \<Rightarrow> claim_request \<Rightarrow> uuid \<Rightarrow> worker \<Rightarrow> tx \<Rightarrow> world \<Rightarrow> (claim_pc list \<times> world) list" where
  "write_trace opts req n worker t w =
    ([Counted req n (tx_now t) worker], w) #
    (case tx_exec (InsertClaimedSession (insert_params opts req n worker)) t w of
       (Inl e, w1) \<Rightarrow> [([Idle], w1)]
     | (Inr (s, t1), w1) \<Rightarrow>
         ([Inserted (tx_now t) worker s], w1) #
         (case tx_exec (IncrementWorkerLifetimeSessions (wid worker)) t1 w1 of
            (Inl e, w2) \<Rightarrow> [([Idle], w2)]
          | (Inr _, w2) \<Rightarrow> [([Incremented worker s], w2)]))"

definition body_trace ::
  "sched_options \<Rightarrow> claim_request \<Rightarrow> uuid \<Rightarrow> uuid list \<Rightarrow> tx \<Rightarrow> world \<Rightarrow> (claim_pc list \<times> world) list" where
  "body_trace opts req n ex t w =
    ([Selecting req n ex (wdb w) (tx_now t)], w) #
    (case claim_select (select_params opts req ex) t w of
       (Inl e, w1) \<Rightarrow> [([Idle], w1)]
     | (Inr worker, w1) \<Rightarrow>
         ([Locked req n (tx_now t) worker], w1) #
         (case tx_exec (CountActiveSessionsByWorker (wid worker)) t w1 of
            (Inl e, w2) \<Rightarrow> [([Idle], w2)]
          | (Inr (k, t1), w2) \<Rightarrow>
              (if k \<ge> wmax_slots worker then [([Idle], w2)] else write_trace opts req n worker t1 w2)))"

definition claim_trace ::
  "sched_options \<Rightarrow> claim_request \<Rightarrow> uuid \<Rightarrow> uuid list \<Rightarrow> world \<Rightarrow> (claim_pc list \<times> world) list" where
  "claim_trace opts req n ex w =
    ([Idle], w) #
    (case tx_begin w of
       (Inl e, w1) \<Rightarrow> []
     | (Inr t, w1) \<Rightarrow> body_trace opts req n ex t w1)"

fun attempts_trace ::
  "sched_options \<Rightarrow> claim_request \<Rightarrow> claim_env \<Rightarrow> nat \<Rightarrow> uuid list \<Rightarrow> world \<Rightarrow> (claim_pc list \<times> world) list" where
  "attempts_trace opts req env 0 ex w = []"
| "attempts_trace opts req env (Suc left) ex w =
    (let attempt = maxClaimAttempts - Suc left in
     claim_trace opts req (ce_id env attempt) ex w @
     (case claimOnce opts req (ce_id env attempt) ex w of
        (Inr s, w') \<Rightarrow> []
      | (Inl (e, full), w') \<Rightarrow>
          (if \<not> errors_Is e ErrNoCapacity then []
           else (case full of
                   Some i \<Rightarrow> attempts_trace opts req env left (ex @ [i]) w'
                 | None \<Rightarrow> (if left = 0 \<or> ce_wait env attempt \<noteq> None then []
                            else attempts_trace opts req env left ex w')))))"

fun loop_trace ::
  "sched_options \<Rightarrow> claim_request \<Rightarrow> round list \<Rightarrow> uuid list \<Rightarrow> world \<Rightarrow> (claim_pc list \<times> world) list" where
  "loop_trace opts req [] ex w = []"
| "loop_trace opts req (r # rs) ex w =
    (if queueWaitError (rd_top r) \<noteq> None then []
     else claim_trace opts req (rd_id r) ex w @
       (case claimOnce opts req (rd_id r) ex w of
          (Inr s, w') \<Rightarrow> []
        | (Inl (e, full), w') \<Rightarrow>
            (if errors_Is e ErrNoCapacity \<and> full \<noteq> None then loop_trace opts req rs (ex @ [the full]) w'
             else if errors_Is e ErrUncertainCommit \<or> queueWaitError (rd_after r) \<noteq> None
               \<or> errors_Is e (Cause Canceled) \<or> errors_Is e (Cause DeadlineExceeded) then []
             else if rd_select r = Woken \<or> rd_select r = PollTimer then loop_trace opts req rs [] w'
             else [])))"

definition Admit_trace ::
  "sched_options \<Rightarrow> claim_request \<Rightarrow> admit_env \<Rightarrow> int \<Rightarrow> world \<Rightarrow> (claim_pc list \<times> world) list" where
  "Admit_trace opts req env depth w =
    (if ae_draining_first env then []
     else attempts_trace opts req (ae_claim env) maxClaimAttempts [] w @
       (case Claim opts req (ae_claim env) w of
          (Inr s, w1) \<Rightarrow> []
        | (Inl e, w1) \<Rightarrow>
            (if \<not> errors_Is e ErrNoCapacity \<or> ae_draining_second env \<or> enterQueue opts depth = None then []
             else loop_trace opts req (ae_rounds env) [] w1)))"

text \<open>
  A trace has one entry for each round trip, in order: the world of an entry still has the beats that
  the entries before it have not consumed, and the call ends with those the whole trace has left.
\<close>

fun paced :: "(claim_pc list \<times> world) list \<Rightarrow> beat list \<Rightarrow> beat list \<Rightarrow> bool" where
  "paced [] bs bs' \<longleftrightarrow> bs' = bs"
| "paced ((own, w) # tr) bs bs' \<longleftrightarrow> script w = bs \<and> paced tr (tl bs) bs'"

lemma paced_append: "paced (tr @ tr') bs bs' \<longleftrightarrow> (\<exists>bs1. paced tr bs bs1 \<and> paced tr' bs1 bs')"
  by (induction tr arbitrary: bs) auto

lemma next_beat_script: "next_beat w = (b, w1) \<Longrightarrow> script w1 = tl (script w)"
  by (auto simp: next_beat_def split: list.splits)

lemma trip_scripts:
  "tx_begin w = (rb, w1) \<Longrightarrow> script w1 = tl (script w)"
  "tx_exec q t w = (rx, w1) \<Longrightarrow> script w1 = tl (script w)"
  "tx_commit t w = (rc, w1) \<Longrightarrow> script w1 = tl (script w)"
  "rollback e w = (e', w1) \<Longrightarrow> script w1 = tl (script w)"
  "claim_select p t w = (rs, w1) \<Longrightarrow> script w1 = tl (script w)"
  by (auto simp: tx_begin_def tx_exec_def tx_commit_def rollback_def claim_select_def Let_def
      dest: next_beat_script split: prod.splits option.splits sum.splits if_splits)

lemma write_paced:
  "claim_write opts req n worker t w = (r, w') \<Longrightarrow> script w' = bs \<Longrightarrow>
    paced (write_trace opts req n worker t w) (script w) (tl bs)"
  by (auto simp: claim_write_def write_trace_def andThen_def wrapErr_def trip_scripts split: prod.splits sum.splits)

lemma body_paced:
  assumes "claim_body opts req n ex t w = (r, w')"
  shows "paced (body_trace opts req n ex t w) (script w) (tl (script w'))"
proof -
  obtain x v where sel: "claim_select (select_params opts req ex) t w = (x, v)" by fastforce
  show ?thesis
  proof (cases x)
    case (Inl e)
    with assms sel trip_scripts(5) [OF sel] show ?thesis
      by (auto simp: claim_body_def body_trace_def split: if_splits)
  next
    case (Inr worker)
    obtain y u where cnt: "tx_exec (CountActiveSessionsByWorker (wid worker)) t v = (y, u)" by fastforce
    show ?thesis
    proof (cases "\<exists>k t1. y = Inr (k, t1) \<and> k < wmax_slots worker")
      case False
      with assms sel Inr cnt trip_scripts(5) [OF sel] trip_scripts(2) [OF cnt] show ?thesis
        by (auto simp: claim_body_def body_trace_def split: sum.splits prod.splits if_splits)
    next
      case True
      then obtain k t1 where y: "y = Inr (k, t1)" "k < wmax_slots worker" by blast
      obtain z v' where wr: "claim_write opts req n worker t1 u = (z, v')" by fastforce
      then have "v' = w'" using assms sel Inr cnt y by (auto simp: claim_body_def split: sum.splits)
      with write_paced [OF wr refl] sel Inr cnt y show ?thesis
        by (simp add: body_trace_def trip_scripts(5) [OF sel, symmetric] trip_scripts(2) [OF cnt, symmetric])
    qed
  qed
qed

lemma claim_paced:
  assumes "claimOnce opts req n ex w = (r, w')"
  shows "paced (claim_trace opts req n ex w) (script w) (script w')"
proof -
  obtain x v where bg: "tx_begin w = (x, v)" by fastforce
  show ?thesis
  proof (cases x)
    case (Inl e)
    with assms bg show ?thesis by (auto simp: claimOnce_def claim_trace_def trip_scripts)
  next
    case (Inr t)
    obtain y u where body: "claim_body opts req n ex t v = (y, u)" by fastforce
    have "script w' = tl (script u)"
      using assms bg Inr body
      by (auto simp: claimOnce_def trip_scripts split: sum.splits prod.splits)
    with body_paced [OF body] bg Inr show ?thesis
      by (simp add: claim_trace_def trip_scripts(1) [OF bg, symmetric])
  qed
qed

lemma attempts_paced:
  "claim_attempts opts req env left ex w = (r, w') \<Longrightarrow>
    paced (attempts_trace opts req env left ex w) (script w) (script w')"
proof (induction left arbitrary: ex w)
  case 0
  then show ?case by simp
next
  case (Suc left)
  obtain o' w1 where c: "claimOnce opts req (ce_id env (maxClaimAttempts - Suc left)) ex w = (o', w1)" by fastforce
  from Suc.prems c claim_paced [OF c] show ?case
    by (auto simp: Let_def paced_append dest!: Suc.IH split: sum.splits prod.splits option.splits if_splits)
qed

lemma loop_paced:
  "admit_loop opts req rs ex w = (out, w') \<Longrightarrow> paced (loop_trace opts req rs ex w) (script w) (script w')"
proof (induction rs arbitrary: ex w)
  case Nil
  then show ?case by simp
next
  case (Cons r rs)
  obtain o' w1 where c: "claimOnce opts req (rd_id r) ex w = (o', w1)" by fastforce
  from Cons.prems c claim_paced [OF c] show ?case
    by (auto simp: paced_append dest!: Cons.IH
        split: sum.splits prod.splits option.splits if_splits select_case.splits)
qed

lemma admit_paced:
  assumes "Admit opts req env depth w = (out, q', w')"
  shows "paced (Admit_trace opts req env depth w) (script w) (script w')"
proof -
  obtain r w1 where c: "Claim opts req (ae_claim env) w = (r, w1)" by fastforce
  from attempts_paced [OF c [unfolded Claim_def]] c assms show ?thesis
    by (auto simp: Admit_def Admit_trace_def paced_append dest!: loop_paced
        split: sum.splits prod.splits option.splits if_splits)
qed

text \<open>Once nothing more happens around a call, rivals that hold nothing are company for the rest of it.\<close>

lemma company_quiet:
  "paced tr [] bs \<Longrightarrow> list_all (\<lambda>pc. holding pc = None \<and> unpublished pc = None) rivals \<Longrightarrow> company opts rivals tr rivals"
proof (induction tr)
  case Nil
  then show ?case by simp
next
  case (Cons x tr)
  obtain own w where x: "x = (own, w)" by fastforce
  with Cons.prems have "next_beat w = (quiet, w)" by (simp add: next_beat_def)
  moreover have "meets own quiet rivals"
    using Cons.prems(2) by (cases "(own, quiet, rivals)" rule: meets.cases) (auto simp: list_all_iff)
  ultimately show ?case
    using Cons x by (auto intro: company_beat reaches_refl)
qed

text \<open>What rivals do, they do beside a claim that holds nothing as well.\<close>

lemma claim_step_beside:
  assumes "claim_step opts f g" and "holding pc = None" and "unpublished pc = None"
  shows "claim_step opts (f\<lparr>claims := pc # claims f\<rparr>) (g\<lparr>claims := pc # claims g\<rparr>)"
proof -
  let ?F = "f\<lparr>claims := pc # claims f\<rparr>"
  have held: "held ?F = held f" using assms(2) by (simp add: fun_eq_iff held_def)
  have ids: "unpublished_ids ?F = unpublished_ids f"
    using assms(3) by (simp add: unpublished_ids_def map_filter_def)
  have set: "set_claim (Suc c) x ?F = (set_claim c x f)\<lparr>claims := pc # claims (set_claim c x f)\<rparr>" for c x
    by (simp add: set_claim_def)
  show ?thesis
    using assms(1)
  proof (cases rule: claim_step.cases)
    case (cs_begin c req n ex now)
    then show ?thesis using claim_step.cs_begin [of "Suc c" ?F opts req n ex now] by (simp add: set)
  next
    case (cs_lock c req n ex snap now L w e)
    then show ?thesis
      using claim_step.cs_lock [of "Suc c" ?F req n ex snap now L opts w e] by (simp add: set held)
  next
    case (cs_none c req n ex snap now L x)
    then show ?thesis
      using claim_step.cs_none [of "Suc c" ?F req n ex snap now L opts x] by (simp add: set held)
  next
    case (cs_room c req n now w k e)
    then show ?thesis using claim_step.cs_room [of "Suc c" ?F req n now w k e opts] by (simp add: set)
  next
    case (cs_full c req n now w k e)
    then show ?thesis using claim_step.cs_full [of "Suc c" ?F req n now w k e opts] by (simp add: set)
  next
    case (cs_insert c req n now w s e)
    then show ?thesis using claim_step.cs_insert [of "Suc c" ?F req n now w opts s e] by (simp add: set ids)
  next
    case (cs_increment c now w s w' e)
    then show ?thesis using claim_step.cs_increment [of "Suc c" ?F now w s w' e opts] by (simp add: set)
  next
    case (cs_commit c w s)
    then show ?thesis using claim_step.cs_commit [of "Suc c" ?F w s opts] by (cases f) (simp add: set_claim_def)
  next
    case (cs_abort c)
    then show ?thesis using claim_step.cs_abort [of "Suc c" ?F opts] by (simp add: set)
  next
    case (cs_other d')
    then have "store_step (held ?F) (fdb ?F) d'" by (simp add: held)
    from claim_step.cs_other [where f = ?F, OF this, of opts] show ?thesis
      unfolding cs_other(1) by (cases f) simp
  qed
qed

lemma claims_beside:
  assumes "reaches (claim_step opts) f g" and "holding pc = None" and "unpublished pc = None"
  shows "reaches (claim_step opts) (f\<lparr>claims := pc # claims f\<rparr>) (g\<lparr>claims := pc # claims g\<rparr>)"
  using assms(1)
proof (induction rule: reaches.induct)
  case (reaches_refl f)
  show ?case by (rule reaches.reaches_refl)
next
  case (reaches_step f g h)
  from reaches_step.IH claim_step_beside [OF reaches_step.hyps(2) assms(2,3)] show ?case
    by (rule reaches.reaches_step)
qed

section \<open>The code's claim is a run of the protocol\<close>

definition conf :: "claim_pc \<Rightarrow> world \<Rightarrow> claim_pc list \<Rightarrow> fleet" where
  "conf pc w rivals = \<lparr>fdb = wdb w, claims = pc # rivals\<rparr>"

lemma conf_simps [simp]: "fdb (conf pc w rivals) = wdb w" "claims (conf pc w rivals) = pc # rivals"
  by (simp_all add: conf_def)

lemma conf_set: "set_claim 0 pc' (conf pc w rivals) = conf pc' w rivals"
  by (simp add: conf_def set_claim_def)

text \<open>One round trip in company, and then a step of the claim itself.\<close>

lemma beat_in_company:
  assumes "company opts rivals (([pc], w) # tr) rivals'" and "next_beat w = (b, w1)"
  obtains r1 where "reaches (claim_step opts) (conf pc w rivals) (conf pc w1 r1)" "meets [pc] b r1"
    "company opts r1 tr rivals'"
  using assms by (auto elim!: company_ConsE simp: conf_def)

lemma own_step:
  "reaches (claim_step opts) f (conf pc w r1) \<Longrightarrow> claim_step opts (conf pc w r1) (conf pc' w r1) \<Longrightarrow>
    reaches (claim_step opts) f (conf pc' w r1)"
  by (rule reaches_step)

lemma abort_step: "claim_step opts (conf pc w r1) (conf Idle w r1)"
  using cs_abort [of 0 "conf pc w r1" opts] by (simp add: conf_set)

lemma tx_exec_beat:
  assumes "tx_exec q t w = (r, w1)"
  obtains b where "next_beat w = (b, w1)"
  using assms by (auto simp: tx_exec_def Let_def split: prod.splits option.splits sum.splits)

text \<open>How the trace of a transaction's body ends: right before its rollback, or right before its commit.\<close>

definition at_end :: "sched_options \<Rightarrow> fleet \<Rightarrow> claim_pc \<Rightarrow> world \<Rightarrow> claim_pc list \<Rightarrow> bool" where
  "at_end opts f pc w rivals' \<longleftrightarrow>
     (\<exists>r1. reaches (claim_step opts) f (conf pc w r1) \<and> company opts r1 [([pc], w)] rivals')"

lemma at_end_after: "reaches (claim_step opts) f g \<Longrightarrow> at_end opts g pc w r \<Longrightarrow> at_end opts f pc w r"
  unfolding at_end_def by (meson reaches_trans)

lemma write_in_company:
  assumes cmp: "company opts rivals (write_trace opts req n worker t w) rivals'" and t: "tx_effect t = id"
    and wr: "claim_write opts req n worker t w = (r, w')"
  shows "case r of
      Inl e \<Rightarrow> at_end opts (conf (Counted req n (tx_now t) worker) w rivals) Idle w' rivals'
    | Inr (s, t') \<Rightarrow> at_end opts (conf (Counted req n (tx_now t) worker) w rivals) (Incremented worker s) w' rivals'"
proof -
  let ?c = "Counted req n (tx_now t) worker"
  obtain i w1 where ins: "tx_exec (InsertClaimedSession (insert_params opts req n worker)) t w = (i, w1)"
    by fastforce
  then obtain b where b: "next_beat w = (b, w1)" by (rule tx_exec_beat)
  obtain tr where tr: "write_trace opts req n worker t w = ([?c], w) # tr" by (simp add: write_trace_def)
  from beat_in_company [OF cmp [unfolded tr] b] obtain r1 where
    r1: "reaches (claim_step opts) (conf ?c w rivals) (conf ?c w1 r1)" "meets [?c] b r1" "company opts r1 tr rivals'" .
  show ?thesis
  proof (cases i)
    case (Inl x)
    with wr ins tr r1(3) own_step [OF r1(1) abort_step] show ?thesis
      by (auto simp: claim_write_def write_trace_def at_end_def)
  next
    case (Inr st)
    obtain s t1 where st: "st = (s, t1)" by fastforce
    from tx_exec_Inr [OF ins [unfolded Inr st]] t obtain e where
      e: "InsertClaimedSession (insert_params opts req n worker) (tx_now t) (wdb w1) = Inr (s, e)"
        "t1 = t\<lparr>tx_effect := e\<rparr>" by auto
    let ?i = "Inserted (tx_now t) worker s"
    have "sid s \<notin> set (unpublished_ids (conf ?c w1 r1))"
      using r1(2) insert_claimed_Inr [OF e(1)]
      by (auto simp: unpublished_ids_def map_filter_def claimed_row_def insert_params_def)
    then have "claim_step opts (conf ?c w1 r1) (conf ?i w1 r1)"
      using cs_insert [of 0 "conf ?c w1 r1" req n "tx_now t" worker opts s e] e(1) by (simp add: conf_set)
    from own_step [OF r1(1) this] have f1: "reaches (claim_step opts) (conf ?c w rivals) (conf ?i w1 r1)" .
    obtain j w2 where inc: "tx_exec (IncrementWorkerLifetimeSessions (wid worker)) t1 w1 = (j, w2)" by fastforce
    then obtain b' where b': "next_beat w1 = (b', w2)" by (rule tx_exec_beat)
    obtain tr' where tr': "tr = ([?i], w1) # tr'" using tr ins Inr st by (auto simp: write_trace_def)
    from beat_in_company [OF r1(3) [unfolded tr'] b'] obtain r2 where
      r2: "reaches (claim_step opts) (conf ?i w1 r1) (conf ?i w2 r2)" "company opts r2 tr' rivals'" .
    have f2: "reaches (claim_step opts) (conf ?c w rivals) (conf ?i w2 r2)"
      using r2(1) f1 by (rule reaches_trans)
    show ?thesis
    proof (cases j)
      case (Inl x)
      with wr ins Inr st inc tr tr' r2(2) own_step [OF f2 abort_step] show ?thesis
        by (auto simp: claim_write_def write_trace_def at_end_def)
    next
      case x: (Inr xt)
      obtain x t2 where xt: "xt = (x, t2)" by fastforce
      from tx_exec_Inr [OF inc [unfolded x xt]] e insert_claimed_Inr [OF e(1)] obtain y where
        "IncrementWorkerLifetimeSessions (wid worker) (tx_now t) (insert_session s (wdb w2)) = Inr (x, y)"
        by auto
      then have "claim_step opts (conf ?i w2 r2) (conf (Incremented worker s) w2 r2)"
        using cs_increment [of 0 "conf ?i w2 r2" "tx_now t" worker s x y opts] by (simp add: conf_set)
      from own_step [OF f2 this] wr ins Inr st inc x xt tr tr' r2(2) show ?thesis
        by (auto simp: claim_write_def write_trace_def at_end_def)
    qed
  qed
qed

lemma select_in_company:
  assumes cmp: "company opts rivals (([Selecting req n ex (wdb w) (tx_now t)], w) # tr) rivals'"
    and sel: "claim_select (select_params opts req ex) t w = (x, w1)"
  shows "case x of
      Inl e \<Rightarrow> (\<exists>r1. reaches (claim_step opts) (conf (Selecting req n ex (wdb w) (tx_now t)) w rivals) (conf Idle w1 r1)
        \<and> company opts r1 tr rivals')
    | Inr worker \<Rightarrow> (\<exists>r1. reaches (claim_step opts) (conf (Selecting req n ex (wdb w) (tx_now t)) w rivals)
          (conf (Locked req n (tx_now t) worker) w1 r1) \<and> company opts r1 tr rivals')"
proof -
  let ?p = "select_params opts req ex" and ?s = "Selecting req n ex (wdb w) (tx_now t)"
  obtain b v where b: "next_beat w = (b, v)" by fastforce
  with sel have v: "v = w1" by (auto simp: claim_select_def Let_def split: option.splits sum.splits prod.splits)
  from beat_in_company [OF cmp b] v obtain r1 where
    r1: "reaches (claim_step opts) (conf ?s w rivals) (conf ?s w1 r1)" "meets [?s] b r1" "company opts r1 tr rivals'"
    by auto
  show ?thesis
  proof (cases x)
    case (Inl e)
    with r1(3) own_step [OF r1(1) abort_step] show ?thesis by auto
  next
    case (Inr worker)
    have held: "i \<in> set (locked b)" if "held (conf ?s w1 r1) i" for i
      using that r1(2) by (auto simp: held_def list_ex_iff)
    have "SelectClaimableWorker ?p (\<lambda>i. i \<in> set (locked b)) (wdb w) (tx_now t) (wdb w1) = Inr (worker, id)"
      using sel b v Inr
      by (auto simp: claim_select_def Let_def split: option.splits sum.splits dest: select_Inr(5))
    then have "claim_step opts (conf ?s w1 r1) (conf (Locked req n (tx_now t) worker) w1 r1)"
      using cs_lock [of 0 "conf ?s w1 r1" req n ex "wdb w" "tx_now t" "\<lambda>i. i \<in> set (locked b)" opts worker id] held
      by (simp add: conf_set)
    from own_step [OF r1(1) this] r1(3) Inr show ?thesis by auto
  qed
qed

lemma count_in_company:
  assumes cmp: "company opts rivals (([Locked req n now worker], w) # tr) rivals'" and t: "tx_effect t = id"
    and cnt: "tx_exec (CountActiveSessionsByWorker (wid worker)) t w = (x, w1)"
  shows "\<exists>r1. company opts r1 tr rivals'
    \<and> reaches (claim_step opts) (conf (Locked req n now worker) w rivals) (conf Idle w1 r1)
    \<and> (\<forall>k t1. x = Inr (k, t1) \<and> k < wmax_slots worker \<longrightarrow> t1 = t
        \<and> reaches (claim_step opts) (conf (Locked req n now worker) w rivals) (conf (Counted req n now worker) w1 r1))"
proof -
  let ?l = "Locked req n now worker"
  obtain b where b: "next_beat w = (b, w1)" using cnt by (rule tx_exec_beat)
  from beat_in_company [OF cmp b] obtain r1 where
    r1: "reaches (claim_step opts) (conf ?l w rivals) (conf ?l w1 r1)" "company opts r1 tr rivals'" .
  have "t1 = t \<and> reaches (claim_step opts) (conf ?l w rivals) (conf (Counted req n now worker) w1 r1)"
    if x: "x = Inr (k, t1)" "k < wmax_slots worker" for k t1
  proof -
    from tx_exec_Inr [OF cnt [unfolded x(1)]] t have k: "k = count_active (wdb w1) (wid worker)" "t1 = t"
      by (auto simp: CountActiveSessionsByWorker_def)
    have "claim_step opts (conf ?l w1 r1) (conf (Counted req n now worker) w1 r1)"
      using cs_room [of 0 "conf ?l w1 r1" req n now worker k id opts] k(1) x(2)
      by (simp add: conf_set CountActiveSessionsByWorker_def)
    with own_step [OF r1(1)] k(2) show ?thesis by blast
  qed
  with r1 own_step [OF r1(1) abort_step] show ?thesis by blast
qed

lemma body_in_company:
  assumes cmp: "company opts rivals (body_trace opts req n ex t w) rivals'" and t: "tx_effect t = id"
    and body: "claim_body opts req n ex t w = (r, w')"
  shows "case r of
      Inl e \<Rightarrow> at_end opts (conf (Selecting req n ex (wdb w) (tx_now t)) w rivals) Idle w' rivals'
    | Inr (s, t') \<Rightarrow> (\<exists>worker. at_end opts (conf (Selecting req n ex (wdb w) (tx_now t)) w rivals) (Incremented worker s) w' rivals'
        \<and> tx_effect t' = claim_effect worker s)"
proof -
  let ?f = "conf (Selecting req n ex (wdb w) (tx_now t)) w rivals"
  obtain tr where tr: "body_trace opts req n ex t w = ([Selecting req n ex (wdb w) (tx_now t)], w) # tr"
    by (simp add: body_trace_def)
  obtain x v where sel: "claim_select (select_params opts req ex) t w = (x, v)" by fastforce
  note sc = select_in_company [OF cmp [unfolded tr] sel]
  show ?thesis
  proof (cases x)
    case (Inl e)
    with sc obtain r1 where "reaches (claim_step opts) ?f (conf Idle v r1)" "company opts r1 tr rivals'" by auto
    moreover have "tr = [([Idle], v)]" using tr sel Inl by (simp add: body_trace_def)
    ultimately have "at_end opts ?f Idle v rivals'" by (auto simp: at_end_def)
    with body sel Inl show ?thesis by (auto simp: claim_body_def split: if_splits)
  next
    case (Inr worker)
    with sc obtain r1 where r1: "reaches (claim_step opts) ?f (conf (Locked req n (tx_now t) worker) v r1)"
      "company opts r1 tr rivals'" by auto
    obtain y u where cnt: "tx_exec (CountActiveSessionsByWorker (wid worker)) t v = (y, u)" by fastforce
    obtain tr' where tr': "tr = ([Locked req n (tx_now t) worker], v) # tr'"
      using tr sel Inr by (auto simp: body_trace_def)
    from count_in_company [OF r1(2) [unfolded tr'] t cnt] obtain r2 where
      r2: "company opts r2 tr' rivals'"
        "reaches (claim_step opts) (conf (Locked req n (tx_now t) worker) v r1) (conf Idle u r2)"
        "\<And>k t1. y = Inr (k, t1) \<Longrightarrow> k < wmax_slots worker \<Longrightarrow> t1 = t \<and>
          reaches (claim_step opts) (conf (Locked req n (tx_now t) worker) v r1) (conf (Counted req n (tx_now t) worker) u r2)"
      by blast
    show ?thesis
    proof (cases "\<exists>k t1. y = Inr (k, t1) \<and> k < wmax_slots worker")
      case False
      then have "tr' = [([Idle], u)]"
        using tr tr' sel Inr cnt by (auto simp: body_trace_def split: sum.splits prod.splits if_splits)
      with r2(1) reaches_trans [OF r2(2) r1(1)] have "at_end opts ?f Idle u rivals'" by (auto simp: at_end_def)
      with body sel Inr cnt False show ?thesis
        by (auto simp: claim_body_def split: sum.splits prod.splits if_splits)
    next
      case True
      then obtain k t1 where y: "y = Inr (k, t1)" "k < wmax_slots worker" by blast
      note f = r2(3) [OF y]
      have tr2: "tr' = write_trace opts req n worker t u"
        using tr tr' sel Inr cnt y f by (auto simp: body_trace_def)
      obtain z v' where wr: "claim_write opts req n worker t u = (z, v')" by fastforce
      note end' = write_in_company [OF r2(1) [unfolded tr2] t wr]
      have go: "reaches (claim_step opts) ?f (conf (Counted req n (tx_now t) worker) u r2)"
        using reaches_trans [OF conjunct2 [OF f] r1(1)] .
      have rz: "(r, w') = (case z of Inl e \<Rightarrow> (Inl (e, None), v') | Inr q \<Rightarrow> (Inr q, v'))"
        using body sel Inr cnt y f wr by (auto simp: claim_body_def split: sum.splits)
      show ?thesis
      proof (cases z)
        case (Inl e)
        with end' rz at_end_after [OF go] show ?thesis by auto
      next
        case st: (Inr st)
        obtain s t' where "st = (s, t')" by fastforce
        moreover from this have "tx_effect t' = claim_effect worker s"
          using wr st t by (auto dest: claim_write_Inr(3))
        ultimately show ?thesis using st end' rz at_end_after [OF go] by auto
      qed
    qed
  qed
qed

lemma claim_in_company:
  assumes cmp: "company opts rivals (claim_trace opts req n ex w) rivals'"
    and claim: "claimOnce opts req n ex w = (r, w')"
  shows "reaches (claim_step opts) (conf Idle w rivals) (conf Idle w' rivals')"
proof -
  obtain x v where bg: "tx_begin w = (x, v)" by fastforce
  then obtain b where b: "next_beat w = (b, v)"
    by (auto simp: tx_begin_def Let_def split: prod.splits option.splits)
  obtain tr where tr: "claim_trace opts req n ex w = ([Idle], w) # tr" by (simp add: claim_trace_def)
  from beat_in_company [OF cmp [unfolded tr] b] obtain r1 where
    r1: "reaches (claim_step opts) (conf Idle w rivals) (conf Idle v r1)" "company opts r1 tr rivals'" .
  show ?thesis
  proof (cases x)
    case (Inl e)
    with claim bg tr r1 show ?thesis by (auto simp: claimOnce_def claim_trace_def)
  next
    case (Inr t)
    then have t: "tx_effect t = id"
      using bg by (auto simp: tx_begin_def Let_def split: prod.splits option.splits)
    let ?s = "Selecting req n ex (wdb v) (tx_now t)"
    have "claim_step opts (conf Idle v r1) (conf ?s v r1)"
      using cs_begin [of 0 "conf Idle v r1" opts req n ex "tx_now t"] by (simp add: conf_set)
    from own_step [OF r1(1) this] have sel: "reaches (claim_step opts) (conf Idle w rivals) (conf ?s v r1)" .
    obtain y u where body: "claim_body opts req n ex t v = (y, u)" by fastforce
    have "tr = body_trace opts req n ex t v" using tr bg Inr by (simp add: claim_trace_def)
    note be = body_in_company [OF r1(2) [unfolded this] t body]
    show ?thesis
    proof (cases y)
      case (Inl e)
      obtain e1 e2 where e: "e = (e1, e2)" by fastforce
      from be Inl have "at_end opts (conf ?s v r1) Idle u rivals'" by simp
      from at_end_after [OF sel this] obtain r2 where
        r2: "reaches (claim_step opts) (conf Idle w rivals) (conf Idle u r2)" "company opts r2 [([Idle], u)] rivals'"
        unfolding at_end_def by blast
      obtain e' where rb: "rollback e1 u = (e', w')"
        using claim bg Inr body Inl e by (auto simp: claimOnce_def split: prod.splits)
      then obtain b' where b': "next_beat u = (b', w')"
        by (auto simp: rollback_def Let_def split: prod.splits option.splits)
      from beat_in_company [OF r2(2) b'] r2(1) show ?thesis by (auto intro: reaches_trans)
    next
      case r: (Inr st)
      obtain s t' where st: "st = (s, t')" by fastforce
      from be r st obtain worker where
        wk: "at_end opts (conf ?s v r1) (Incremented worker s) u rivals'" "tx_effect t' = claim_effect worker s"
        by auto
      from at_end_after [OF sel wk(1)] wk(2) obtain r2 where
        r2: "reaches (claim_step opts) (conf Idle w rivals) (conf (Incremented worker s) u r2)"
          "company opts r2 [([Incremented worker s], u)] rivals'" "tx_effect t' = claim_effect worker s"
        unfolding at_end_def by blast
      obtain z where cm: "tx_commit t' u = (z, w')"
        using claim bg Inr body r st by (auto simp: claimOnce_def split: prod.splits sum.splits)
      obtain b' u' where b': "next_beat u = (b', u')" by fastforce
      from beat_in_company [OF r2(2) b'] obtain r3 where
        r3: "reaches (claim_step opts) (conf (Incremented worker s) u r2) (conf (Incremented worker s) u' r3)"
          "company opts r3 [] rivals'" .
      have f: "reaches (claim_step opts) (conf Idle w rivals) (conf (Incremented worker s) u' rivals')"
        using reaches_trans [OF r3(1) r2(1)] r3(2) by simp
      have "claim_step opts (conf (Incremented worker s) u' rivals')
          (conf Idle (u'\<lparr>wdb := claim_effect worker s (wdb u')\<rparr>) rivals')"
        using cs_commit [of 0 "conf (Incremented worker s) u' rivals'" worker s opts] by (simp add: conf_def set_claim_def)
      with f have "reaches (claim_step opts) (conf Idle w rivals)
          (conf Idle (u'\<lparr>wdb := claim_effect worker s (wdb u')\<rparr>) rivals')" by (rule reaches_step)
      moreover have "w' = u' \<or> w' = u'\<lparr>wdb := claim_effect worker s (wdb u')\<rparr>"
        using cm b' by (auto simp: tx_commit_def r2(3) Let_def split: option.splits if_splits)
      ultimately show ?thesis using own_step [OF f abort_step] by auto
    qed
  qed
qed

text \<open>So is every retry and the whole admission of a request.\<close>

lemma attempts_in_company:
  "company opts rivals (attempts_trace opts req env left ex w) rivals' \<Longrightarrow>
    claim_attempts opts req env left ex w = (r, w') \<Longrightarrow>
    reaches (claim_step opts) (conf Idle w rivals) (conf Idle w' rivals')"
proof (induction left arbitrary: ex w rivals)
  case 0
  then show ?case by (simp add: reaches_refl)
next
  case (Suc left)
  let ?n = "ce_id env (maxClaimAttempts - Suc left)"
  obtain o' w1 where c: "claimOnce opts req ?n ex w = (o', w1)" by fastforce
  from Suc.prems(1) obtain tr r1 where
    tr: "attempts_trace opts req env (Suc left) ex w = claim_trace opts req ?n ex w @ tr"
    and r1: "company opts rivals (claim_trace opts req ?n ex w) r1" "company opts r1 tr rivals'"
    by (auto simp: Let_def company_append)
  note f = claim_in_company [OF r1(1) c]
  have more: "reaches (claim_step opts) (conf Idle w rivals) (conf Idle w' rivals')"
    if "tr = attempts_trace opts req env left ex' w1" "claim_attempts opts req env left ex' w1 = (r, w')" for ex'
    using Suc.IH [OF r1(2) [unfolded that(1)] that(2)] f by (rule reaches_trans)
  have "(w' = w1 \<and> tr = []) \<or>
      (\<exists>ex'. tr = attempts_trace opts req env left ex' w1 \<and> claim_attempts opts req env left ex' w1 = (r, w'))"
    using Suc.prems(2) tr c by (auto simp: Let_def split: sum.splits prod.splits option.splits if_splits)
  with more r1(2) f show ?case by auto
qed

lemma loop_in_company:
  "company opts rivals (loop_trace opts req rs ex w) rivals' \<Longrightarrow> admit_loop opts req rs ex w = (out, w') \<Longrightarrow>
    reaches (claim_step opts) (conf Idle w rivals) (conf Idle w' rivals')"
proof (induction rs arbitrary: ex w rivals)
  case Nil
  then show ?case by (simp add: reaches_refl)
next
  case (Cons r rs)
  show ?case
  proof (cases "queueWaitError (rd_top r)")
    case (Some e)
    with Cons.prems show ?thesis by (auto simp: reaches_refl)
  next
    case None
    obtain o' w1 where c: "claimOnce opts req (rd_id r) ex w = (o', w1)" by fastforce
    from Cons.prems(1) None obtain tr r1 where
      tr: "loop_trace opts req (r # rs) ex w = claim_trace opts req (rd_id r) ex w @ tr"
      and r1: "company opts rivals (claim_trace opts req (rd_id r) ex w) r1" "company opts r1 tr rivals'"
      by (auto simp: company_append)
    note f = claim_in_company [OF r1(1) c]
    have more: "reaches (claim_step opts) (conf Idle w rivals) (conf Idle w' rivals')"
      if "tr = loop_trace opts req rs ex' w1" "admit_loop opts req rs ex' w1 = (out, w')" for ex'
      using Cons.IH [OF r1(2) [unfolded that(1)] that(2)] f by (rule reaches_trans)
    have "(w' = w1 \<and> tr = []) \<or>
        (\<exists>ex'. tr = loop_trace opts req rs ex' w1 \<and> admit_loop opts req rs ex' w1 = (out, w'))"
      using Cons.prems(2) tr c None
      by (auto split: sum.splits prod.splits option.splits if_splits select_case.splits)
    with more r1(2) f show ?thesis by auto
  qed
qed

lemma admit_in_company:
  assumes cmp: "company opts rivals (Admit_trace opts req env depth w) rivals'"
    and admit: "Admit opts req env depth w = (out, q', w')"
  shows "reaches (claim_step opts) (conf Idle w rivals) (conf Idle w' rivals')"
proof (cases "ae_draining_first env")
  case True
  with assms show ?thesis by (auto simp: Admit_def Admit_trace_def reaches_refl)
next
  case False
  obtain r w1 where c: "Claim opts req (ae_claim env) w = (r, w1)" by fastforce
  from cmp False obtain tr r1 where
    tr: "Admit_trace opts req env depth w = attempts_trace opts req (ae_claim env) maxClaimAttempts [] w @ tr"
    and r1: "company opts rivals (attempts_trace opts req (ae_claim env) maxClaimAttempts [] w) r1"
      "company opts r1 tr rivals'"
    by (auto simp: Admit_trace_def company_append)
  have f: "reaches (claim_step opts) (conf Idle w rivals) (conf Idle w1 r1)"
    using r1(1) c unfolding Claim_def by (rule attempts_in_company)
  have "(w' = w1 \<and> tr = []) \<or>
      (\<exists>out. tr = loop_trace opts req (ae_rounds env) [] w1 \<and> admit_loop opts req (ae_rounds env) [] w1 = (out, w'))"
    using admit tr c False
    by (auto simp: Admit_def Admit_trace_def split: sum.splits prod.splits option.splits if_splits)
  with r1(2) f show ?thesis by (auto intro: reaches_trans loop_in_company)
qed

end
