(* ===== verification/Auth.thy ===== *)
theory Auth
  imports Key_Queries
begin

text \<open>
  \<open>internal/httpapi/auth.go\<close> and its two callers, \<open>authMiddleware\<close> and \<open>authenticateRelay\<close>: the
  bearer token, the latch that turns authentication on with the first active key, the lookup of
  the key. The digest of a token (\<open>hex(sha256(token))\<close>) is a parameter. What the callers rely on is
  the locale \<open>authenticator\<close>, which both authenticators of the program satisfy.
\<close>

section \<open>The bearer token\<close>

definition to_lower :: "char \<Rightarrow> char" where
  "to_lower c = (if CHR ''A'' \<le> c \<and> c \<le> CHR ''Z'' then char_of (of_char c + 32 :: nat) else c)"

text \<open>
  \<open>strings.EqualFold\<close> with an ASCII word none of whose letters folds to a character outside ASCII.
\<close>

definition equal_fold :: "string \<Rightarrow> string \<Rightarrow> bool" where
  "equal_fold a b \<longleftrightarrow> map to_lower a = map to_lower b"

text \<open>\<open>strings.Cut(s, " ")\<close>\<close>

definition cut_space :: "string \<Rightarrow> (string \<times> string) option" where
  "cut_space s = (if CHR '' '' \<in> set s
     then Some (takeWhile (\<lambda>c. c \<noteq> CHR '' '') s, tl (dropWhile (\<lambda>c. c \<noteq> CHR '' '') s)) else None)"

definition token_prefix :: string where
  "token_prefix = ''pwd_''"

definition blank :: "char \<Rightarrow> bool" where
  "blank c \<longleftrightarrow> c = CHR '' '' \<or> c = CHR 0x09 \<or> c = CHR 0x0D \<or> c = CHR 0x0A"

definition bearerToken :: "string \<Rightarrow> string option" where
  "bearerToken authorization =
    (case cut_space authorization of
       None \<Rightarrow> None
     | Some (scheme, token) \<Rightarrow>
         (if \<not> equal_fold scheme ''Bearer'' then None
          else if \<not> prefix token_prefix token \<or> length token = length token_prefix \<or> list_ex blank token
          then None
          else Some token))"

section \<open>Authenticators\<close>

text \<open>
  The state of an authenticator: the latch and whether the warning was logged. \<open>latched\<close> is what the
  second reading of the latch finds when another request set it during the count.
\<close>

record auth_state =
  authRequired :: bool
  warned :: bool

type_synonym authenticate =
  "bool \<Rightarrow> auth_state \<Rightarrow> string \<Rightarrow> world \<Rightarrow> (error + uuid option) \<times> auth_state \<times> world"

definition NoAuthAuthenticator :: authenticate where
  "NoAuthAuthenticator latched st authorization w = (Inr None, st, w)"

definition requiresAuthentication ::
  "bool \<Rightarrow> auth_state \<Rightarrow> world \<Rightarrow> (error + bool) \<times> auth_state \<times> world" where
  "requiresAuthentication latched st w =
    (if authRequired st then (Inr True, st, w)
     else (let st1 = st\<lparr>authRequired := latched\<rparr> in
       case exec CountActiveAPIKeys w of
         (Inl e, w') \<Rightarrow> (Inl (Pair ErrAuthBackend (Wrap ''counting active api keys'' e)), st1, w')
       | (Inr n, w') \<Rightarrow>
           (if n = 0 then (Inr (authRequired st1), st1, w')
            else (Inr True, st1\<lparr>authRequired := True\<rparr>, w'))))"

text \<open>A failure of \<open>TouchAPIKey\<close> is only logged.\<close>

definition TokenAuthenticator :: "(string \<Rightarrow> string) \<Rightarrow> authenticate" where
  "TokenAuthenticator digest latched st authorization w =
    (case requiresAuthentication latched st w of
       (Inl e, st1, w1) \<Rightarrow> (Inl e, st1, w1)
     | (Inr required, st1, w1) \<Rightarrow>
         (if \<not> required then (Inr None, st1\<lparr>warned := True\<rparr>, w1)
          else (case bearerToken authorization of
                  None \<Rightarrow> (Inl ErrUnauthorized, st1, w1)
                | Some token \<Rightarrow>
                    (case exec (GetActiveAPIKeyByHash (digest token)) w1 of
                       (Inl e, w2) \<Rightarrow>
                         (if is_no_rows e then (Inl ErrUnauthorized, st1, w2)
                          else (Inl (Pair ErrAuthBackend (Wrap ''looking up api key'' e)), st1, w2))
                     | (Inr key, w2) \<Rightarrow>
                         (Inr (Some (kid key)), st1, snd (exec (TouchAPIKey (kid key)) w2))))))"

section \<open>What the callers rely on\<close>

definition key_active :: "database \<Rightarrow> uuid \<Rightarrow> bool" where
  "key_active d i \<longleftrightarrow> list_ex (\<lambda>k. kid k = i \<and> krevoked k = None) (api_keys d)"

locale authenticator =
  fixes auth :: authenticate
  assumes error_kinds: "auth l st a w = (Inl e, st', w') \<Longrightarrow>
      errors_Is e ErrUnauthorized \<or> errors_Is e ErrAuthBackend"
    and key_seen: "auth l st a w = (Inr (Some i), st', w') \<Longrightarrow>
      \<exists>w1. disturbed w w1 \<and> key_active (wdb w1) i"
    and latch_kept: "auth l st a w = (r, st', w') \<Longrightarrow> authRequired st \<Longrightarrow> authRequired st'"

text \<open>An answer of the HTTP layer: its status, the headers it sets, its message.\<close>

record reply =
  rp_status :: nat
  rp_headers :: "(string \<times> string) list"
  rp_message :: string

abbreviation plain_reply :: "nat \<Rightarrow> string \<Rightarrow> reply" where
  "plain_reply status message \<equiv> \<lparr>rp_status = status, rp_headers = [], rp_message = message\<rparr>"

abbreviation retry_reply :: "nat \<Rightarrow> string \<Rightarrow> reply" where
  "retry_reply status message \<equiv>
     \<lparr>rp_status = status, rp_headers = [(''Retry-After'', ''1'')], rp_message = message\<rparr>"

definition auth_failure :: "error \<Rightarrow> reply" where
  "auth_failure e =
    (if errors_Is e ErrUnauthorized
     then \<lparr>rp_status = 401, rp_headers = [(''WWW-Authenticate'', ''Bearer'')], rp_message = ''unauthorized''\<rparr>
     else retry_reply 503 ''authentication service unavailable'')"

definition authMiddleware :: "authenticate \<Rightarrow> bool \<Rightarrow> auth_state \<Rightarrow> string
    \<Rightarrow> (uuid option \<Rightarrow> world \<Rightarrow> reply \<times> world) \<Rightarrow> world \<Rightarrow> reply \<times> auth_state \<times> world" where
  "authMiddleware auth l st authorization next_handler w =
    (case auth l st authorization w of
       (Inl e, st', w') \<Rightarrow> (auth_failure e, st', w')
     | (Inr who, st', w') \<Rightarrow>
         (let (rp, w'') = next_handler who w' in (rp, st', w'')))"

text \<open>Browsers cannot set a header on a WebSocket, so the relay also takes the token from the query.\<close>

definition authenticateRelay :: "authenticate \<Rightarrow> bool \<Rightarrow> auth_state \<Rightarrow> string \<Rightarrow> string
    \<Rightarrow> world \<Rightarrow> (reply + uuid option) \<times> auth_state \<times> world" where
  "authenticateRelay auth l st authorization token w =
    (let a = (if authorization = [] \<and> token \<noteq> [] then ''Bearer '' @ token else authorization)
     in case auth l st a w of
          (Inl e, st', w') \<Rightarrow> (Inl (auth_failure e), st', w')
        | (Inr who, st', w') \<Rightarrow> (Inr who, st', w'))"

context authenticator
begin

lemma relay_refusal:
  "authenticateRelay auth l st a token w = (Inl rp, st', w') \<Longrightarrow> rp_status rp = 401 \<or> rp_status rp = 503"
  by (auto simp: authenticateRelay_def auth_failure_def Let_def split: sum.splits prod.splits if_splits)

lemma relay_principal:
  "authenticateRelay auth l st a token w = (Inr (Some i), st', w') \<Longrightarrow>
    \<exists>w1. disturbed w w1 \<and> key_active (wdb w1) i"
  using key_seen by (auto simp: authenticateRelay_def Let_def split: sum.splits prod.splits)

lemma middleware_guards:
  assumes "authMiddleware auth l st a next_handler w = (rp, st', w')"
  shows "rp_status rp = 401 \<or> rp_status rp = 503
    \<or> (\<exists>p w1. auth l st a w = (Inr p, st', w1) \<and> next_handler p w1 = (rp, w')
         \<and> (\<forall>i. p = Some i \<longrightarrow> (\<exists>w0. disturbed w w0 \<and> key_active (wdb w0) i)))"
proof -
  obtain r st1 w1 where a: "auth l st a w = (r, st1, w1)" by (cases "auth l st a w") auto
  show ?thesis
  proof (cases r)
    case (Inl e)
    with assms a show ?thesis
      by (auto simp: authMiddleware_def auth_failure_def split: if_splits)
  next
    case (Inr p)
    with assms a have "st' = st1" "next_handler p w1 = (rp, w')"
      by (auto simp: authMiddleware_def split: prod.splits)
    moreover have "\<forall>i. p = Some i \<longrightarrow> (\<exists>w0. disturbed w w0 \<and> key_active (wdb w0) i)"
      using key_seen a Inr by blast
    ultimately show ?thesis using a Inr by blast
  qed
qed

lemma latch_survives: "authRequired st \<Longrightarrow>
    fst (snd (authMiddleware auth l st a next_handler w)) = st' \<Longrightarrow> authRequired st'"
  using latch_kept by (auto simp: authMiddleware_def split: prod.splits sum.splits)

end

section \<open>Facts\<close>

text \<open>A statement that only reads leaves the database to others.\<close>

definition reads_only :: "'a stmt \<Rightarrow> bool" where
  "reads_only q \<longleftrightarrow> (\<forall>now d x e. q now d = Inr (x, e) \<longrightarrow> e = id)"

lemma exec_reads:
  assumes "exec q w = (r, w')" and reads: "reads_only q"
  shows "disturbed w w'" and "r = Inr a \<Longrightarrow> \<exists>e. q (clock w') (wdb w') = Inr (a, e)"
proof -
  obtain b w1 where b: "next_beat w = (b, w1)" by fastforce
  have "w' = w1 \<and> (r = Inr a \<longrightarrow> (\<exists>e. q (clock w') (wdb w') = Inr (a, e)))"
  proof (cases "q (clock w1) (wdb w1)")
    case (Inl x)
    with assms(1) b show ?thesis by (auto simp: exec_def split: option.splits)
  next
    case (Inr xe)
    then obtain x where x: "q (clock w1) (wdb w1) = Inr (x, id)"
      using reads by (cases xe) (auto simp: reads_only_def)
    with assms(1) b show ?thesis by (auto simp: exec_def split: option.splits if_splits)
  qed
  then show "disturbed w w'" and "r = Inr a \<Longrightarrow> \<exists>e. q (clock w') (wdb w') = Inr (a, e)"
    using disturbed_next [OF b] by auto
qed

lemma count_reads: "reads_only CountActiveAPIKeys"
  by (simp add: reads_only_def CountActiveAPIKeys_def)

lemma lookup_reads: "reads_only (GetActiveAPIKeyByHash h)"
  by (simp add: reads_only_def active_key_Inr)

lemma requires_cases:
  assumes "requiresAuthentication l st w = (r, st', w')"
  shows "disturbed w w'" and "authRequired st \<Longrightarrow> authRequired st' \<and> r = Inr True"
    and "r = Inl e \<Longrightarrow> errors_Is e ErrAuthBackend" and "r = Inr True \<Longrightarrow> authRequired st'"
    and "r = Inr False \<Longrightarrow> \<exists>w1. disturbed w w1 \<and> (\<forall>k \<in> set (api_keys (wdb w1)). krevoked k \<noteq> None)"
proof -
  obtain c w1 where c: "exec CountActiveAPIKeys w = (c, w1)" by fastforce
  note d = exec_reads(1) [OF c count_reads]
  show "disturbed w w'"
    using assms c d
    by (auto simp: requiresAuthentication_def Let_def disturbed_refl split: if_splits sum.splits)
  show "authRequired st \<Longrightarrow> authRequired st' \<and> r = Inr True" "r = Inl e \<Longrightarrow> errors_Is e ErrAuthBackend"
    "r = Inr True \<Longrightarrow> authRequired st'"
    using assms c
    by (auto simp: requiresAuthentication_def Let_def split: if_splits sum.splits)
  assume "r = Inr False"
  with assms c have "c = Inr 0"
    by (auto simp: requiresAuthentication_def Let_def split: if_splits sum.splits)
  from exec_reads(2) [OF c count_reads this] have "\<forall>k \<in> set (api_keys (wdb w1)). krevoked k \<noteq> None"
    by (auto simp: CountActiveAPIKeys_def filter_empty_conv)
  with d show "\<exists>w1. disturbed w w1 \<and> (\<forall>k \<in> set (api_keys (wdb w1)). krevoked k \<noteq> None)" by blast
qed

text \<open>Who is let in, and why.\<close>

lemma token_admits:
  assumes "TokenAuthenticator digest l st a w = (Inr p, st', w')"
  shows "(p = None \<and> \<not> authRequired st
      \<and> (\<exists>w1. disturbed w w1 \<and> (\<forall>k \<in> set (api_keys (wdb w1)). krevoked k \<noteq> None)))
    \<or> (\<exists>token k w1. bearerToken a = Some token \<and> p = Some (kid k) \<and> disturbed w w1
        \<and> k \<in> set (api_keys (wdb w1)) \<and> khash k = digest token \<and> krevoked k = None)"
proof -
  obtain r st1 w1 where q: "requiresAuthentication l st w = (r, st1, w1)"
    by (cases "requiresAuthentication l st w") auto
  note rc = requires_cases [OF q]
  from assms q obtain req where req: "r = Inr req"
    by (auto simp: TokenAuthenticator_def split: sum.splits)
  show ?thesis
  proof (cases req)
    case False
    with assms q req rc(2,5) show ?thesis by (auto simp: TokenAuthenticator_def)
  next
    case True
    with assms q req obtain token where t: "bearerToken a = Some token"
      by (auto simp: TokenAuthenticator_def split: option.splits)
    obtain x w2 where x: "exec (GetActiveAPIKeyByHash (digest token)) w1 = (x, w2)" by fastforce
    from assms q req True t x obtain k where k: "x = Inr k" "p = Some (kid k)"
      by (auto simp: TokenAuthenticator_def split: sum.splits if_splits)
    from exec_reads(1) [OF x lookup_reads] exec_reads(2) [OF x lookup_reads k(1)] have "disturbed w1 w2"
      "k \<in> set (api_keys (wdb w2))" "khash k = digest token" "krevoked k = None"
      by (auto dest: active_key_Inr)
    with rc(1) t k(2) show ?thesis by (blast intro: disturbed_trans)
  qed
qed

lemma token_errors:
  "TokenAuthenticator digest l st a w = (Inl e, st', w') \<Longrightarrow>
    errors_Is e ErrUnauthorized \<or> errors_Is e ErrAuthBackend"
  by (auto simp: TokenAuthenticator_def split: sum.splits prod.splits option.splits if_splits
      dest: requires_cases(3) [OF _ refl])

lemma token_latch:
  "TokenAuthenticator digest l st a w = (r, st', w') \<Longrightarrow> authRequired st \<Longrightarrow> authRequired st'"
  by (auto simp: TokenAuthenticator_def split: sum.splits prod.splits option.splits if_splits
      dest: requires_cases(2))

interpretation open_access: authenticator NoAuthAuthenticator
  by unfold_locales (auto simp: NoAuthAuthenticator_def)

interpretation token_access: authenticator "TokenAuthenticator digest"
proof
  show "TokenAuthenticator digest l st a w = (Inl e, st', w') \<Longrightarrow>
      errors_Is e ErrUnauthorized \<or> errors_Is e ErrAuthBackend" for l st a w e st' w'
    by (rule token_errors)
  show "TokenAuthenticator digest l st a w = (Inr (Some i), st', w') \<Longrightarrow>
      \<exists>w1. disturbed w w1 \<and> key_active (wdb w1) i" for l st a w i st' w'
    by (drule token_admits) (auto simp: key_active_def list_ex_iff)
  show "TokenAuthenticator digest l st a w = (r, st', w') \<Longrightarrow> authRequired st \<Longrightarrow> authRequired st'"
    for l st a w r st' w'
    by (rule token_latch)
qed

end
