(* ===== verification/Version.thy ===== *)
theory Version
  imports Prelude
begin

text \<open>
  \<open>internal/relay/version.go\<close>: the two regular expressions as matchers, with the language each
  accepts as a separate definition. The prefix they produce (\<open>major.minor.\<close>) is what a claim
  compares worker versions with; the last section shows that it cannot confuse two minor versions.
  Strings are byte strings, as Go's are.
\<close>

section \<open>Characters\<close>

definition digit :: "char \<Rightarrow> bool" where
  "digit c \<longleftrightarrow> CHR ''0'' \<le> c \<and> c \<le> CHR ''9''"

definition alnum :: "char \<Rightarrow> bool" where
  "alnum c \<longleftrightarrow> digit c \<or> (CHR ''A'' \<le> c \<and> c \<le> CHR ''Z'') \<or> (CHR ''a'' \<le> c \<and> c \<le> CHR ''z'')"

text \<open>\<open>[0-9A-Za-z.-]\<close> and \<open>[[:space:]]\<close>.\<close>

definition label_char :: "char \<Rightarrow> bool" where
  "label_char c \<longleftrightarrow> alnum c \<or> c = CHR ''.'' \<or> c = CHR ''-''"

definition posix_space :: "char \<Rightarrow> bool" where
  "posix_space c \<longleftrightarrow> c = CHR '' '' \<or> (CHR 0x09 \<le> c \<and> c \<le> CHR 0x0D)"

definition number :: "string \<Rightarrow> bool" where
  "number s \<longleftrightarrow> s \<noteq> [] \<and> list_all digit s"

definition label :: "string \<Rightarrow> bool" where
  "label s \<longleftrightarrow> s \<noteq> [] \<and> list_all label_char s"

lemma char_facts [simp]: "\<not> digit CHR ''.''" "\<not> digit CHR ''-''" "\<not> digit CHR ''+''"
  "\<not> label_char CHR ''+''"
  by (simp_all add: digit_def label_char_def alnum_def)

lemma space_not_digit: "posix_space c \<Longrightarrow> \<not> digit c \<and> c \<noteq> CHR ''.''"
proof -
  have "CHR 0x0D < CHR ''0''" by simp
  then show "posix_space c \<Longrightarrow> \<not> digit c \<and> c \<noteq> CHR ''.''"
    by (auto simp: posix_space_def digit_def dest: order_trans)
qed

text \<open>A greedy repetition: the longest prefix in the class, and the rest.\<close>

definition munch :: "(char \<Rightarrow> bool) \<Rightarrow> string \<Rightarrow> string \<times> string" where
  "munch p s = (takeWhile p s, dropWhile p s)"

lemma munch_append:
  "list_all p a \<Longrightarrow> (r = [] \<or> \<not> p (hd r)) \<Longrightarrow> munch p (a @ r) = (a, r)"
  by (induction a) (auto simp: munch_def takeWhile_eq_Nil_iff dropWhile_eq_self_iff)

lemma munch_eq:
  "munch p s = (a, r) \<Longrightarrow> s = a @ r \<and> list_all p a \<and> (r = [] \<or> \<not> p (hd r))"
  by (auto simp: munch_def list_all_iff dest: set_takeWhileD hd_dropWhile)

section \<open>The user agent\<close>

text \<open>\<open>Playwright/([0-9]+)\.([0-9]+)(\.[0-9]+)?([[:space:]]|$)\<close>\<close>

definition at_boundary :: "string \<Rightarrow> bool" where
  "at_boundary s \<longleftrightarrow> (case s of [] \<Rightarrow> True | c # _ \<Rightarrow> posix_space c)"

definition agent_marker :: string where
  "agent_marker = ''Playwright/''"

definition agent_at :: "string \<Rightarrow> (string \<times> string) option" where
  "agent_at s =
    (if \<not> prefix agent_marker s then None
     else case munch digit (drop (length agent_marker) s) of (major, r1) \<Rightarrow>
       (if major = [] \<or> r1 = [] \<or> hd r1 \<noteq> CHR ''.'' then None
        else case munch digit (tl r1) of (minor, r2) \<Rightarrow>
          (if minor = [] then None
           else if at_boundary r2 then Some (major, minor)
           else if hd r2 \<noteq> CHR ''.'' then None
           else case munch digit (tl r2) of (patch, r3) \<Rightarrow>
             (if patch \<noteq> [] \<and> at_boundary r3 then Some (major, minor) else None))))"

fun find_agent :: "string \<Rightarrow> (string \<times> string) option" where
  "find_agent [] = agent_at []"
| "find_agent (c # s) = (case agent_at (c # s) of Some m \<Rightarrow> Some m | None \<Rightarrow> find_agent s)"

definition UserAgentVersion :: "string \<Rightarrow> (string \<times> string) option" where
  "UserAgentVersion user_agent =
    (case find_agent user_agent of
       None \<Rightarrow> None
     | Some (major, minor) \<Rightarrow> Some (major @ ''.'' @ minor, major @ ''.'' @ minor @ ''.''))"

text \<open>The language of the expression at the start of a string.\<close>

definition agent_language :: "string \<Rightarrow> string \<Rightarrow> string \<Rightarrow> bool" where
  "agent_language s major minor \<longleftrightarrow>
     (\<exists>patch rest. s = agent_marker @ major @ ''.'' @ minor @ patch @ rest \<and> number major \<and> number minor
        \<and> (patch = [] \<or> (\<exists>n. patch = CHR ''.'' # n \<and> number n)) \<and> at_boundary rest)"

lemma boundary_stop: "at_boundary r \<Longrightarrow> r = [] \<or> \<not> digit (hd r)"
  by (auto simp: at_boundary_def space_not_digit split: list.splits)

lemma agent_at_sound: "agent_at s = Some (major, minor) \<Longrightarrow> agent_language s major minor"
proof -
  assume a: "agent_at s = Some (major, minor)"
  then obtain s1 where s: "s = agent_marker @ s1"
    by (auto simp: agent_at_def prefix_def split: if_splits)
  obtain r1 r2 where m: "munch digit s1 = (major, CHR ''.'' # r1)" "munch digit r1 = (minor, r2)"
    "major \<noteq> []" "minor \<noteq> []"
    and t: "at_boundary r2 \<or> (\<exists>r3 patch r4. r2 = CHR ''.'' # r3 \<and> munch digit r3 = (patch, r4)
      \<and> patch \<noteq> [] \<and> at_boundary r4)"
  proof -
    obtain mj r1 where m1: "munch digit s1 = (mj, r1)" by fastforce
    with a s have g: "mj = major" "major \<noteq> []" "r1 \<noteq> []" "hd r1 = CHR ''.''"
      by (auto simp: agent_at_def split: if_splits prod.splits)
    then obtain r1' where r1: "r1 = CHR ''.'' # r1'" by (cases r1) auto
    obtain mn r2 where m2: "munch digit r1' = (mn, r2)" by fastforce
    obtain p r4 where m3: "munch digit (tl r2) = (p, r4)" by fastforce
    have k: "mn = minor" "minor \<noteq> []"
      "at_boundary r2 \<or> (hd r2 = CHR ''.'' \<and> p \<noteq> [] \<and> at_boundary r4)"
      using a s m1 g r1 m2 m3 by (auto simp: agent_at_def split: if_splits)
    have t: "at_boundary r2 \<or> (\<exists>r3 patch r4. r2 = CHR ''.'' # r3 \<and> munch digit r3 = (patch, r4)
      \<and> patch \<noteq> [] \<and> at_boundary r4)"
      using k(3) m3 by (cases r2) (auto simp: munch_def)
    show ?thesis using that [of r1' r2] m1 m2 g r1 k t by simp
  qed
  have n: "number major" "number minor" and s1: "s1 = major @ ''.'' @ minor @ r2"
    using m munch_eq [OF m(1)] munch_eq [OF m(2)] by (auto simp: number_def)
  from t show "agent_language s major minor"
  proof (elim disjE exE conjE)
    assume "at_boundary r2"
    then show ?thesis unfolding agent_language_def using s s1 n
      by (intro exI [of _ "[]"] exI [of _ r2]) simp
  next
    fix r3 patch r4
    assume p: "r2 = CHR ''.'' # r3" "munch digit r3 = (patch, r4)" "patch \<noteq> []" "at_boundary r4"
    then have "number patch" "r3 = patch @ r4" using munch_eq [OF p(2)] by (auto simp: number_def)
    with p s s1 n show ?thesis unfolding agent_language_def
      by (intro exI [of _ "CHR ''.'' # patch"] exI [of _ r4]) simp
  qed
qed

lemma agent_at_complete: "agent_language s major minor \<Longrightarrow> agent_at s = Some (major, minor)"
proof -
  assume "agent_language s major minor"
  then obtain patch r where s: "s = agent_marker @ major @ ''.'' @ minor @ patch @ r"
    and n: "number major" "number minor" and p: "patch = [] \<or> (\<exists>n. patch = CHR ''.'' # n \<and> number n)"
    and b: "at_boundary r" by (auto simp: agent_language_def)
  have m1: "munch digit (major @ CHR ''.'' # minor @ patch @ r) = (major, CHR ''.'' # minor @ patch @ r)"
    using n(1) by (intro munch_append) (auto simp: number_def)
  have m2: "munch digit (minor @ patch @ r) = (minor, patch @ r)"
    using n(2) p boundary_stop [OF b] by (intro munch_append) (auto simp: number_def)
  from p show ?thesis
  proof
    assume "patch = []"
    with s n m1 m2 b show ?thesis by (simp add: agent_at_def number_def)
  next
    assume "\<exists>k. patch = CHR ''.'' # k \<and> number k"
    then obtain k where k: "patch = CHR ''.'' # k" "number k" by blast
    have "munch digit (k @ r) = (k, r)"
      using k(2) boundary_stop [OF b] by (intro munch_append) (auto simp: number_def)
    with s n m1 m2 b k show ?thesis
      by (simp add: agent_at_def number_def)
  qed
qed

lemma agent_at_iff: "agent_at s = Some (major, minor) \<longleftrightarrow> agent_language s major minor"
  using agent_at_sound agent_at_complete by blast

text \<open>The search returns the leftmost match, and fails only if there is none.\<close>

lemma find_agent_Some:
  "find_agent s = Some m \<longleftrightarrow>
    (\<exists>pre suf. s = pre @ suf \<and> agent_at suf = Some m
       \<and> (\<forall>k < length pre. agent_at (drop k s) = None))"
proof (induction s)
  case Nil
  then show ?case by simp
next
  case (Cons c s)
  show ?case
  proof (cases "agent_at (c # s)")
    case None
    have "(\<exists>pre suf. c # s = pre @ suf \<and> agent_at suf = Some m
         \<and> (\<forall>k < length pre. agent_at (drop k (c # s)) = None))
      \<longleftrightarrow> (\<exists>pre suf. s = pre @ suf \<and> agent_at suf = Some m
         \<and> (\<forall>k < length pre. agent_at (drop k s) = None))" (is "?L = ?R")
    proof
      assume ?L
      then obtain pre suf where p: "c # s = pre @ suf" "agent_at suf = Some m"
        "\<forall>k < length pre. agent_at (drop k (c # s)) = None" by blast
      with None obtain pre' where "pre = c # pre'" by (cases pre) auto
      with p show ?R by (intro exI [of _ pre'] exI [of _ suf]) auto
    next
      assume ?R
      then obtain pre suf where p: "s = pre @ suf" "agent_at suf = Some m"
        "\<forall>k < length pre. agent_at (drop k s) = None" by blast
      with None show ?L
        by (intro exI [of _ "c # pre"] exI [of _ suf]) (auto simp: drop_Cons split: nat.splits)
    qed
    with None Cons.IH show ?thesis by simp
  next
    case (Some x)
    have "(\<exists>pre suf. c # s = pre @ suf \<and> agent_at suf = Some m
         \<and> (\<forall>k < length pre. agent_at (drop k (c # s)) = None)) \<longleftrightarrow> x = m"
    proof
      assume "\<exists>pre suf. c # s = pre @ suf \<and> agent_at suf = Some m
         \<and> (\<forall>k < length pre. agent_at (drop k (c # s)) = None)"
      then obtain pre suf where p: "c # s = pre @ suf" "agent_at suf = Some m"
        "\<forall>k < length pre. agent_at (drop k (c # s)) = None" by blast
      with Some have "pre = []" by (cases pre) auto
      with p Some show "x = m" by simp
    next
      assume "x = m"
      with Some show "\<exists>pre suf. c # s = pre @ suf \<and> agent_at suf = Some m
         \<and> (\<forall>k < length pre. agent_at (drop k (c # s)) = None)"
        by (intro exI [of _ "[]"] exI [of _ "c # s"]) simp
    qed
    with Some show ?thesis by simp
  qed
qed

lemma find_agent_None: "find_agent s = None \<longleftrightarrow> (\<forall>k. agent_at (drop k s) = None)"
proof (induction s)
  case Nil
  then show ?case by simp
next
  case (Cons c s)
  have "(\<forall>k. agent_at (drop k (c # s)) = None) \<longleftrightarrow>
      agent_at (c # s) = None \<and> (\<forall>k. agent_at (drop k s) = None)"
    by (metis drop0 drop_Suc_Cons nat.exhaust)
  with Cons show ?case by (auto split: option.splits)
qed

lemma agent_at_None: "agent_at s = None \<longleftrightarrow> (\<nexists>major minor. agent_language s major minor)"
  using agent_at_iff by (metis not_None_eq old.prod.exhaust)

section \<open>The version a client asks for\<close>

text \<open>\<open>^([0-9]+)\.([0-9]+)(\.[0-9]+(-[0-9A-Za-z.-]+)?(\+[0-9A-Za-z.-]+)?)?$\<close>\<close>

definition strip_label :: "char \<Rightarrow> string \<Rightarrow> string option" where
  "strip_label mark s =
    (if s = [] \<or> hd s \<noteq> mark then Some s
     else case munch label_char (tl s) of (l, r) \<Rightarrow> if l = [] then None else Some r)"

definition match_version :: "string \<Rightarrow> (string \<times> string) option" where
  "match_version s =
    (case munch digit s of (major, r1) \<Rightarrow>
      (if major = [] \<or> r1 = [] \<or> hd r1 \<noteq> CHR ''.'' then None
       else case munch digit (tl r1) of (minor, r2) \<Rightarrow>
         (if minor = [] then None
          else if r2 = [] then Some (major, minor)
          else if hd r2 \<noteq> CHR ''.'' then None
          else case munch digit (tl r2) of (patch, r3) \<Rightarrow>
            (if patch = [] then None
             else case strip_label (CHR ''-'') r3 of
                None \<Rightarrow> None
              | Some r4 \<Rightarrow> (case strip_label (CHR ''+'') r4 of
                   None \<Rightarrow> None
                 | Some r5 \<Rightarrow> if r5 = [] then Some (major, minor) else None)))))"

definition VersionPrefix :: "string \<Rightarrow> string option" where
  "VersionPrefix version =
    (case match_version version of
       None \<Rightarrow> None
     | Some (major, minor) \<Rightarrow> Some (major @ ''.'' @ minor @ ''.''))"

definition version_language :: "string \<Rightarrow> string \<Rightarrow> string \<Rightarrow> bool" where
  "version_language s major minor \<longleftrightarrow> number major \<and> number minor \<and>
     (s = major @ ''.'' @ minor
      \<or> (\<exists>patch pre build. s = major @ ''.'' @ minor @ ''.'' @ patch @ pre @ build \<and> number patch
           \<and> (pre = [] \<or> (\<exists>l. pre = CHR ''-'' # l \<and> label l))
           \<and> (build = [] \<or> (\<exists>l. build = CHR ''+'' # l \<and> label l))))"

lemma strip_label_Some:
  assumes "mark \<in> {CHR ''-'', CHR ''+''}"
  shows "strip_label mark s = Some r \<Longrightarrow>
    \<exists>pre. s = pre @ r \<and> (pre = [] \<or> (\<exists>l. pre = mark # l \<and> label l))"
proof -
  assume st: "strip_label mark s = Some r"
  show ?thesis
  proof (cases "s = [] \<or> hd s \<noteq> mark")
    case True
    with st show ?thesis by (intro exI [of _ "[]"]) (auto simp: strip_label_def)
  next
    case False
    then obtain t where s: "s = mark # t" by (cases s) auto
    obtain l r' where m: "munch label_char t = (l, r')" by fastforce
    with st s have "l \<noteq> []" "r' = r" by (auto simp: strip_label_def split: if_splits)
    with munch_eq [OF m] s show ?thesis
      by (intro exI [of _ "mark # l"]) (auto simp: label_def)
  qed
qed

lemma strip_label_append:
  assumes "pre = [] \<and> (r = [] \<or> hd r \<noteq> mark) \<or> (\<exists>l. pre = mark # l \<and> label l) \<and> (r = [] \<or> \<not> label_char (hd r))"
  shows "strip_label mark (pre @ r) = Some r"
  using assms
proof (elim disjE conjE exE)
  fix l assume "pre = mark # l" "label l" "r = [] "
  then show ?thesis using munch_append [of label_char l "[]"] by (auto simp: strip_label_def label_def)
next
  fix l assume "pre = mark # l" "label l" "\<not> label_char (hd r)"
  then show ?thesis using munch_append [of label_char l r] by (auto simp: strip_label_def label_def)
qed (auto simp: strip_label_def)

lemma match_version_complete: "version_language s major minor \<Longrightarrow> match_version s = Some (major, minor)"
proof -
  assume "version_language s major minor"
  then have n: "number major" "number minor" and d: "s = major @ ''.'' @ minor
      \<or> (\<exists>patch pre build. s = major @ ''.'' @ minor @ ''.'' @ patch @ pre @ build \<and> number patch
           \<and> (pre = [] \<or> (\<exists>l. pre = CHR ''-'' # l \<and> label l))
           \<and> (build = [] \<or> (\<exists>l. build = CHR ''+'' # l \<and> label l)))"
    by (auto simp: version_language_def)
  have m1: "munch digit (major @ CHR ''.'' # r) = (major, CHR ''.'' # r)" for r
    using n(1) by (intro munch_append) (auto simp: number_def)
  have m2: "munch digit (minor @ CHR ''.'' # r) = (minor, CHR ''.'' # r)" for r
    using n(2) by (intro munch_append) (auto simp: number_def)
  have m2': "munch digit minor = (minor, [])"
    using n(2) munch_append [of digit minor "[]"] by (auto simp: number_def)
  from d consider (bare) "s = major @ ''.'' @ minor"
    | (full) patch pre build where "s = major @ ''.'' @ minor @ ''.'' @ patch @ pre @ build" "number patch"
      "pre = [] \<or> (\<exists>l. pre = CHR ''-'' # l \<and> label l)"
      "build = [] \<or> (\<exists>l. build = CHR ''+'' # l \<and> label l)"
    by blast
  then show ?thesis
  proof cases
    case bare
    with m1 [of minor] m2' n show ?thesis by (simp add: match_version_def number_def)
  next
    case full
    note s = full(1) and p = full(2) and pre = full(3) and build = full(4)
    have m3: "munch digit (patch @ pre @ build) = (patch, pre @ build)"
      using p pre build by (intro munch_append) (auto simp: number_def)
    have l1: "strip_label (CHR ''-'') (pre @ build) = Some build"
      using pre build by (intro strip_label_append) auto
    have l2: "strip_label (CHR ''+'') build = Some []"
      using strip_label_append [of build "[]" "CHR ''+''"] build by auto
    show ?thesis
      using s m1 m2 m3 l1 l2 n p by (simp add: match_version_def number_def)
  qed
qed

lemma match_version_sound: "match_version s = Some (major, minor) \<Longrightarrow> version_language s major minor"
proof -
  assume a: "match_version s = Some (major, minor)"
  obtain mj r1 where m1: "munch digit s = (mj, r1)" by fastforce
  with a have g: "mj = major" "major \<noteq> []" "r1 \<noteq> []" "hd r1 = CHR ''.''"
    by (auto simp: match_version_def split: if_splits prod.splits option.splits)
  then obtain r1' where r1: "r1 = CHR ''.'' # r1'" by (cases r1) auto
  obtain mn r2 where m2: "munch digit r1' = (mn, r2)" by fastforce
  with a m1 g r1 have h: "mn = minor" "minor \<noteq> []"
    by (auto simp: match_version_def split: if_splits prod.splits option.splits)
  have n: "number major" "number minor" and s: "s = major @ ''.'' @ minor @ r2"
    using munch_eq [OF m1] munch_eq [OF m2] g h r1 by (auto simp: number_def)
  show ?thesis
  proof (cases r2)
    case Nil
    with n s show ?thesis by (simp add: version_language_def)
  next
    case (Cons c r2')
    obtain p r3 where m3: "munch digit r2' = (p, r3)" by fastforce
    obtain r4 where k: "c = CHR ''.''" "p \<noteq> []" "strip_label (CHR ''-'') r3 = Some r4"
        "strip_label (CHR ''+'') r4 = Some []"
      using a m1 g r1 m2 h Cons m3
      by (auto simp: match_version_def split: if_splits option.splits)
    from strip_label_Some [OF _ k(3)] strip_label_Some [OF _ k(4)] obtain pre build where
      "r3 = pre @ r4" "pre = [] \<or> (\<exists>l. pre = CHR ''-'' # l \<and> label l)"
      "r4 = build" "build = [] \<or> (\<exists>l. build = CHR ''+'' # l \<and> label l)" by auto
    moreover have "number p" "r2' = p @ r3" using munch_eq [OF m3] k(2) by (auto simp: number_def)
    ultimately show ?thesis
      unfolding version_language_def using n s Cons k(1) by auto
  qed
qed

lemma match_version_iff: "match_version s = Some (major, minor) \<longleftrightarrow> version_language s major minor"
  using match_version_complete match_version_sound by blast

section \<open>Prefixes identify a minor version\<close>

lemma number_prefix_unique:
  assumes "number a" "number b" and "prefix (a @ CHR ''.'' # x) v" and "prefix (b @ CHR ''.'' # y) v"
  shows "a = b \<and> (\<exists>z. prefix x z \<and> prefix y z \<and> v = a @ CHR ''.'' # z)"
proof -
  from assms(3) obtain r where v1: "v = a @ CHR ''.'' # x @ r" by (auto elim: prefixE)
  from assms(4) obtain s where v2: "v = b @ CHR ''.'' # y @ s" by (auto elim: prefixE)
  have "munch digit v = (a, CHR ''.'' # x @ r)"
    unfolding v1 using assms(1) by (intro munch_append) (auto simp: number_def)
  moreover have "munch digit v = (b, CHR ''.'' # y @ s)"
    unfolding v2 using assms(2) by (intro munch_append) (auto simp: number_def)
  ultimately have e: "a = b" "x @ r = y @ s" by auto
  have "prefix x (x @ r)" by simp
  moreover have "prefix y (x @ r)" unfolding e(2) by simp
  moreover note v1 e(1)
  ultimately show ?thesis by auto
qed

lemma minor_prefix_unique:
  assumes "number a" "number b" "number c" "number d"
    and "prefix (a @ ''.'' @ b @ ''.'') v" and "prefix (c @ ''.'' @ d @ ''.'') v"
  shows "a = c \<and> b = d"
proof -
  from number_prefix_unique [of a c "b @ ''.''" v "d @ ''.''"] assms obtain z where
    "a = c" "prefix (b @ ''.'') z" "prefix (d @ ''.'') z" by auto
  with number_prefix_unique [of b d "[]" z "[]"] assms(2,4) show ?thesis by simp
qed

text \<open>A version that starts with the prefix of another has the same major and minor number.\<close>

lemma prefix_of_version:
  assumes "version_language v a b" and "number c" "number d" and "prefix (c @ ''.'' @ d @ ''.'') v"
  shows "VersionPrefix v = Some (c @ ''.'' @ d @ ''.'')"
proof -
  have m: "match_version v = Some (a, b)" using assms(1) by (simp add: match_version_iff)
  have n: "number a" "number b" using assms(1) by (auto simp: version_language_def)
  have "prefix (a @ ''.'' @ b @ ''.'') (a @ ''.'' @ b @ ''.'' @ r)" for r by (simp add: prefix_def)
  with assms(1) consider "v = a @ ''.'' @ b" | "prefix (a @ ''.'' @ b @ ''.'') v"
    unfolding version_language_def by metis
  then have "a = c \<and> b = d"
  proof cases
    case 1
    then have v: "v = a @ CHR ''.'' # b" by simp
    then have pa: "prefix (a @ CHR ''.'' # b) v" by simp
    have pc: "prefix (c @ CHR ''.'' # (d @ ''.'')) v" using assms(4) by simp
    from number_prefix_unique [OF n(1) assms(2) pa pc] obtain z where
      "prefix (d @ ''.'') z" "v = a @ CHR ''.'' # z" by blast
    with v have "prefix (d @ ''.'') b" by simp
    then have "CHR ''.'' \<in> set b" by (auto elim!: prefixE)
    moreover have "list_all digit b" using n(2) by (simp add: number_def)
    ultimately have "digit CHR ''.''" by (simp only: list_all_iff)
    then show ?thesis by simp
  next
    case 2
    with minor_prefix_unique [OF n assms(2,3) 2 assms(4)] show ?thesis by simp
  qed
  with m show ?thesis by (simp add: VersionPrefix_def)
qed

lemma agent_numbers: "UserAgentVersion ua = Some (v, p) \<Longrightarrow>
    \<exists>c d. number c \<and> number d \<and> p = c @ ''.'' @ d @ ''.''"
proof -
  assume "UserAgentVersion ua = Some (v, p)"
  then obtain c d where f: "find_agent ua = Some (c, d)" "p = c @ ''.'' @ d @ ''.''"
    by (auto simp: UserAgentVersion_def split: option.splits)
  from f(1) obtain suf where "agent_at suf = Some (c, d)" unfolding find_agent_Some by blast
  then have "number c" "number d" by (auto simp: agent_at_iff agent_language_def)
  with f(2) show ?thesis by blast
qed

end
