(* ===== verification/Relay_Manager.thy ===== *)
theory Relay_Manager
  imports Fleet
begin

text \<open>
  \<open>internal/relay/manager.go\<close>: the reservations and relays of one server process, its shutdown,
  and what ends a relay. The manager's fields change only under its mutex, so each locked section
  is one operation; the handlers, the relays' goroutines and the shutdown interleave them.
\<close>

section \<open>Events\<close>

record relay_event =
  ev_code :: int
  ev_reason :: string
  ev_normal :: bool
  ev_err :: "error option"

definition CloseNormalClosure :: int where "CloseNormalClosure = 1000"
definition CloseGoingAway :: int where "CloseGoingAway = 1001"
definition CloseNoStatusReceived :: int where "CloseNoStatusReceived = 1005"
definition CloseInternalServerErr :: int where "CloseInternalServerErr = 1011"

text \<open>The named codes are 1000 to 1003, 1007 to 1013.\<close>

definition isValidReceivedCloseCode :: "int \<Rightarrow> bool" where
  "isValidReceivedCloseCode code \<longleftrightarrow>
     code \<in> set [1000, 1001, 1002, 1003, 1007, 1008, 1009, 1010, 1011, 1012, 1013]
     \<or> (code \<ge> 3000 \<and> code \<le> 4999)"

definition isNormalCloseCode :: "int \<Rightarrow> bool" where
  "isNormalCloseCode code \<longleftrightarrow>
     code = CloseNormalClosure \<or> code = CloseGoingAway \<or> code = CloseNoStatusReceived"

definition errorEvent :: "error \<Rightarrow> relay_event" where
  "errorEvent err =
    (case errors_As_close err of
       Some (code, text) \<Rightarrow>
         (if code \<noteq> CloseNoStatusReceived \<and> \<not> isValidReceivedCloseCode code
          then \<lparr>ev_code = CloseInternalServerErr, ev_reason = ''peer connection lost'',
                ev_normal = False, ev_err = Some err\<rparr>
          else \<lparr>ev_code = code, ev_reason = text, ev_normal = isNormalCloseCode code,
                ev_err = Some err\<rparr>)
     | None \<Rightarrow> \<lparr>ev_code = CloseInternalServerErr, ev_reason = ''relay error'',
                ev_normal = False, ev_err = Some err\<rparr>)"

definition shutdown_event :: relay_event where
  "shutdown_event = \<lparr>ev_code = CloseGoingAway, ev_reason = ''server shutting down'',
     ev_normal = True, ev_err = None\<rparr>"

text \<open>The relay's channel holds four events; \<open>stop\<close> drops what does not fit.\<close>

definition event_capacity :: nat where
  "event_capacity = 4"

definition send_event :: "relay_event \<Rightarrow> relay_event list \<Rightarrow> relay_event list" where
  "send_event e es = (if length es < event_capacity then es @ [e] else es)"

section \<open>The manager\<close>

text \<open>
  \<open>mg_live\<close> maps a session to the channel behind its \<open>stop\<close> function; \<open>mg_wg\<close> is the wait group's
  counter, whose \<open>Done\<close> at zero panics (\<open>None\<close>).
\<close>

record manager =
  mg_draining :: bool
  mg_live :: "uuid \<rightharpoonup> relay_event list"
  mg_wg :: nat

definition NewManager :: manager where
  "NewManager = \<lparr>mg_draining = False, mg_live = Map.empty, mg_wg = 0\<rparr>"

definition wg_Done :: "manager \<Rightarrow> manager option" where
  "wg_Done m = (if mg_wg m = 0 then None else Some (m\<lparr>mg_wg := mg_wg m - 1\<rparr>))"

definition Accepting :: "manager \<Rightarrow> bool" where
  "Accepting m \<longleftrightarrow> \<not> mg_draining m"

definition BeginAttach :: "manager \<Rightarrow> error + manager" where
  "BeginAttach m = (if mg_draining m then Inl ErrRelayDraining else Inr (m\<lparr>mg_wg := mg_wg m + 1\<rparr>))"

text \<open>\<open>consumed\<close> is the reservation's \<open>sync.Once\<close>.\<close>

definition Release :: "bool \<Rightarrow> manager \<Rightarrow> manager option" where
  "Release consumed m = (if consumed then Some m else wg_Done m)"

datatype register_result = RegisterAccepted | RegisterDraining | RegisterDuplicate

definition register :: "uuid \<Rightarrow> manager \<Rightarrow> register_result \<times> manager" where
  "register i m =
    (if mg_draining m then (RegisterDraining, m)
     else if mg_live m i \<noteq> None then (RegisterDuplicate, m)
     else (RegisterAccepted, m\<lparr>mg_live := (mg_live m)(i \<mapsto> [])\<rparr>))"

definition unregister :: "uuid \<Rightarrow> manager \<Rightarrow> manager option" where
  "unregister i m = wg_Done (m\<lparr>mg_live := (mg_live m)(i := None)\<rparr>)"

definition stop :: "uuid \<Rightarrow> relay_event \<Rightarrow> manager \<Rightarrow> manager" where
  "stop i e m = m\<lparr>mg_live := (mg_live m)(i := map_option (send_event e) (mg_live m i))\<rparr>"

definition begin_draining :: "manager \<Rightarrow> manager" where
  "begin_draining m = m\<lparr>mg_draining := True\<rparr>"

definition stop_all :: "manager \<Rightarrow> manager" where
  "stop_all m = m\<lparr>mg_live := \<lambda>i. map_option (send_event shutdown_event) (mg_live m i)\<rparr>"

section \<open>Attachments and the shutdown\<close>

text \<open>
  An attachment in its handler: reserved, refused by \<open>register\<close>, relaying, closing on the event it
  selected, returned from \<open>Run\<close>, done with the deferred \<open>Release\<close>.
\<close>

datatype attachment =
    Reserved uuid
  | Refused uuid register_result
  | Relaying uuid
  | Closing uuid relay_event
  | Returned uuid relay_event
  | Ended

datatype shutdown_phase = Serving | Waiting | Forcing | Drained | Abandoned

record relays =
  manager :: manager
  attachments :: "attachment list"
  phase :: shutdown_phase

definition set_attachment :: "nat \<Rightarrow> attachment \<Rightarrow> manager \<Rightarrow> relays \<Rightarrow> relays" where
  "set_attachment a x m r = r\<lparr>manager := m, attachments := (attachments r)[a := x]\<rparr>"

inductive relay_step :: "relays \<Rightarrow> relays \<Rightarrow> bool" where
  rs_begin: "BeginAttach (manager r) = Inr m \<Longrightarrow>
    relay_step r (r\<lparr>manager := m, attachments := attachments r @ [Reserved i]\<rparr>)"
| rs_release: "a < length (attachments r) \<Longrightarrow> attachments r ! a = Reserved i \<Longrightarrow>
    Release False (manager r) = Some m \<Longrightarrow> relay_step r (set_attachment a Ended m r)"
| rs_register: "a < length (attachments r) \<Longrightarrow> attachments r ! a = Reserved i \<Longrightarrow>
    register i (manager r) = (RegisterAccepted, m) \<Longrightarrow> relay_step r (set_attachment a (Relaying i) m r)"
| rs_refuse: "a < length (attachments r) \<Longrightarrow> attachments r ! a = Reserved i \<Longrightarrow>
    register i (manager r) = (res, m) \<Longrightarrow> res \<noteq> RegisterAccepted \<Longrightarrow>
    relay_step r (set_attachment a (Refused i res) m r)"
| rs_release_refused: "a < length (attachments r) \<Longrightarrow> attachments r ! a = Refused i res \<Longrightarrow>
    Release False (manager r) = Some m \<Longrightarrow> relay_step r (set_attachment a Ended m r)"
| rs_event: "relay_step r (r\<lparr>manager := stop i e (manager r)\<rparr>)"
| rs_select: "a < length (attachments r) \<Longrightarrow> attachments r ! a = Relaying i \<Longrightarrow>
    mg_live (manager r) i = Some (e # es) \<Longrightarrow>
    relay_step r (set_attachment a (Closing i e)
      ((manager r)\<lparr>mg_live := (mg_live (manager r))(i \<mapsto> es)\<rparr>) r)"
| rs_unregister: "a < length (attachments r) \<Longrightarrow> attachments r ! a = Closing i e \<Longrightarrow>
    unregister i (manager r) = Some m \<Longrightarrow> relay_step r (set_attachment a (Returned i e) m r)"
| rs_release_consumed: "a < length (attachments r) \<Longrightarrow> attachments r ! a = Returned i e \<Longrightarrow>
    Release True (manager r) = Some m \<Longrightarrow> relay_step r (set_attachment a Ended m r)"
| rs_shutdown: "phase r = Serving \<Longrightarrow>
    relay_step r (r\<lparr>manager := begin_draining (manager r), phase := Waiting\<rparr>)"
| rs_drained: "phase r = Waiting \<or> phase r = Forcing \<Longrightarrow> mg_wg (manager r) = 0 \<Longrightarrow>
    relay_step r (r\<lparr>phase := Drained\<rparr>)"
| rs_grace_over: "phase r = Waiting \<Longrightarrow>
    relay_step r (r\<lparr>manager := stop_all (manager r), phase := Forcing\<rparr>)"
| rs_cancelled: "phase r = Waiting \<or> phase r = Forcing \<Longrightarrow> relay_step r (r\<lparr>phase := Abandoned\<rparr>)"

definition fresh_relays :: relays where
  "fresh_relays = \<lparr>manager = NewManager, attachments = [], phase = Serving\<rparr>"

section \<open>The invariant\<close>

text \<open>An attachment that still owes the wait group a \<open>Done\<close>, and one whose session is registered.\<close>

fun owing :: "attachment \<Rightarrow> bool" where
  "owing (Returned i e) = False"
| "owing Ended = False"
| "owing _ = True"

fun registered :: "attachment \<Rightarrow> uuid option" where
  "registered (Relaying i) = Some i"
| "registered (Closing i e) = Some i"
| "registered _ = None"

definition registered_ids :: "attachment list \<Rightarrow> uuid list" where
  "registered_ids as = List.map_filter registered as"

definition relays_inv :: "relays \<Rightarrow> bool" where
  "relays_inv r \<longleftrightarrow>
     mg_wg (manager r) = length (filter owing (attachments r))
     \<and> distinct (registered_ids (attachments r))
     \<and> dom (mg_live (manager r)) = set (registered_ids (attachments r))
     \<and> (mg_draining (manager r) \<longleftrightarrow> phase r \<noteq> Serving)
     \<and> (phase r = Forcing \<longrightarrow> (\<forall>i. Relaying i \<in> set (attachments r) \<longrightarrow>
          (\<exists>e es. mg_live (manager r) i = Some (e # es))))
     \<and> (phase r = Drained \<longrightarrow> mg_wg (manager r) = 0)"

lemma map_filter_Cons: "List.map_filter f (x # xs) =
    (case f x of None \<Rightarrow> List.map_filter f xs | Some y \<Rightarrow> y # List.map_filter f xs)"
  by (simp add: map_filter_def split: option.splits)

lemma map_filter_append [simp]: "List.map_filter f (xs @ ys) = List.map_filter f xs @ List.map_filter f ys"
  by (simp add: map_filter_def)

lemma registered_split:
  "a < length as \<Longrightarrow> registered_ids as =
    registered_ids (take a as) @ (case registered (as ! a) of None \<Rightarrow> [] | Some i \<Rightarrow> [i])
      @ registered_ids (drop (Suc a) as)"
proof -
  assume "a < length as"
  then have "as = take a as @ as ! a # drop (Suc a) as" by (rule id_take_nth_drop)
  then have "registered_ids as = registered_ids (take a as @ as ! a # drop (Suc a) as)" by simp
  then show ?thesis
    by (simp add: registered_ids_def map_filter_Cons split: option.splits)
qed

lemma registered_update:
  "a < length as \<Longrightarrow> registered_ids (as[a := x]) =
    registered_ids (take a as) @ (case registered x of None \<Rightarrow> [] | Some i \<Rightarrow> [i])
      @ registered_ids (drop (Suc a) as)"
  by (subst registered_split [of a]) simp_all

lemma owing_update:
  "a < length as \<Longrightarrow> length (filter owing (as[a := x])) + (if owing (as ! a) then 1 else 0)
    = length (filter owing as) + (if owing x then 1 else 0)"
proof (induction as arbitrary: a)
  case Nil
  then show ?case by simp
next
  case (Cons y as)
  show ?case
  proof (cases a)
    case 0
    then show ?thesis by simp
  next
    case (Suc b)
    with Cons.prems Cons.IH [of b] show ?thesis by auto
  qed
qed

lemma owing_pos: "a < length as \<Longrightarrow> owing (as ! a) \<Longrightarrow> 0 < length (filter owing as)"
  by (auto simp: filter_empty_conv)

text \<open>One attachment moves: the counter and the registered sessions follow it.\<close>

lemma live_ids:
  "registered_ids (attachments (set_attachment a x m r)) =
    registered_ids ((attachments r)[a := x])"
  by (simp add: set_attachment_def)

lemma attachment_inv:
  assumes "relays_inv r" and "a < length (attachments r)"
    and "mg_wg m + (if owing (attachments r ! a) then 1 else 0) = mg_wg (manager r) + (if owing x then 1 else 0)"
    and "mg_draining m = mg_draining (manager r)" and "owing x \<Longrightarrow> owing (attachments r ! a)"
    and "registered x = registered (attachments r ! a) \<and> dom (mg_live m) = dom (mg_live (manager r))
      \<or> (\<exists>i. registered x = Some i \<and> registered (attachments r ! a) = None
           \<and> i \<notin> dom (mg_live (manager r)) \<and> dom (mg_live m) = insert i (dom (mg_live (manager r))))
      \<or> (\<exists>i. registered x = None \<and> registered (attachments r ! a) = Some i
           \<and> dom (mg_live m) = dom (mg_live (manager r)) - {i})"
    and "phase r = Forcing \<Longrightarrow> (\<nexists>i. x = Relaying i)
      \<and> (\<forall>i. i \<noteq> the (registered (attachments r ! a)) \<longrightarrow> mg_live m i = mg_live (manager r) i)
      \<and> (registered (attachments r ! a) = None \<longrightarrow> mg_live m = mg_live (manager r))"
  shows "relays_inv (set_attachment a x m r)"
proof -
  let ?as = "attachments r"
  let ?ids = "registered_ids ?as"
  let ?ids' = "registered_ids (?as[a := x])"
  note old = registered_split [OF assms(2)] and new = registered_update [OF assms(2), of x]
  note inv = assms(1) [unfolded relays_inv_def]
  have w: "mg_wg m = length (filter owing (?as[a := x]))"
    using owing_update [OF assms(2), of x] inv assms(3) by linarith
  have "distinct ?ids' \<and> dom (mg_live m) = set ?ids'"
    using assms(6) inv unfolding old new
    by (elim disjE exE conjE) (auto split: option.splits)
  moreover have "\<exists>e es. mg_live m i = Some (e # es)"
    if "phase r = Forcing" "Relaying i \<in> set (?as[a := x])" for i
  proof -
    from that assms(7) have "Relaying i \<noteq> x" by metis
    from that(2) obtain b where b0: "b < length ?as" "?as[a := x] ! b = Relaying i"
      by (auto simp: in_set_conv_nth)
    with \<open>Relaying i \<noteq> x\<close> assms(2) have "b \<noteq> a" by auto
    with b0 have b: "b < length ?as" "b \<noteq> a" "?as ! b = Relaying i" by simp_all
    then have ri: "Relaying i \<in> set ?as" by (metis nth_mem)
    then have live: "\<exists>e es. mg_live (manager r) i = Some (e # es)" using inv that(1) by blast
    show ?thesis
    proof (cases "registered (?as ! a)")
      case None
      with assms(7) that(1) live show ?thesis by auto
    next
      case (Some j)
      have "i \<noteq> j"
      proof
        assume "i = j"
        have "i \<in> set (registered_ids (take a ?as) @ registered_ids (drop (Suc a) ?as))"
        proof (cases "b < a")
          case True
          with b have "Relaying i \<in> set (take a ?as)" by (metis in_set_conv_nth length_take min_less_iff_conj nth_take)
          then show ?thesis by (force simp: registered_ids_def map_filter_def)
        next
          case False
          with b have "?as ! b = drop (Suc a) ?as ! (b - Suc a)" "b - Suc a < length (drop (Suc a) ?as)" by auto
          with b(3) have "Relaying i \<in> set (drop (Suc a) ?as)" by (metis nth_mem)
          then show ?thesis by (force simp: registered_ids_def map_filter_def)
        qed
        moreover have "distinct ?ids" using inv by blast
        ultimately show False using Some \<open>i = j\<close> unfolding old by auto
      qed
      with assms(7) that(1) Some live show ?thesis by auto
    qed
  qed
  ultimately show ?thesis
    using w inv assms(3-5) owing_pos [OF assms(2)]
    by (auto simp: relays_inv_def set_attachment_def split: if_splits)
qed

lemma wg_Done_Some: "wg_Done m = Some m' \<longleftrightarrow> 0 < mg_wg m \<and> m' = m\<lparr>mg_wg := mg_wg m - 1\<rparr>"
  by (auto simp: wg_Done_def)

lemma register_accepted:
  "register i m = (RegisterAccepted, m') \<longleftrightarrow>
    \<not> mg_draining m \<and> mg_live m i = None \<and> m' = m\<lparr>mg_live := (mg_live m)(i \<mapsto> [])\<rparr>"
  by (auto simp: register_def)

lemma register_refused: "register i m = (res, m') \<Longrightarrow> res \<noteq> RegisterAccepted \<Longrightarrow> m' = m"
  by (auto simp: register_def split: if_splits)

lemma stop_facts:
  "mg_wg (stop i e m) = mg_wg m" "mg_draining (stop i e m) = mg_draining m"
  "dom (mg_live (stop i e m)) = dom (mg_live m)"
  by (auto simp: stop_def split: if_splits)

lemma send_event_head: "es \<noteq> [] \<Longrightarrow> send_event e es \<noteq> [] \<and> hd (send_event e es) = hd es"
  by (simp add: send_event_def)

lemma send_event_Nil [simp]: "send_event e [] = [e]"
  by (simp add: send_event_def event_capacity_def)

lemma send_event_first: "send_event e' (e # es) = e # tl (send_event e' (e # es))"
  by (simp add: send_event_def)

lemma stop_first:
  "mg_live m j = Some (e # es) \<Longrightarrow> \<exists>es'. mg_live (stop i x m) j = Some (e # es')"
  using send_event_first [of x e es] by (auto simp: stop_def)

lemma stop_all_facts:
  "mg_wg (stop_all m) = mg_wg m" "mg_draining (stop_all m) = mg_draining m"
  "dom (mg_live (stop_all m)) = dom (mg_live m)"
  "i \<in> dom (mg_live m) \<Longrightarrow> \<exists>e es. mg_live (stop_all m) i = Some (e # es)"
proof -
  show "i \<in> dom (mg_live m) \<Longrightarrow> \<exists>e es. mg_live (stop_all m) i = Some (e # es)"
  proof -
    assume "i \<in> dom (mg_live m)"
    then obtain es where "mg_live m i = Some es" by blast
    moreover have "\<exists>x xs. send_event shutdown_event es = x # xs"
    proof (cases es)
      case (Cons x xs)
      then show ?thesis using send_event_first [of shutdown_event x xs] by (intro exI) simp
    qed simp
    ultimately show ?thesis by (simp add: stop_all_def)
  qed
qed (auto simp: stop_all_def)

lemma relaying_registered: "Relaying i \<in> set as \<Longrightarrow> i \<in> set (registered_ids as)"
  by (force simp: registered_ids_def map_filter_def)

lemma relays_inv_live:
  "relays_inv r \<Longrightarrow> a < length (attachments r) \<Longrightarrow> registered (attachments r ! a) = Some i \<Longrightarrow>
    i \<in> dom (mg_live (manager r))"
  unfolding relays_inv_def by (auto simp: registered_split [of a "attachments r"])

lemma relay_step_inv:
  assumes "relays_inv r" and "relay_step r r'"
  shows "relays_inv r'"
  using assms(2)
proof (cases rule: relay_step.cases)
  case (rs_begin m i)
  then have "\<not> mg_draining (manager r)" "m = (manager r)\<lparr>mg_wg := mg_wg (manager r) + 1\<rparr>"
    by (auto simp: BeginAttach_def split: if_splits)
  with assms(1) rs_begin(1) show ?thesis
    by (auto simp: relays_inv_def registered_ids_def map_filter_Cons)
next
  case (rs_release a i m)
  show ?thesis unfolding rs_release(1)
    by (rule attachment_inv [OF assms(1) rs_release(2)])
      (use rs_release in \<open>auto simp: Release_def wg_Done_Some\<close>)
next
  case (rs_register a i m)
  then have m: "\<not> mg_draining (manager r)" "mg_live (manager r) i = None"
    "m = (manager r)\<lparr>mg_live := (mg_live (manager r))(i \<mapsto> [])\<rparr>"
    by (auto simp: register_accepted)
  with assms(1) have ph: "phase r = Serving" by (auto simp: relays_inv_def)
  show ?thesis unfolding rs_register(1)
    by (rule attachment_inv [OF assms(1) rs_register(2)]) (use rs_register(3) m ph in auto)
next
  case (rs_refuse a i res m)
  then have m: "m = manager r" by (auto dest: register_refused)
  show ?thesis unfolding rs_refuse(1)
    by (rule attachment_inv [OF assms(1) rs_refuse(2)]) (use rs_refuse(3) m in auto)
next
  case (rs_release_refused a i res m)
  show ?thesis unfolding rs_release_refused(1)
    by (rule attachment_inv [OF assms(1) rs_release_refused(2)])
      (use rs_release_refused in \<open>auto simp: Release_def wg_Done_Some\<close>)
next
  case (rs_event i e)
  have "\<exists>x xs. mg_live (stop i e (manager r)) j = Some (x # xs)"
    if "phase r = Forcing" "Relaying j \<in> set (attachments r)" for j
  proof -
    from that assms(1) obtain x xs where "mg_live (manager r) j = Some (x # xs)"
      unfolding relays_inv_def by blast
    then show ?thesis by (blast dest: stop_first)
  qed
  then show ?thesis
    using assms(1) unfolding rs_event(1) by (auto simp: relays_inv_def stop_facts)
next
  case (rs_select a i e es)
  have "i \<in> dom (mg_live (manager r))" using rs_select(4) by blast
  then have d: "dom ((mg_live (manager r))(i \<mapsto> es)) = dom (mg_live (manager r))" by auto
  show ?thesis unfolding rs_select(1)
    by (rule attachment_inv [OF assms(1) rs_select(2)]) (use rs_select(3,4) d in auto)
next
  case (rs_unregister a i e m)
  then have m: "0 < mg_wg (manager r)"
    "m = (manager r)\<lparr>mg_live := (mg_live (manager r))(i := None), mg_wg := mg_wg (manager r) - 1\<rparr>"
    by (auto simp: unregister_def wg_Done_Some)
  show ?thesis unfolding rs_unregister(1)
    by (rule attachment_inv [OF assms(1) rs_unregister(2)]) (use rs_unregister(3) m in auto)
next
  case (rs_release_consumed a i e m)
  show ?thesis unfolding rs_release_consumed(1)
    by (rule attachment_inv [OF assms(1) rs_release_consumed(2)])
      (use rs_release_consumed in \<open>auto simp: Release_def\<close>)
next
  case rs_shutdown
  with assms(1) show ?thesis by (auto simp: relays_inv_def begin_draining_def)
next
  case rs_drained
  with assms(1) show ?thesis by (auto simp: relays_inv_def)
next
  case rs_grace_over
  with assms(1) show ?thesis
    using stop_all_facts(4) [of _ "manager r"] relaying_registered [of _ "attachments r"]
    by (auto simp: relays_inv_def stop_all_facts(1-3))
next
  case rs_cancelled
  with assms(1) show ?thesis by (auto simp: relays_inv_def)
qed

interpretation relaying: invariant_system relay_step relays_inv
  by unfold_locales (rule relay_step_inv)

lemma fresh_relays_inv: "relays_inv fresh_relays"
  by (simp add: relays_inv_def fresh_relays_def NewManager_def registered_ids_def map_filter_def)

text \<open>Once draining, always draining, and no new attachment adds to the wait group.\<close>

definition shuts_down :: "relays \<Rightarrow> relays \<Rightarrow> bool" where
  "shuts_down r r' \<longleftrightarrow> (mg_draining (manager r) \<longrightarrow>
     mg_draining (manager r') \<and> mg_wg (manager r') \<le> mg_wg (manager r)
     \<and> length (attachments r') = length (attachments r))"

lemma relay_step_shuts_down:
  assumes "relay_step r r'"
  shows "shuts_down r r'"
  using assms
  by (cases rule: relay_step.cases)
    (auto simp: shuts_down_def set_attachment_def BeginAttach_def Release_def wg_Done_Some
      register_accepted unregister_def stop_facts begin_draining_def stop_all_facts(1,2)
      dest: register_refused split: if_splits)

interpretation draining: monotone_system relay_step relays_inv shuts_down
proof
  show "shuts_down r r" for r by (simp add: shuts_down_def)
  show "shuts_down r s \<Longrightarrow> shuts_down s t \<Longrightarrow> shuts_down r t" for r s t
    by (auto simp: shuts_down_def)
  show "relays_inv r \<Longrightarrow> relay_step r s \<Longrightarrow> shuts_down r s" for r s
    by (rule relay_step_shuts_down)
qed

text \<open>The wait group never panics: who still has to call \<open>Done\<close> finds the counter positive.\<close>

lemma owing_counted:
  "relays_inv r \<Longrightarrow> a < length (attachments r) \<Longrightarrow> owing (attachments r ! a) \<Longrightarrow> 0 < mg_wg (manager r)"
  using owing_pos by (simp add: relays_inv_def)

lemma registered_owing: "registered x = Some i \<Longrightarrow> owing x"
  by (cases x) auto

lemma nothing_owed_nothing_live:
  assumes "relays_inv r" and "mg_wg (manager r) = 0"
  shows "list_all (\<lambda>x. \<not> owing x) (attachments r)" and "mg_live (manager r) = Map.empty"
proof -
  have none: "\<forall>x \<in> set (attachments r). \<not> owing x"
    using assms by (auto simp: relays_inv_def filter_empty_conv)
  then show "list_all (\<lambda>x. \<not> owing x) (attachments r)" by (simp add: list_all_iff)
  have "registered_ids (attachments r) = []"
    using none registered_owing by (fastforce simp: registered_ids_def map_filter_def filter_empty_conv)
  with assms(1) show "mg_live (manager r) = Map.empty" by (simp add: relays_inv_def)
qed

text \<open>Events that come later do not displace the first.\<close>

lemma stops_keep_first:
  "mg_live m i = Some (e # es) \<Longrightarrow> \<exists>es'. mg_live (fold (\<lambda>(j, x). stop j x) later m) i = Some (e # es')"
proof (induction later arbitrary: m es)
  case Nil
  then show ?case by simp
next
  case (Cons jx later)
  obtain j x where jx: "jx = (j, x)" by fastforce
  from stop_first [OF Cons.prems, of j x] obtain es' where "mg_live (stop j x m) i = Some (e # es')" by blast
  from Cons.IH [OF this] jx show ?case by simp
qed

end
