(* ===== verification/Relay_Run.thy ===== *)
theory Relay_Run
  imports Relay_Manager
begin

text \<open>
  One relay of \<open>internal/relay/manager.go\<close>: the goroutines that feed its event channel (the two
  copy loops, the pings, the heartbeat), the end of \<open>Run\<close>, and what it records in the database.
  The WebSocket library is not under verification: what its calls return is the input of the
  definitions. \<open>io.CopyBuffer\<close> is modelled as Go's standard library defines it.
\<close>

section \<open>The heartbeat and the pings\<close>

datatype timer_case = CtxDone cause | Ticked

definition plain_error_event :: "error \<Rightarrow> relay_event" where
  "plain_error_event e = \<lparr>ev_code = 0, ev_reason = [], ev_normal = False, ev_err = Some e\<rparr>"

definition terminated_event :: relay_event where
  "terminated_event = \<lparr>ev_code = CloseGoingAway, ev_reason = ''session terminated'',
     ev_normal = True, ev_err = None\<rparr>"

fun renewHeartbeat :: "uuid \<Rightarrow> timer_case list \<Rightarrow> world \<Rightarrow> relay_event option \<times> world" where
  "renewHeartbeat i [] w = (None, w)"
| "renewHeartbeat i (CtxDone c # ts) w = (Some (plain_error_event (Cause c)), w)"
| "renewHeartbeat i (Ticked # ts) w =
    (case exec (RenewSessionHeartbeat i) w of
       (Inr _, w') \<Rightarrow> renewHeartbeat i ts w'
     | (Inl e, w') \<Rightarrow>
         (if is_no_rows e then (Some terminated_event, w') else renewHeartbeat i ts w'))"

text \<open>A tick of the pings carries the results of the two control writes.\<close>

datatype ping_case = PingCtxDone cause | PingTick "error option" "error option"

fun pingPeers :: "ping_case list \<Rightarrow> relay_event option" where
  "pingPeers [] = None"
| "pingPeers (PingCtxDone c # ps) = Some (plain_error_event (Cause c))"
| "pingPeers (PingTick client_err worker_err # ps) =
    (case errors_Join client_err worker_err of
       None \<Rightarrow> pingPeers ps
     | Some e \<Rightarrow> Some (errorEvent e))"

section \<open>The copy loop\<close>

text \<open>
  One call of the source's \<open>Read\<close> and what surrounds it: the bytes and error it returns, the
  result of extending the read deadline, of setting the write deadline, and of the write.
\<close>

record chunk =
  ck_data :: string
  ck_err :: "error option"
  ck_read_deadline :: "error option"
  ck_write_deadline :: "error option"
  ck_written :: nat
  ck_write_err :: "error option"

definition deadlineReader_Read :: "chunk \<Rightarrow> string \<times> error option" where
  "deadlineReader_Read c =
    (if ck_data c \<noteq> [] \<and> ck_read_deadline c \<noteq> None
     then (ck_data c, errors_Join (ck_err c) (ck_read_deadline c))
     else (ck_data c, ck_err c))"

definition deadlineWriter_Write :: "chunk \<Rightarrow> nat \<times> error option" where
  "deadlineWriter_Write c =
    (case ck_write_deadline c of
       Some e \<Rightarrow> (0, Some (Wrap ''setting relay write deadline'' e))
     | None \<Rightarrow> (ck_written c, ck_write_err c))"

text \<open>
  \<open>io.CopyBuffer\<close>: what reached the writer, and how it ended: \<open>None\<close> when the calls run out (it is
  still waiting), \<open>Some None\<close> at the end of the message, \<open>Some (Some e)\<close> on an error.
\<close>

definition copy_write :: "chunk \<Rightarrow> string \<times> error option" where
  "copy_write c =
    (let (n, e) = deadlineWriter_Write c;
         invalid = n > length (ck_data c);
         n' = (if invalid then 0 else n)
     in (take n' (ck_data c),
         if e \<noteq> None then e
         else if invalid then Some (Text ''invalid write result'')
         else if n' \<noteq> length (ck_data c) then Some (Text ''short write'') else None))"

fun CopyBuffer :: "chunk list \<Rightarrow> string \<times> error option option" where
  "CopyBuffer [] = ([], None)"
| "CopyBuffer (c # cs) =
    (let (dat, er) = deadlineReader_Read c;
         (out, ew) = (if dat = [] then ([], None) else copy_write c)
     in if ew \<noteq> None then (out, Some ew)
        else (case er of
                None \<Rightarrow> (let (rest, r) = CopyBuffer cs in (out @ rest, r))
              | Some e \<Rightarrow> (out, Some (if e = Cause EndOfFile then None else Some e))))"

text \<open>One iteration of the loop: one message.\<close>

record iteration =
  it_read_deadline :: "error option"
  it_reader :: "error + int"
  it_write_deadline :: "error option"
  it_writer :: "error option"
  it_chunks :: "chunk list"
  it_final_deadline :: "error option"
  it_close :: "error option"

text \<open>
  What one iteration gives: nothing more happens (the calls ran out), the relay event that ends
  the loop, or the next iteration; with the bytes written to the destination's open message.
\<close>

datatype iteration_end = Blocked | Stops relay_event | Continues

definition copy_message :: "iteration \<Rightarrow> (int \<times> string) option \<times> iteration_end" where
  "copy_message it =
    (case it_read_deadline it of
       Some e \<Rightarrow> (None, Stops (errorEvent e))
     | None \<Rightarrow>
    (case it_reader it of
       Inl e \<Rightarrow> (None, Stops (errorEvent e))
     | Inr message_type \<Rightarrow>
    (case it_write_deadline it of
       Some e \<Rightarrow> (None, Stops (errorEvent e))
     | None \<Rightarrow>
    (case it_writer it of
       Some e \<Rightarrow> (None, Stops (errorEvent e))
     | None \<Rightarrow>
    (case CopyBuffer (it_chunks it) of
       (out, None) \<Rightarrow> (Some (message_type, out), Blocked)
     | (out, Some (Some e)) \<Rightarrow> (Some (message_type, out), Stops (errorEvent e))
     | (out, Some None) \<Rightarrow>
         (case errors_Join (it_final_deadline it) (it_close it) of
            Some e \<Rightarrow> (Some (message_type, out), Stops (errorEvent e))
          | None \<Rightarrow> (Some (message_type, out), Continues)))))))"

text \<open>The whole loop: the messages completed at the destination, the one left open, the event.\<close>

fun copyMessages :: "iteration list \<Rightarrow> (int \<times> string) list \<times> (int \<times> string) option \<times> relay_event option" where
  "copyMessages [] = ([], None, None)"
| "copyMessages (it # its) =
    (case copy_message it of
       (Some m, Continues) \<Rightarrow> (let (ms, part, ev) = copyMessages its in (m # ms, part, ev))
     | (None, Continues) \<Rightarrow> copyMessages its
     | (m, Blocked) \<Rightarrow> ([], m, None)
     | (m, Stops ev) \<Rightarrow> ([], m, Some ev))"

section \<open>The end of a relay\<close>

definition recordOutcome :: "uuid \<Rightarrow> bool \<Rightarrow> world \<Rightarrow> world" where
  "recordOutcome i normal w = snd (exec (if normal then CompleteSession i else FailSession i) w)"

text \<open>
  \<open>Run\<close>, given what \<open>register\<close> answered and the event it takes from its channel: its result, the
  close frames sent to the client and to the worker, the world it leaves.
\<close>

definition Run_relay :: "register_result \<Rightarrow> uuid \<Rightarrow> relay_event \<Rightarrow> world
    \<Rightarrow> error option \<times> (int \<times> string) list \<times> world" where
  "Run_relay res i event w =
    (case res of
       RegisterDraining \<Rightarrow>
         (Some ErrRelayDraining, replicate 2 (CloseGoingAway, ''server shutting down''),
          recordOutcome i True w)
     | RegisterDuplicate \<Rightarrow>
         (Some ErrDuplicateRelay, replicate 2 (CloseInternalServerErr, ''duplicate relay''), w)
     | RegisterAccepted \<Rightarrow>
         (None, replicate 2 (ev_code event, ev_reason event), recordOutcome i (ev_normal event) w))"

text \<open>
  The whole of \<open>Run\<close> on the manager: it registers; while it waits, events arrive at the channels of the
  manager's relays, its own among them, sent by its copy loops, its pings, its heartbeat and the
  shutdown; it takes the first of its own channel (\<open>None\<close>: there is none yet, it still waits), and what
  arrives later finds no reader; at its end it unregisters. An event Go has not set is \<open>no_event\<close>.
\<close>

definition no_event :: relay_event where
  "no_event = \<lparr>ev_code = 0, ev_reason = [], ev_normal = False, ev_err = None\<rparr>"

definition receive_event :: "uuid \<Rightarrow> manager \<Rightarrow> (relay_event \<times> manager) option" where
  "receive_event i m =
    (case mg_live m i of
       Some (e # es) \<Rightarrow> Some (e, m\<lparr>mg_live := (mg_live m)(i \<mapsto> es)\<rparr>)
     | _ \<Rightarrow> None)"

definition arrive :: "(uuid \<times> relay_event) list \<Rightarrow> manager \<Rightarrow> manager" where
  "arrive sent = fold (\<lambda>(j, e). stop j e) sent"

definition Run_session :: "uuid \<Rightarrow> (uuid \<times> relay_event) list \<Rightarrow> (uuid \<times> relay_event) list \<Rightarrow> manager \<Rightarrow> world
    \<Rightarrow> ((error option \<times> (int \<times> string) list \<times> world) \<times> manager option) option" where
  "Run_session i arrived later m w =
    (case register i m of
       (RegisterAccepted, m1) \<Rightarrow>
         (case receive_event i (arrive arrived m1) of
            None \<Rightarrow> None
          | Some (event, m2) \<Rightarrow>
              Some (Run_relay RegisterAccepted i event w, unregister i (arrive later m2)))
     | (res, m1) \<Rightarrow> Some (Run_relay res i no_event w, Some m1))"

section \<open>Facts\<close>

text \<open>The message the source sends: its bytes up to and including the call that reports its end.\<close>

fun payload :: "chunk list \<Rightarrow> string" where
  "payload [] = []"
| "payload (c # cs) = ck_data c @ (if ck_err c = None then payload cs else [])"

lemma errors_Join_None [simp]: "errors_Join a b = None \<longleftrightarrow> a = None \<and> b = None"
  by (simp add: errors_Join_def split: option.splits)

lemma copy_write_prefix:
  "copy_write c = (out, e) \<Longrightarrow> prefix out (ck_data c) \<and> (e = None \<longrightarrow> out = ck_data c)"
  by (auto simp: copy_write_def Let_def take_is_prefix split: prod.splits if_splits)

text \<open>Setting a deadline never answers \<open>io.EOF\<close>.\<close>

definition deadlines_ok :: "chunk list \<Rightarrow> bool" where
  "deadlines_ok cs \<longleftrightarrow> list_all (\<lambda>c. ck_read_deadline c \<noteq> Some (Cause EndOfFile)) cs"

lemma deadlineReader_cases:
  "\<exists>er. deadlineReader_Read c = (ck_data c, er) \<and> (er = None \<longrightarrow> ck_err c = None)
    \<and> (er = Some (Cause EndOfFile) \<longrightarrow> ck_read_deadline c \<noteq> Some (Cause EndOfFile) \<longrightarrow> ck_err c \<noteq> None)"
  by (auto simp: deadlineReader_Read_def errors_Join_def split: option.splits)

lemma CopyBuffer_prefix:
  "CopyBuffer cs = (out, r) \<Longrightarrow> deadlines_ok cs \<Longrightarrow>
    prefix out (payload cs) \<and> (r = Some None \<longrightarrow> out = payload cs)"
proof (induction cs arbitrary: out r)
  case Nil
  then show ?case by auto
next
  case (Cons c cs)
  obtain o1 ew where w: "(if ck_data c = [] then ([], None) else copy_write c) = (o1, ew)" by fastforce
  then have p: "prefix o1 (ck_data c)" "ew = None \<longrightarrow> o1 = ck_data c"
    by (auto dest: copy_write_prefix split: if_splits)
  obtain er where r: "deadlineReader_Read c = (ck_data c, er)" and er: "er = None \<Longrightarrow> ck_err c = None"
    "er = Some (Cause EndOfFile) \<Longrightarrow> ck_err c \<noteq> None"
    using deadlineReader_cases [of c] Cons.prems(2) by (auto simp: deadlines_ok_def)
  have ds: "deadlines_ok cs" using Cons.prems(2) by (simp add: deadlines_ok_def)
  show ?case
  proof (cases "ew \<noteq> None")
    case True
    with Cons.prems w r p show ?thesis by (auto simp: Let_def)
  next
    case False
    then have o1: "o1 = ck_data c" using p by simp
    show ?thesis
    proof (cases er)
      case None
      obtain rest q where rest: "CopyBuffer cs = (rest, q)" by fastforce
      from Cons.IH [OF rest ds] Cons.prems w r False None o1 er(1) rest show ?thesis
        by (auto simp: Let_def)
    next
      case (Some e)
      with Cons.prems w r False o1 er(2) show ?thesis
        by (auto simp: Let_def split: if_splits)
    qed
  qed
qed

text \<open>The message an iteration reads.\<close>

definition source_message :: "iteration \<Rightarrow> int \<times> string" where
  "source_message it = (case it_reader it of Inl _ \<Rightarrow> (0, []) | Inr ty \<Rightarrow> (ty, payload (it_chunks it)))"

lemma copy_message_faithful:
  assumes "copy_message it = (m, e)" and "deadlines_ok (it_chunks it)"
  shows "e = Continues \<Longrightarrow> m = Some (source_message it)"
    and "m = Some (ty, out) \<Longrightarrow> ty = fst (source_message it) \<and> prefix out (snd (source_message it))"
proof -
  have cb: "CopyBuffer (it_chunks it) = (o1, r) \<Longrightarrow>
      prefix o1 (payload (it_chunks it)) \<and> (r = Some None \<longrightarrow> o1 = payload (it_chunks it))" for o1 r
    using CopyBuffer_prefix assms(2) by blast
  show "e = Continues \<Longrightarrow> m = Some (source_message it)"
    and "m = Some (ty, out) \<Longrightarrow> ty = fst (source_message it) \<and> prefix out (snd (source_message it))"
    using assms(1) cb
    by (auto simp: copy_message_def source_message_def split: option.splits sum.splits prod.splits)
qed

lemma copyMessages_faithful:
  assumes "copyMessages its = (ms, part, ev)" and "list_all (\<lambda>it. deadlines_ok (it_chunks it)) its"
  shows "\<exists>k \<le> length its. ms = map source_message (take k its)
    \<and> (\<forall>ty out. part = Some (ty, out) \<longrightarrow>
         k < length its \<and> ty = fst (source_message (its ! k)) \<and> prefix out (snd (source_message (its ! k))))"
  using assms
proof (induction its arbitrary: ms part ev)
  case Nil
  then show ?case by simp
next
  case (Cons it its)
  obtain m e where m: "copy_message it = (m, e)" by fastforce
  from Cons.prems(2) have d: "deadlines_ok (it_chunks it)" "list_all (\<lambda>it. deadlines_ok (it_chunks it)) its"
    by simp_all
  note f = copy_message_faithful [OF m d(1)]
  show ?case
  proof (cases "e = Continues")
    case True
    obtain ms' part' ev' where r: "copyMessages its = (ms', part', ev')" by (cases "copyMessages its") auto
    from Cons.IH [OF r d(2)] obtain k where k: "k \<le> length its" "ms' = map source_message (take k its)"
      "\<forall>ty out. part' = Some (ty, out) \<longrightarrow>
         k < length its \<and> ty = fst (source_message (its ! k)) \<and> prefix out (snd (source_message (its ! k)))"
      by blast
    from Cons.prems(1) m True f(1) r have "ms = source_message it # ms'" "part = part'" by auto
    with k show ?thesis by (intro exI [of _ "Suc k"]) auto
  next
    case False
    with Cons.prems(1) m have p: "ms = []" "part = m" by (cases m; cases e; auto)+
    show ?thesis
      by (intro exI [of _ 0]) (use p f(2) in auto)
  qed
qed

lemma errorEvent_normal:
  "ev_normal (errorEvent e) \<longleftrightarrow> (\<exists>c t. errors_As_close e = Some (c, t) \<and> isNormalCloseCode c)"
  by (auto simp: errorEvent_def isNormalCloseCode_def isValidReceivedCloseCode_def CloseNormalClosure_def
      CloseGoingAway_def CloseNoStatusReceived_def split: option.splits prod.splits)

lemma errorEvent_code:
  "ev_code (errorEvent e) = CloseNoStatusReceived \<or> isValidReceivedCloseCode (ev_code (errorEvent e))"
  by (auto simp: errorEvent_def isValidReceivedCloseCode_def CloseInternalServerErr_def split: option.splits)

text \<open>The channel of a relay holds the first of the events sent to it.\<close>

lemma arrive_live:
  "mg_live (arrive sent m) i =
    map_option (fold send_event (map snd (filter (\<lambda>(j, e). j = i) sent))) (mg_live m i)"
proof (induction sent arbitrary: m)
  case Nil
  then show ?case by (simp add: arrive_def option.map_ident)
next
  case (Cons je sent)
  obtain j e where je: "je = (j, e)" by fastforce
  have "mg_live (arrive (je # sent) m) i = mg_live (arrive sent (stop j e m)) i" by (simp add: arrive_def je)
  also have "\<dots> = map_option (fold send_event (map snd (filter (\<lambda>(j, e). j = i) sent))) (mg_live (stop j e m) i)"
    by (rule Cons.IH)
  finally show ?case by (simp add: je stop_def option.map_comp comp_def)
qed

lemma sends_keep_first: "\<exists>es'. fold send_event sent (e # es) = e # es'"
proof (induction sent arbitrary: es)
  case Nil
  then show ?case by simp
next
  case (Cons x sent)
  then show ?case using send_event_first [of x e es] by (metis fold_simps(2))
qed

lemma first_received:
  assumes "register i m = (RegisterAccepted, m1)" and "filter (\<lambda>(j, e). j = i) sent = (i, e) # rest"
  shows "\<exists>m2. receive_event i (arrive sent m1) = Some (e, m2)"
proof -
  have "mg_live m1 i = Some []" using assms(1) by (auto simp: register_accepted)
  with assms(2) have "mg_live (arrive sent m1) i = Some (fold send_event (map snd rest) [e])"
    by (simp add: arrive_live)
  with sends_keep_first [of "map snd rest" e "[]"] show ?thesis by (auto simp: receive_event_def)
qed

lemma arrive_wg: "mg_wg (arrive sent m) = mg_wg m"
  by (induction sent arbitrary: m) (auto simp: arrive_def stop_facts)

lemma received_wg:
  assumes "register i m = (RegisterAccepted, m1)" and "receive_event i (arrive sent m1) = Some (e, m2)"
  shows "mg_wg (arrive later m2) = mg_wg m"
  using assms by (auto simp: receive_event_def register_accepted arrive_wg split: option.splits list.splits)

lemma none_received:
  assumes "register i m = (RegisterAccepted, m1)" and "filter (\<lambda>(j, e). j = i) sent = []"
  shows "receive_event i (arrive sent m1) = None"
proof -
  have "mg_live m1 i = Some []" using assms(1) by (auto simp: register_accepted)
  with assms(2) show ?thesis by (simp add: arrive_live receive_event_def)
qed

text \<open>What is recorded for a session: at most one terminal transition, by the first event.\<close>

lemma recordOutcome_calm:
  "recordOutcome i normal (calm d t) =
    calm (case lookup_row sid i (sessions d) of
            None \<Rightarrow> d
          | Some s \<Rightarrow>
              (if (if normal then sstatus s = Running else active s)
               then notify (set_sessions [i] (\<lambda>s. s\<lparr>sstatus := (if normal then Completed else Failed)\<rparr>) d)
               else d)) t"
  by (auto simp: recordOutcome_def CompleteSession_def FailSession_def update_session_def
      split: option.splits)

lemma renewHeartbeat_terminated:
  assumes "renewHeartbeat i ts (calm d t) = (Some e, w')" and "ev_normal e"
  shows "\<forall>s. lookup_row sid i (sessions d) = Some s \<longrightarrow> sstatus s \<noteq> Running"
  using assms
proof (induction ts arbitrary: d)
  case Nil
  then show ?case by simp
next
  case (Cons x ts)
  show ?case
  proof (cases x)
    case (CtxDone c)
    with Cons.prems show ?thesis by (auto simp: plain_error_event_def)
  next
    case Ticked
    show ?thesis
    proof (cases "RenewSessionHeartbeat i t d")
      case (Inl x)
      then show ?thesis by (auto simp: RenewSessionHeartbeat_def update_session_Inl)
    next
      case (Inr r)
      obtain s' f where r: "r = (s', f)" by fastforce
      with Inr obtain s where s: "lookup_row sid i (sessions d) = Some s" "sstatus s = Running"
        "f = set_sessions [i] (\<lambda>s. s\<lparr>sheartbeat := t\<rparr>)"
        by (auto simp: RenewSessionHeartbeat_def update_session_Inr)
      have "lookup_row sid i (sessions (f d)) = Some (s\<lparr>sheartbeat := t\<rparr>)"
        using s lookup_row_Some [OF s(1)] by (simp add: effect_targets lookup_update_where)
      moreover have "renewHeartbeat i ts (calm (f d) t) = (Some e, w')"
        using Cons.prems(1) Ticked Inr r by simp
      ultimately show ?thesis using Cons.IH [of "f d"] Cons.prems(2) s(2) by simp
    qed
  qed
qed

end
