(* ===== verification/Relay_Handlers.thy ===== *)
theory Relay_Handlers
  imports Auth Version Admission Relay_Run
begin

text \<open>
  \<open>internal/httpapi/relay.go\<close>: the two WebSocket endpoints. A request is admitted (implicit) or
  names its session (explicit); then the handler reserves an attachment, starts the session, dials
  the worker, upgrades the client and runs the relay. The results of the libraries involved
  (\<open>url.Parse\<close>, the dialer, the upgrader, the identifiers' text form) are inputs.
\<close>

section \<open>The request\<close>

record relay_request =
  rq_browser :: string
  rq_token :: string
  rq_authorization :: string
  rq_user_agent :: string
  rq_upgrade :: bool
  rq_origins :: "string list"
  rq_host :: string
  rq_path_id :: string
  rq_headers :: "(string \<times> string list) list"

definition validBrowser :: "string \<Rightarrow> bool" where
  "validBrowser b \<longleftrightarrow> b = ''chromium'' \<or> b = ''firefox'' \<or> b = ''webkit''"

text \<open>\<open>parse_host\<close> is the host of \<open>url.Parse\<close>'s result, \<open>None\<close> its error.\<close>

definition sameOrigin :: "(string \<Rightarrow> string option) \<Rightarrow> relay_request \<Rightarrow> bool" where
  "sameOrigin parse_host rq =
    (if rq_origins rq = [] then True
     else if length (rq_origins rq) \<noteq> 1 then False
     else (case parse_host (hd (rq_origins rq)) of
             None \<Rightarrow> False
           | Some host \<Rightarrow> equal_fold host (rq_host rq)))"

definition preflight :: "(string \<Rightarrow> string option) \<Rightarrow> bool \<Rightarrow> relay_request \<Rightarrow> reply option" where
  "preflight parse_host accepting rq =
    (if \<not> rq_upgrade rq then Some (plain_reply 426 ''This endpoint is for WebSocket connections only.'')
     else if \<not> sameOrigin parse_host rq then Some (plain_reply 403 ''websocket origin is not allowed'')
     else if \<not> accepting then Some (retry_reply 503 ''server is shutting down'')
     else None)"

text \<open>A request whose client has gone gets no answer.\<close>

definition writeAdmissionError :: "error \<Rightarrow> reply option" where
  "writeAdmissionError e =
    (if errors_Is e ErrQueueFull then Some (plain_reply 429 ''session capacity and queue are full'')
     else if errors_Is e ErrWaitTimeout then Some (retry_reply 503 ''session queue wait timed out'')
     else if errors_Is e ErrSchedulerDraining then Some (retry_reply 503 ''server is shutting down'')
     else if errors_Is e (Cause Canceled) then None
     else Some (plain_reply 500 ''internal server error''))"

section \<open>The attachment\<close>

definition forwarded_header :: "string \<Rightarrow> bool" where
  "forwarded_header name \<longleftrightarrow> prefix ''x-playwright-'' (map to_lower name)"

text \<open>The headers of the dial: names are canonical in \<open>request.Header\<close> and stay so.\<close>

definition dial_headers :: "(uuid \<Rightarrow> string) \<Rightarrow> relay_request \<Rightarrow> uuid \<Rightarrow> (string \<times> string) list" where
  "dial_headers uuid_string rq i =
    (if rq_user_agent rq = [] then [] else [(''User-Agent'', rq_user_agent rq)])
    @ concat (map (\<lambda>(name, vs). if forwarded_header name then map (\<lambda>v. (name, v)) vs else []) (rq_headers rq))
    @ [(''X-Pwd-Session-Id'', uuid_string i)]"

definition failSession :: "uuid \<Rightarrow> world \<Rightarrow> world" where
  "failSession i w = snd (exec (FailSession i) w)"

definition writeRejectedStart :: "uuid \<Rightarrow> world \<Rightarrow> reply \<times> world" where
  "writeRejectedStart i w =
    (case exec (GetSession i) w of
       (Inl e, w1) \<Rightarrow> (plain_reply 410 ''session is no longer available'', w1)
     | (Inr s, w1) \<Rightarrow>
         (if sstatus s = Running then (plain_reply 409 ''session already has an attached client'', w1)
          else (plain_reply 410 ''session is no longer available'', w1)))"

text \<open>
  What the manager, the worker and the client answer: \<open>BeginAttach\<close>, the dial, the upgrade,
  \<open>register\<close>, and the event \<open>Run\<close> takes from its channel.
\<close>

record attach_env =
  at_begin :: "error option"
  at_dial :: "error option"
  at_upgrade :: "error option"
  at_register :: register_result
  at_event :: relay_event

definition attach :: "attach_env \<Rightarrow> session \<Rightarrow> world \<Rightarrow> reply option \<times> world" where
  "attach env s w =
    (case at_begin env of
       Some e \<Rightarrow>
         (if errors_Is e ErrRelayDraining then (Some (retry_reply 503 ''server is shutting down''), w)
          else (Some (plain_reply 500 ''internal server error''), w))
     | None \<Rightarrow>
         (case exec (StartSession (sid s)) w of
            (Inl e, w1) \<Rightarrow>
              (if is_no_rows e then (let (rp, w2) = writeRejectedStart (sid s) w1 in (Some rp, w2))
               else (Some (plain_reply 500 ''internal server error''), failSession (sid s) w1))
          | (Inr _, w1) \<Rightarrow>
              (case at_dial env of
                 Some e \<Rightarrow> (Some (plain_reply 502 ''worker connection failed''), failSession (sid s) w1)
               | None \<Rightarrow>
                   (case at_upgrade env of
                      Some e \<Rightarrow> (None, failSession (sid s) w1)
                    | None \<Rightarrow>
                        (None, snd (snd (Run_relay (at_register env) (sid s) (at_event env) w1)))))))"

section \<open>The endpoints\<close>

record relay_env =
  re_parse_host :: "string \<Rightarrow> string option"
  re_accepting :: bool
  re_latched :: bool
  re_admit :: admit_env
  re_queued :: int
  re_attach :: attach_env

definition implicit ::
  "authenticate \<Rightarrow> sched_options option \<Rightarrow> string \<Rightarrow> relay_env \<Rightarrow> relay_request \<Rightarrow> auth_state \<Rightarrow> world
    \<Rightarrow> reply option \<times> auth_state \<times> world" where
  "implicit auth sched default_browser env rq st w =
    (if rq_browser rq \<noteq> [] \<and> \<not> validBrowser (rq_browser rq)
     then (Some (plain_reply 400 (''Unknown browser type: '' @ rq_browser rq
             @ '' - allowed: chromium, firefox, webkit'')), st, w)
     else (let browser = (if rq_browser rq \<noteq> [] then rq_browser rq else default_browser) in
       case preflight (re_parse_host env) (re_accepting env) rq of
         Some rp \<Rightarrow> (Some rp, st, w)
       | None \<Rightarrow>
           (case authenticateRelay auth (re_latched env) st (rq_authorization rq) (rq_token rq) w of
              (Inl rp, st1, w1) \<Rightarrow> (Some rp, st1, w1)
            | (Inr who, st1, w1) \<Rightarrow>
                (case sched of
                   None \<Rightarrow> (Some (plain_reply 500 ''internal server error''), st1, w1)
                 | Some opts \<Rightarrow>
                     (let version_prefix =
                            (case UserAgentVersion (rq_user_agent rq) of None \<Rightarrow> [] | Some (_, p) \<Rightarrow> p);
                          req = \<lparr>cq_browser = browser, cq_prefix = version_prefix, cq_key = who,
                                 cq_metadata = Some ''{}''\<rparr>
                      in case Admit opts req (re_admit env) (re_queued env) w1 of
                           (None, _, w2) \<Rightarrow> (None, st1, w2)
                         | (Some (Inl e), _, w2) \<Rightarrow> (writeAdmissionError e, st1, w2)
                         | (Some (Inr s), _, w2) \<Rightarrow>
                             (let (rp, w3) = attach (re_attach env) s w2 in (rp, st1, w3)))))))"

definition explicit ::
  "authenticate \<Rightarrow> (string \<Rightarrow> error + uuid) \<Rightarrow> relay_env \<Rightarrow> relay_request \<Rightarrow> auth_state \<Rightarrow> world
    \<Rightarrow> reply option \<times> auth_state \<times> world" where
  "explicit auth parse_uuid env rq st w =
    (case preflight (re_parse_host env) (re_accepting env) rq of
       Some rp \<Rightarrow> (Some rp, st, w)
     | None \<Rightarrow>
    (case authenticateRelay auth (re_latched env) st (rq_authorization rq) (rq_token rq) w of
       (Inl rp, st1, w1) \<Rightarrow> (Some rp, st1, w1)
     | (Inr who, st1, w1) \<Rightarrow>
    (case parse_uuid (rq_path_id rq) of
       Inl e \<Rightarrow> (Some (plain_reply 404 ''session not found''), st1, w1)
     | Inr i \<Rightarrow>
    (case exec (GetSession i) w1 of
       (Inl e, w2) \<Rightarrow>
         (if is_no_rows e then (Some (plain_reply 404 ''session not found''), st1, w2)
          else (Some (plain_reply 500 ''internal server error''), st1, w2))
     | (Inr s, w2) \<Rightarrow>
         (if sstatus s = Running then (Some (plain_reply 409 ''session already has an attached client''), st1, w2)
          else if sstatus s \<noteq> Pending then (Some (plain_reply 410 ''session is no longer available''), st1, w2)
          else (let session_prefix = (case VersionPrefix (sversion s) of None \<Rightarrow> [] | Some p \<Rightarrow> p)
                in case UserAgentVersion (rq_user_agent rq) of
                     Some (client_version, client_prefix) \<Rightarrow>
                       (if client_prefix \<noteq> session_prefix
                        then (Some (plain_reply 409 (''client Playwright version '' @ client_version
                                @ '' is incompatible with session version '' @ sversion s)), st1, w2)
                        else (let (rp, w3) = attach (re_attach env) s w2 in (rp, st1, w3)))
                   | None \<Rightarrow> (let (rp, w3) = attach (re_attach env) s w2 in (rp, st1, w3))))))))"

section \<open>Facts\<close>

lemma forwarded_only:
  "(n, v) \<in> set (dial_headers uuid_string rq i) \<Longrightarrow>
    n = ''User-Agent'' \<or> n = ''X-Pwd-Session-Id'' \<or> (forwarded_header n \<and> (\<exists>vs. (n, vs) \<in> set (rq_headers rq) \<and> v \<in> set vs))"
  by (auto simp: dial_headers_def split: if_splits)

lemma no_credentials_forwarded:
  "(n, v) \<in> set (dial_headers uuid_string rq i) \<Longrightarrow> map to_lower n \<noteq> ''authorization'' \<and> map to_lower n \<noteq> ''cookie''"
  by (drule forwarded_only) (auto simp: forwarded_header_def to_lower_def)

text \<open>\<open>attach\<close> in an undisturbed database: a session it starts is over when it returns.\<close>

definition finish :: "session_status \<Rightarrow> uuid \<Rightarrow> effect" where
  "finish st i = notify \<circ> set_sessions [i] (\<lambda>s. s\<lparr>sstatus := st\<rparr>)"

definition attach_status :: "attach_env \<Rightarrow> session_status option" where
  "attach_status env =
    (if at_dial env \<noteq> None \<or> at_upgrade env \<noteq> None then Some Failed
     else (case at_register env of
             RegisterDraining \<Rightarrow> Some Completed
           | RegisterDuplicate \<Rightarrow> None
           | RegisterAccepted \<Rightarrow> Some (if ev_normal (at_event env) then Completed else Failed)))"

lemma started_lookup:
  "lookup_row sid i (sessions d) = Some s \<Longrightarrow>
    lookup_row sid i (sessions (set_sessions [i] (start_row now) d)) = Some (start_row now s)"
  using lookup_row_Some [of sid i "sessions d" s]
  by (simp add: effect_targets lookup_update_where start_row_def)

lemma finish_lookup:
  "lookup_row sid i (sessions d) = Some s \<Longrightarrow>
    lookup_row sid i (sessions (finish st i d)) = Some (s\<lparr>sstatus := st\<rparr>)"
  using lookup_row_Some [of sid i "sessions d" s]
  by (simp add: finish_def effect_targets lookup_update_where)

lemma finish_notifies: "notified (finish st i d) = Suc (notified d)"
  by (simp add: finish_def effect_targets)

lemma attach_calm_started:
  assumes "at_begin env = None" and "lookup_row sid (sid s) (sessions d) = Some s" and "sstatus s = Pending"
  shows "snd (attach env s (calm d t)) =
    (let d1 = set_sessions [sid s] (start_row t) d
     in calm (case attach_status env of None \<Rightarrow> d1 | Some st \<Rightarrow> finish st (sid s) d1) t)"
proof -
  have st: "exec (StartSession (sid s)) (calm d t)
      = (Inr (start_row t s), calm (set_sessions [sid s] (start_row t) d) t)"
    using assms(2,3) by (simp add: StartSession_def update_session_def)
  let ?d1 = "set_sessions [sid s] (start_row t) d"
  have look: "lookup_row sid (sid s) (sessions ?d1) = Some (start_row t s)"
    using assms(2) by (rule started_lookup)
  have fs: "failSession (sid s) (calm ?d1 t) = calm (finish Failed (sid s) ?d1) t"
    using look by (simp add: failSession_def FailSession_def update_session_def finish_def active_def start_row_def)
  have ro: "recordOutcome (sid s) n (calm ?d1 t) = calm (finish (if n then Completed else Failed) (sid s) ?d1) t" for n
    using look by (simp add: recordOutcome_calm finish_def active_def start_row_def)
  show ?thesis
    using assms(1) st fs ro
    by (auto simp: attach_def attach_status_def Run_relay_def Let_def
        split: option.splits register_result.splits)
qed

lemma attach_calm_rejected:
  assumes "at_begin env = None" and "\<And>r. lookup_row sid (sid s) (sessions d) = Some r \<Longrightarrow> sstatus r \<noteq> Pending"
  shows "attach env s (calm d t) =
    (Some (case lookup_row sid (sid s) (sessions d) of
        Some r \<Rightarrow> (if sstatus r = Running then plain_reply 409 ''session already has an attached client''
                   else plain_reply 410 ''session is no longer available'')
      | None \<Rightarrow> plain_reply 410 ''session is no longer available''), calm d t)"
  using assms
  by (auto simp: attach_def StartSession_def update_session_def writeRejectedStart_def GetSession_def
      split: option.splits)

end
