(* ===== verification/Api_Handlers.thy ===== *)
theory Api_Handlers
  imports Relay_Handlers
begin

text \<open>
  The REST endpoints of \<open>internal/httpapi/server.go\<close>, the views of \<open>models.go\<close> and the logging
  response writer of \<open>middleware.go\<close>. The framework (huma) decodes the request and checks the
  tags of its input types; a handler starts from the decoded values. JSON encoding is a parameter.
\<close>

section \<open>Views\<close>

record worker_view =
  vw_id :: uuid
  vw_address :: string
  vw_browser :: string
  vw_version :: string
  vw_max_slots :: int
  vw_status :: worker_status
  vw_heartbeat :: int
  vw_lifetime :: int
  vw_created :: int

record 'm session_view =
  vs_id :: uuid
  vs_worker :: uuid
  vs_browser :: string
  vs_version :: string
  vs_address :: string
  vs_mode :: session_mode
  vs_status :: session_status
  vs_key :: "uuid option"
  vs_created :: int
  vs_started :: "int option"
  vs_expires :: "int option"
  vs_heartbeat :: int
  vs_keep_alive :: "int option"
  vs_metadata :: 'm

record browser_capacity =
  bc_browser :: string
  bc_workers :: int
  bc_max_slots :: int
  bc_active :: int
  bc_available :: int

record capacity_totals =
  ct_workers :: int
  ct_max_slots :: int
  ct_active :: int
  ct_available :: int

record capacity_view =
  vc_browsers :: "browser_capacity list"
  vc_totals :: capacity_totals
  vc_queued :: int
  vc_max_queue :: int

definition workerFromData :: "worker \<Rightarrow> worker_view" where
  "workerFromData w =
     \<lparr>vw_id = wid w, vw_address = waddress w, vw_browser = wbrowser w, vw_version = wversion w,
      vw_max_slots = wmax_slots w, vw_status = wstatus w, vw_heartbeat = wheartbeat w,
      vw_lifetime = wlifetime w, vw_created = wcreated w\<rparr>"

text \<open>\<open>decode\<close> is \<open>json.Unmarshal\<close> into a map.\<close>

definition sessionFromData :: "(string \<Rightarrow> error + 'm) \<Rightarrow> session \<Rightarrow> error + 'm session_view" where
  "sessionFromData decode s =
    (case decode (smetadata s) of
       Inl e \<Rightarrow> Inl (Wrap ''decoding session connect metadata'' e)
     | Inr m \<Rightarrow> Inr \<lparr>vs_id = sid s, vs_worker = sworker s, vs_browser = sbrowser s,
         vs_version = sversion s, vs_address = saddress s, vs_mode = smode s, vs_status = sstatus s,
         vs_key = skey s, vs_created = screated s, vs_started = sstarted s, vs_expires = sexpires s,
         vs_heartbeat = sheartbeat s, vs_keep_alive = skeep_alive s, vs_metadata = m\<rparr>)"

section \<open>Results\<close>

text \<open>A handler answers with a status and a body, or with an error (\<open>None\<close>: the client has gone).\<close>

datatype 'b outcome = Answer nat 'b | Refusal "reply option"

abbreviation internalError :: "'b outcome" where
  "internalError \<equiv> Refusal (Some (plain_reply 500 ''internal server error''))"

section \<open>Sessions\<close>

definition maxConnectMetadataSize :: nat where
  "maxConnectMetadataSize = 8 * 1024"

record 'm create_request =
  cr_mode :: session_mode
  cr_browser_type :: string
  cr_playwright_version :: string
  cr_metadata :: "'m option"

text \<open>
  \<open>json.Marshal\<close> is \<open>encode\<close>; \<open>empty_metadata\<close> the empty map. The result of the admission and the
  decoding of the stored metadata decide the answer.
\<close>

definition admission_refusal :: "error \<Rightarrow> 'b outcome" where
  "admission_refusal e =
    (if errors_Is e ErrQueueFull then Refusal (Some (plain_reply 429 ''session capacity and queue are full''))
     else if errors_Is e ErrWaitTimeout then Refusal (Some (retry_reply 503 ''session queue wait timed out''))
     else if errors_Is e ErrSchedulerDraining then Refusal (Some (retry_reply 503 ''server is shutting down''))
     else if errors_Is e (Cause Canceled) then Refusal None
     else internalError)"

definition create_session ::
  "('m \<Rightarrow> error + string) \<Rightarrow> (string \<Rightarrow> error + 'm) \<Rightarrow> 'm \<Rightarrow> sched_options option \<Rightarrow> admit_env \<Rightarrow> int
    \<Rightarrow> uuid option \<Rightarrow> 'm create_request \<Rightarrow> world \<Rightarrow> 'm session_view outcome option \<times> world" where
  "create_session encode decode empty_metadata sched env queued who rq w =
    (if cr_mode rq = ModeDedicated
     then (Some (Refusal (Some (plain_reply 422 ''dedicated mode is not available yet''))), w)
     else (case encode (case cr_metadata rq of None \<Rightarrow> empty_metadata | Some m \<Rightarrow> m) of
       Inl e \<Rightarrow> (Some (Refusal (Some (plain_reply 422 ''connect_metadata must be a JSON object''))), w)
     | Inr encoded \<Rightarrow>
         (if length encoded > maxConnectMetadataSize
          then (Some (Refusal (Some (plain_reply 422 ''connect_metadata must not exceed 8 KiB''))), w)
          else (case sched of
            None \<Rightarrow> (Some internalError, w)
          | Some opts \<Rightarrow>
              (case (if cr_playwright_version rq = [] then Some [] else VersionPrefix (cr_playwright_version rq)) of
                 None \<Rightarrow> (Some (Refusal (Some (plain_reply 422 ''playwright_version must be semver or major.minor''))), w)
               | Some version_prefix \<Rightarrow>
                   (case Admit opts \<lparr>cq_browser = cr_browser_type rq, cq_prefix = version_prefix,
                            cq_key = who, cq_metadata = Some encoded\<rparr> env queued w of
                      (None, _, w') \<Rightarrow> (None, w')
                    | (Some (Inl e), _, w') \<Rightarrow> (Some (admission_refusal e), w')
                    | (Some (Inr s), _, w') \<Rightarrow>
                        (Some (case sessionFromData decode s of Inl e \<Rightarrow> internalError | Inr v \<Rightarrow> Answer 201 v), w')))))))"

definition get_session :: "(string \<Rightarrow> error + 'm) \<Rightarrow> uuid \<Rightarrow> world \<Rightarrow> 'm session_view outcome \<times> world" where
  "get_session decode i w =
    (case exec (GetSession i) w of
       (Inl e, w') \<Rightarrow>
         (if is_no_rows e then (Refusal (Some (plain_reply 404 ''session not found'')), w') else (internalError, w'))
     | (Inr s, w') \<Rightarrow>
         ((case sessionFromData decode s of Inl e \<Rightarrow> internalError | Inr v \<Rightarrow> Answer 200 v), w'))"

definition delete_session :: "uuid \<Rightarrow> world \<Rightarrow> unit outcome \<times> world" where
  "delete_session i w =
    (case exec (TerminateSession i) w of
       (Inr _, w1) \<Rightarrow> (Answer 204 (), w1)
     | (Inl e, w1) \<Rightarrow>
         (if \<not> is_no_rows e then (internalError, w1)
          else (case exec (GetSession i) w1 of
                  (Inl e', w2) \<Rightarrow>
                    (if is_no_rows e' then (Refusal (Some (plain_reply 404 ''session not found'')), w2)
                     else (internalError, w2))
                | (Inr _, w2) \<Rightarrow> (Answer 204 (), w2))))"

section \<open>Workers and capacity\<close>

definition list_workers :: "world \<Rightarrow> worker_view list outcome \<times> world" where
  "list_workers w =
    (case exec ListWorkers w of
       (Inl e, w') \<Rightarrow> (internalError, w')
     | (Inr ws, w') \<Rightarrow> (Answer 200 (map workerFromData ws), w'))"

definition browser_view :: "capacity_row \<Rightarrow> browser_capacity" where
  "browser_view r = \<lparr>bc_browser = cr_browser r, bc_workers = cr_workers r, bc_max_slots = cr_max_slots r,
     bc_active = cr_active_sessions r, bc_available = cr_available_slots r\<rparr>"

text \<open>The totals are \<open>int64\<close> sums.\<close>

definition add_totals :: "capacity_row \<Rightarrow> capacity_totals \<Rightarrow> capacity_totals" where
  "add_totals r t = \<lparr>ct_workers = wrap64 (ct_workers t + cr_workers r),
     ct_max_slots = wrap64 (ct_max_slots t + cr_max_slots r),
     ct_active = wrap64 (ct_active t + cr_active_sessions r),
     ct_available = wrap64 (ct_available t + cr_available_slots r)\<rparr>"

definition get_capacity :: "sched_options option \<Rightarrow> int \<Rightarrow> world \<Rightarrow> capacity_view outcome \<times> world" where
  "get_capacity sched queued w =
    (case sched of
       None \<Rightarrow> (internalError, w)
     | Some opts \<Rightarrow>
         (case Capacity opts queued w of
            (Inl e, w') \<Rightarrow> (internalError, w')
          | (Inr c, w') \<Rightarrow>
              (Answer 200 \<lparr>vc_browsers = map browser_view (cap_browsers c),
                 vc_totals = fold add_totals (cap_browsers c)
                   \<lparr>ct_workers = 0, ct_max_slots = 0, ct_active = 0, ct_available = 0\<rparr>,
                 vc_queued = cap_queued c, vc_max_queue = cap_max_queue c\<rparr>, w')))"

definition register_body ::
  "register_worker_params \<Rightarrow> tx \<Rightarrow> world \<Rightarrow> (error + (worker \<times> tx)) \<times> world" where
  "register_body p t w =
     andThen (wrapErr ''inserting worker registration'' (tx_exec (RegisterWorker p) t w))
       (\<lambda>(worker, t1) w1. andThen (wrapErr ''notifying worker capacity'' (tx_exec NotifyCapacityChanged t1 w1))
          (\<lambda>(_, t2) w2. (Inr (worker, t2), w2)))"

definition registerWorker :: "register_worker_params \<Rightarrow> world \<Rightarrow> (error + worker) \<times> world" where
  "registerWorker p w =
     in_tx ''beginning worker registration'' (register_body p) ''committing worker registration'' w"

text \<open>\<open>hostname\<close> is the host of the parsed address, \<open>None\<close> a parse error; \<open>new_id\<close> is \<open>uuid.New()\<close>.\<close>

record register_request =
  rr_address :: string
  rr_browser :: string
  rr_version :: string
  rr_max_slots :: int

definition register_worker :: "(string \<Rightarrow> string option) \<Rightarrow> uuid \<Rightarrow> register_request \<Rightarrow> world
    \<Rightarrow> worker_view outcome \<times> world" where
  "register_worker hostname new_id rq w =
    (if hostname (rr_address rq) = None \<or> hostname (rr_address rq) = Some []
     then (Refusal (Some (plain_reply 422 ''address must include a hostname'')), w)
     else (case registerWorker \<lparr>rw_id = new_id, rw_address = rr_address rq, rw_browser = rr_browser rq,
             rw_version = rr_version rq, rw_max_slots = rr_max_slots rq, rw_status = Available\<rparr> w of
             (Inl e, w') \<Rightarrow> (internalError, w')
           | (Inr worker, w') \<Rightarrow> (Answer 201 (workerFromData worker), w')))"

definition heartbeat_worker :: "sched_options option \<Rightarrow> uuid \<Rightarrow> uuid list \<Rightarrow> world
    \<Rightarrow> (worker_status \<times> uuid list) outcome \<times> world" where
  "heartbeat_worker sched i reported w =
    (let (r, w') =
       (case sched of
          None \<Rightarrow> (case exec (UpdateWorkerHeartbeat i) w of
                    (Inl e, w') \<Rightarrow> (Inl e, w') | (Inr worker, w') \<Rightarrow> (Inr (worker, [], []), w'))
        | Some opts \<Rightarrow> Heartbeat opts i reported w)
     in (case r of
           Inl e \<Rightarrow>
             (if is_no_rows e then Refusal (Some (plain_reply 404 ''worker not found'')) else internalError)
         | Inr (worker, stale, failed) \<Rightarrow> Answer 200 (wstatus worker, stale), w'))"

definition set_worker_status :: "uuid \<Rightarrow> worker_status \<Rightarrow> world \<Rightarrow> worker_view outcome \<times> world" where
  "set_worker_status i target w =
    (case exec (SetWorkerStatus i target) w of
       (Inr worker, w1) \<Rightarrow> (Answer 200 (workerFromData worker), w1)
     | (Inl e, w1) \<Rightarrow>
         (if is_no_rows e then
            (case exec (GetWorker i) w1 of
               (Inl e', w2) \<Rightarrow>
                 (if is_no_rows e' then (Refusal (Some (plain_reply 404 ''worker not found'')), w2)
                  else (internalError, w2))
             | (Inr _, w2) \<Rightarrow> (Refusal (Some (plain_reply 409 ''invalid worker status transition'')), w2))
          else (internalError, w1)))"

section \<open>Health\<close>

definition health :: "string outcome" where
  "health = Answer 200 ''ok''"

definition readiness :: "world \<Rightarrow> string outcome \<times> world" where
  "readiness w =
    (case next_beat w of (b, w') \<Rightarrow>
       ((case fault b of None \<Rightarrow> Answer 200 ''ok''
         | Some _ \<Rightarrow> Refusal (Some (plain_reply 503 ''database unavailable''))), w'))"

section \<open>The logging response writer\<close>

record logging_writer =
  lw_status :: int
  lw_wroteHeader :: bool
  lw_sent :: "int list"
  lw_body :: string

definition new_logging_writer :: logging_writer where
  "new_logging_writer = \<lparr>lw_status = 200, lw_wroteHeader = False, lw_sent = [], lw_body = []\<rparr>"

definition WriteHeader :: "int \<Rightarrow> logging_writer \<Rightarrow> logging_writer" where
  "WriteHeader status lw =
    (if lw_wroteHeader lw then lw
     else lw\<lparr>lw_status := status, lw_wroteHeader := True, lw_sent := lw_sent lw @ [status]\<rparr>)"

definition Write :: "string \<Rightarrow> logging_writer \<Rightarrow> logging_writer" where
  "Write bytes lw =
    (let lw' = (if lw_wroteHeader lw then lw else WriteHeader 200 lw)
     in lw'\<lparr>lw_body := lw_body lw' @ bytes\<rparr>)"

definition Hijack :: "bool \<Rightarrow> logging_writer \<Rightarrow> logging_writer" where
  "Hijack ok lw = (if ok then lw\<lparr>lw_status := 101, lw_wroteHeader := True\<rparr> else lw)"

datatype writer_call = CallWriteHeader int | CallWrite string | CallHijack bool

fun writer_step :: "writer_call \<Rightarrow> logging_writer \<Rightarrow> logging_writer" where
  "writer_step (CallWriteHeader s) lw = WriteHeader s lw"
| "writer_step (CallWrite bs) lw = Write bs lw"
| "writer_step (CallHijack ok) lw = Hijack ok lw"

definition skips_log :: "string \<Rightarrow> bool" where
  "skips_log path \<longleftrightarrow> path = ''/healthz'' \<or> path = ''/readyz''"

text \<open>
  \<open>requestLogger\<close>: the calls the handler makes on its writer, and what is logged as the status.
\<close>

definition requestLogger :: "string \<Rightarrow> writer_call list \<Rightarrow> int option" where
  "requestLogger path calls =
    (if skips_log path then None else Some (lw_status (fold writer_step calls new_logging_writer)))"

section \<open>Facts\<close>

lemma writer_calls:
  "let lw' = fold writer_step calls lw in
     (lw_wroteHeader lw \<longrightarrow> lw_wroteHeader lw' \<and> lw_sent lw' = lw_sent lw)
     \<and> (\<not> lw_wroteHeader lw \<longrightarrow> lw_sent lw = [] \<longrightarrow> length (lw_sent lw') \<le> 1)"
proof (induction calls arbitrary: lw)
  case Nil
  then show ?case by simp
next
  case (Cons c calls)
  from Cons.IH [of "writer_step c lw"] show ?case
    by (cases c) (auto simp: Let_def WriteHeader_def Write_def Hijack_def split: if_splits)
qed

text \<open>Without a hijack the logged status is the one sent, or 200 when the handler wrote nothing.\<close>

lemma writer_logs_sent:
  assumes "list_all (\<lambda>c. case c of CallHijack _ \<Rightarrow> False | _ \<Rightarrow> True) calls"
    and "lw_sent lw = (if lw_wroteHeader lw then [lw_status lw] else [])" and "\<not> lw_wroteHeader lw \<longrightarrow> lw_status lw = 200"
  shows "let lw' = fold writer_step calls lw in
    lw_sent lw' = (if lw_wroteHeader lw' then [lw_status lw'] else []) \<and> (\<not> lw_wroteHeader lw' \<longrightarrow> lw_status lw' = 200)"
  using assms
proof (induction calls arbitrary: lw)
  case Nil
  then show ?case by simp
next
  case (Cons c calls)
  then show ?case
    by (cases c) (auto simp: Let_def WriteHeader_def Write_def)
qed

lemma totals_sum:
  "ct_available (fold add_totals rs t) = wrap64 (ct_available t + sum_list (map cr_available_slots rs))
    \<or> rs = []"
proof (induction rs arbitrary: t)
  case Nil
  then show ?case by simp
next
  case (Cons r rs)
  have w: "wrap64 (wrap64 a + b) = wrap64 (a + b)" for a b
    by (simp add: wrap64_def mod_simps ac_simps)
  show ?case
  proof (cases rs)
    case Nil
    then show ?thesis by (simp add: add_totals_def)
  next
    case (Cons r' rs')
    with Cons.IH [of "add_totals r t"] show ?thesis
      by (simp add: add_totals_def w add.assoc)
  qed
qed

end
