(* ===== verification/Rescuer.thy ===== *)
theory Rescuer
  imports Fleet Admission
begin

text \<open>
  \<open>internal/rescuer/rescuer.go\<close>: the sweep every replica runs. Three transactions, each on its own:
  stall the workers that have gone silent, expire the sessions whose relay has gone silent or
  whose pending time has passed, delete the workers that are gone for good.
\<close>

section \<open>The sweep\<close>

record rescuer_options =
  ro_worker_ttl :: int
  ro_session_ttl :: int
  ro_stalled_ttl :: int
  ro_interval :: int

record summary =
  sm_stalled :: int
  sm_expired :: nat
  sm_removed :: nat

definition stallSilentWorkers :: "rescuer_options \<Rightarrow> world \<Rightarrow> (error + int) \<times> world" where
  "stallSilentWorkers o' w =
     in_tx ''beginning stall sweep''
       (\<lambda>t w1. wrapErr ''stalling silent workers''
          (tx_exec (StallSilentWorkers (microseconds (ro_worker_ttl o'))) t w1))
       ''committing stall sweep'' w"

definition expire_body :: "rescuer_options \<Rightarrow> tx \<Rightarrow> world \<Rightarrow> (error + ((uuid \<times> uuid) list \<times> tx)) \<times> world" where
  "expire_body o' t w =
    andThen (wrapErr ''expiring dead sessions''
              (tx_exec (ExpireDeadSessions (microseconds (ro_session_ttl o'))) t w))
      (\<lambda>(expired, t1) w1.
        andThen (if expired \<noteq> []
                 then wrapErr ''notifying expired session capacity'' (tx_exec NotifyCapacityChanged t1 w1)
                 else (Inr ((), t1), w1))
          (\<lambda>(_, t2) w2. (Inr (expired, t2), w2)))"

definition expireDeadSessions :: "rescuer_options \<Rightarrow> world \<Rightarrow> (error + (uuid \<times> uuid) list) \<times> world" where
  "expireDeadSessions o' w =
     in_tx ''beginning session expiry sweep'' (expire_body o') ''committing session expiry sweep'' w"

definition deleteDeadWorkers :: "rescuer_options \<Rightarrow> world \<Rightarrow> (error + uuid list) \<times> world" where
  "deleteDeadWorkers o' w =
     in_tx ''beginning worker deletion sweep''
       (\<lambda>t w1. wrapErr ''deleting dead workers''
          (tx_exec (DeleteDeadWorkers (microseconds (ro_worker_ttl o')) (microseconds (ro_stalled_ttl o'))) t w1))
       ''committing worker deletion sweep'' w"

text \<open>The summary is returned with the error: it counts what was committed before it.\<close>

definition Sweep :: "rescuer_options \<Rightarrow> world \<Rightarrow> (summary \<times> error option) \<times> world" where
  "Sweep o' w =
    (let none = \<lparr>sm_stalled = 0, sm_expired = 0, sm_removed = 0\<rparr> in
     case stallSilentWorkers o' w of
       (Inl e, w1) \<Rightarrow> ((none, Some e), w1)
     | (Inr stalled, w1) \<Rightarrow>
         (let s1 = none\<lparr>sm_stalled := stalled\<rparr> in
          case expireDeadSessions o' w1 of
            (Inl e, w2) \<Rightarrow> ((s1, Some e), w2)
          | (Inr expired, w2) \<Rightarrow>
              (let s2 = s1\<lparr>sm_expired := length expired\<rparr> in
               case deleteDeadWorkers o' w2 of
                 (Inl e, w3) \<Rightarrow> ((s2, Some e), w3)
               | (Inr removed, w3) \<Rightarrow> ((s2\<lparr>sm_removed := length removed\<rparr>, None), w3))))"

definition jitter :: "int \<Rightarrow> int \<Rightarrow> int option" where
  "jitter interval roll =
    (let span = go_div (wrap64 (interval * 2)) 5
     in case rand_Int64N (wrap64 (span + 1)) roll of
          None \<Rightarrow> None
        | Some r \<Rightarrow> Some (wrap64 (go_div (wrap64 (interval * 4)) 5 + r)))"

text \<open>
  \<open>Run\<close> over a script of ticks: the draw of the jitter, whether the context ended before the timer
  fired, and the surroundings of the sweep. \<open>None\<close> is the panic of \<open>rand.Int64N\<close>; a script that
  runs out leaves the loop waiting. The result lists the waits and the sweeps' results.
\<close>

record tick =
  tk_roll :: int
  tk_done :: bool

fun Run :: "rescuer_options \<Rightarrow> tick list \<Rightarrow> world
    \<Rightarrow> ((int \<times> (summary \<times> error option)) list \<times> world) option" where
  "Run o' [] w = Some ([], w)"
| "Run o' (k # ks) w =
    (case jitter (ro_interval o') (tk_roll k) of
       None \<Rightarrow> None
     | Some wait \<Rightarrow>
         (if tk_done k then Some ([], w)
          else (let (r, w1) = Sweep o' w
                in map_option (\<lambda>(rs, w2). ((wait, r) # rs, w2)) (Run o' ks w1))))"

section \<open>The sweep in an undisturbed database\<close>

definition stall_effect :: "rescuer_options \<Rightarrow> int \<Rightarrow> effect" where
  "stall_effect o' now d =
    d\<lparr>workers := update_where (\<lambda>w. wstatus w = Available \<and> silent now (microseconds (ro_worker_ttl o')) w)
        (\<lambda>w. w\<lparr>wstatus := Stalled\<rparr>) (workers d)\<rparr>"

definition expire_effect :: "rescuer_options \<Rightarrow> int \<Rightarrow> effect" where
  "expire_effect o' now d =
    (let dead = dead_session (microseconds (ro_session_ttl o')) now
     in d\<lparr>sessions := update_where dead (\<lambda>s. s\<lparr>sstatus := Expired\<rparr>) (sessions d),
          notified := notified d + (if list_ex dead (sessions d) then 1 else 0)\<rparr>)"

definition remove_effect :: "rescuer_options \<Rightarrow> int \<Rightarrow> effect" where
  "remove_effect o' now d =
    d\<lparr>workers := filter (\<lambda>w. \<not> (dead_worker (microseconds (ro_worker_ttl o')) (microseconds (ro_stalled_ttl o')) now w
        \<and> no_active_sessions d (wid w))) (workers d)\<rparr>"

definition sweep_effect :: "rescuer_options \<Rightarrow> int \<Rightarrow> effect" where
  "sweep_effect o' now = remove_effect o' now \<circ> expire_effect o' now \<circ> stall_effect o' now"

lemma in_tx_statement_calm:
  "in_tx m (\<lambda>t w1. wrapErr m' (tx_exec q t w1)) m'' (calm d t) =
    (case q t d of Inl e \<Rightarrow> (Inl (Wrap m' e), calm d t) | Inr (a, e) \<Rightarrow> (Inr a, calm (e d) t))"
  by (simp add: in_tx_calm split: sum.splits prod.splits)

lemma stall_calm:
  assumes "distinct (map wid (workers d))"
  shows "stallSilentWorkers o' (calm d t) =
    (Inr (int (length (filter (\<lambda>w. wstatus w = Available \<and> silent t (microseconds (ro_worker_ttl o')) w) (workers d)))),
     calm (stall_effect o' t d) t)"
  using update_by_keys [OF assms]
  by (simp add: stallSilentWorkers_def in_tx_statement_calm StallSilentWorkers_def Let_def
      stall_effect_def set_workers_def)

lemma expire_effect_eq:
  assumes "distinct (map sid (sessions d))"
  shows "expire_effect o' t d =
    (let ss = filter (dead_session (microseconds (ro_session_ttl o')) t) (sessions d);
         d' = set_sessions (map sid ss) (\<lambda>s. s\<lparr>sstatus := Expired\<rparr>) d
     in if ss = [] then d' else notify d')"
  unfolding expire_effect_def set_sessions_def Let_def update_by_keys [OF assms]
  by (simp add: notify_def list_ex_iff filter_empty_conv)

lemma expire_calm:
  assumes "distinct (map sid (sessions d))"
  shows "expireDeadSessions o' (calm d t) =
    (Inr (map (\<lambda>s. (sid s, sworker s)) (filter (dead_session (microseconds (ro_session_ttl o')) t) (sessions d))),
     calm (expire_effect o' t d) t)"
  unfolding expire_effect_eq [OF assms] Let_def
  by (cases "filter (dead_session (microseconds (ro_session_ttl o')) t) (sessions d)")
    (simp_all add: expireDeadSessions_def in_tx_calm expire_body_def ExpireDeadSessions_def Let_def
      NotifyCapacityChanged_def)

lemma remove_calm:
  assumes "distinct (map wid (workers d))"
  shows "deleteDeadWorkers o' (calm d t) =
    (Inr (map wid (filter (\<lambda>w. dead_worker (microseconds (ro_worker_ttl o')) (microseconds (ro_stalled_ttl o')) t w
        \<and> no_active_sessions d (wid w)) (workers d))), calm (remove_effect o' t d) t)"
proof -
  let ?p = "\<lambda>w. dead_worker (microseconds (ro_worker_ttl o')) (microseconds (ro_stalled_ttl o')) t w
        \<and> no_active_sessions d (wid w)"
  have "delete_workers (map wid (filter ?p (workers d))) d = remove_effect o' t d"
    unfolding remove_effect_def delete_workers_def filter_by_keys [OF assms] ..
  then show ?thesis
    by (simp add: deleteDeadWorkers_def in_tx_statement_calm DeleteDeadWorkers_def Let_def)
qed

lemma effects_ids:
  "map wid (workers (stall_effect o' t d)) = map wid (workers d)"
  "map sid (sessions (stall_effect o' t d)) = map sid (sessions d)"
  "map wid (workers (expire_effect o' t d)) = map wid (workers d)"
  "map sid (sessions (expire_effect o' t d)) = map sid (sessions d)"
  by (simp_all add: stall_effect_def expire_effect_def Let_def map_update_where)

lemma Sweep_calm:
  assumes "distinct (map wid (workers d))" and "distinct (map sid (sessions d))"
  shows "snd (Sweep o' (calm d t)) = calm (sweep_effect o' t d) t"
    and "snd (fst (Sweep o' (calm d t))) = None"
  using assms
  by (simp_all add: Sweep_def Let_def stall_calm expire_calm remove_calm effects_ids sweep_effect_def)

text \<open>What a sweep leaves behind.\<close>

definition swept :: "rescuer_options \<Rightarrow> int \<Rightarrow> database \<Rightarrow> bool" where
  "swept o' now d \<longleftrightarrow>
     list_all (\<lambda>w. \<not> (wstatus w = Available \<and> silent now (microseconds (ro_worker_ttl o')) w)) (workers d)
     \<and> list_all (\<lambda>s. \<not> dead_session (microseconds (ro_session_ttl o')) now s) (sessions d)
     \<and> list_all (\<lambda>w. \<not> (dead_worker (microseconds (ro_worker_ttl o')) (microseconds (ro_stalled_ttl o')) now w
         \<and> no_active_sessions d (wid w))) (workers d)"

lemma sweep_effect_swept: "swept o' now (sweep_effect o' now d)"
  by (auto simp: swept_def sweep_effect_def stall_effect_def expire_effect_def remove_effect_def Let_def
      list_all_iff set_update_where dead_session_def active_def no_active_sessions_def)

lemma swept_fixed: "swept o' now d \<Longrightarrow> sweep_effect o' now d = d"
  by (auto simp: swept_def sweep_effect_def stall_effect_def expire_effect_def remove_effect_def Let_def
      list_all_iff list_ex_iff update_where_id no_active_sessions_def intro!: filter_True)

text \<open>
  A worker that has been silent for both limits and whose active sessions are all dead is gone
  after one sweep, and so is its capacity: its sessions are expired and waiting requests are told.
\<close>

lemma lost_worker_removed:
  assumes "w \<in> set (workers d)" and "distinct (map wid (workers d))"
    and "silent now (microseconds (ro_worker_ttl o')) w" and "silent now (microseconds (ro_stalled_ttl o')) w"
    and "\<And>s. s \<in> set (sessions d) \<Longrightarrow> sworker s = wid w \<Longrightarrow> active s \<Longrightarrow>
      dead_session (microseconds (ro_session_ttl o')) now s"
  shows "wid w \<notin> wid ` set (workers (sweep_effect o' now d))"
proof -
  let ?d1 = "expire_effect o' now (stall_effect o' now d)"
  have "no_active_sessions ?d1 (wid w)"
    using assms(5)
    by (auto simp: no_active_sessions_def list_ex_iff expire_effect_def stall_effect_def Let_def
        set_update_where active_def)
  moreover have "dead_worker (microseconds (ro_worker_ttl o')) (microseconds (ro_stalled_ttl o')) now v"
    if v: "v \<in> set (workers ?d1)" "wid v = wid w" for v
  proof -
    from v obtain u where u: "u \<in> set (workers d)" "v = (if wstatus u = Available
        \<and> silent now (microseconds (ro_worker_ttl o')) u then u\<lparr>wstatus := Stalled\<rparr> else u)"
      by (auto simp: expire_effect_def stall_effect_def Let_def set_update_where)
    then have "u = w" using v(2) assms(1,2) by (auto simp: distinct_map inj_on_def split: if_splits)
    with u(2) assms(3,4) show ?thesis
      by (cases "wstatus w") (auto simp: dead_worker_def silent_def)
  qed
  ultimately show ?thesis
    by (auto simp: sweep_effect_def remove_effect_def)
qed

section \<open>The sweep in any surroundings\<close>

text \<open>A worker that still has an active session is never in the list a sweep deletes.\<close>

lemma deleted_have_no_sessions:
  "DeleteDeadWorkers a b now d = Inr (is, e) \<Longrightarrow> i \<in> set is \<Longrightarrow> count_active d i = 0"
  by (auto simp: DeleteDeadWorkers_def Let_def no_active_sessions_count)

text \<open>What a failed sweep reports: nothing after the phase that failed.\<close>

lemma Sweep_error:
  "Sweep o' w = ((sm, Some e), w') \<Longrightarrow> sm_removed sm = 0 \<and>
    (sm_expired sm = 0 \<or> (\<exists>w1 n w2. stallSilentWorkers o' w = (Inr (sm_stalled sm), w1)
        \<and> expireDeadSessions o' w1 = (Inr n, w2) \<and> sm_expired sm = length n))"
  by (auto simp: Sweep_def Let_def split: prod.splits sum.splits)

lemma jitter_eq: "jitter i roll = jitteredPollingInterval i roll"
  by (simp add: jitter_def jitteredPollingInterval_def)

lemma Run_never_panics:
  assumes "0 < ro_interval o'" and "ro_interval o' < 2 ^ 61"
  shows "Run o' ks w \<noteq> None"
proof (induction ks arbitrary: w)
  case Nil
  then show ?case by simp
next
  case (Cons k ks)
  obtain r where "jitter (ro_interval o') (tk_roll k) = Some r"
    using jitter_bounds [OF assms, of "tk_roll k"] by (auto simp: jitter_eq)
  moreover obtain a b where "Run o' ks (snd (Sweep o' w)) = Some (a, b)"
    using Cons.IH [of "snd (Sweep o' w)"] by auto
  ultimately show ?case by (auto split: prod.splits)
qed

lemma Sweep_swept:
  assumes "distinct (map wid (workers d))" and "distinct (map sid (sessions d))" and "swept o' t d"
  shows "Sweep o' (calm d t) = ((\<lparr>sm_stalled = 0, sm_expired = 0, sm_removed = 0\<rparr>, None), calm d t)"
proof -
  have s: "stallSilentWorkers o' (calm d t) = (Inr 0, calm d t)"
    using assms(3) by (simp add: stall_calm [OF assms(1)] stall_effect_def swept_def list_all_iff
        update_where_id filter_empty_conv)
  have e: "expireDeadSessions o' (calm d t) = (Inr [], calm d t)"
    using assms(3) by (simp add: expire_calm [OF assms(2)] expire_effect_def swept_def list_all_iff
        list_ex_iff update_where_id filter_empty_conv Let_def)
  have r: "deleteDeadWorkers o' (calm d t) = (Inr [], calm d t)"
  proof -
    have "filter (\<lambda>w. \<not> (dead_worker (microseconds (ro_worker_ttl o')) (microseconds (ro_stalled_ttl o')) t w
        \<and> no_active_sessions d (wid w))) (workers d) = workers d"
      using assms(3) by (intro filter_True) (simp add: swept_def list_all_iff)
    then show ?thesis
      using assms(3) by (simp add: remove_calm [OF assms(1)] remove_effect_def swept_def list_all_iff filter_empty_conv)
  qed
  show ?thesis by (simp add: Sweep_def s e r Let_def)
qed

lemma sweep_effect_distinct:
  "distinct (map wid (workers d)) \<Longrightarrow> distinct (map wid (workers (sweep_effect o' t d)))"
  "distinct (map sid (sessions d)) \<Longrightarrow> distinct (map sid (sessions (sweep_effect o' t d)))"
  by (simp_all add: sweep_effect_def remove_effect_def distinct_map_filter effects_ids)

text \<open>
  From \<open>2^62\<close> nanoseconds on, doubling the interval wraps around to a negative span, and
  \<open>rand.Int64N\<close> panics.
\<close>

lemma jitter_overflow:
  assumes "2 ^ 62 \<le> i" and "i \<le> 2 ^ 63 - 5"
  shows "jitter i roll = None"
proof -
  have w: "wrap64 (i * 2) = i * 2 - 2 ^ 64"
  proof -
    have "(i * 2 + 2 ^ 63) mod 2 ^ 64 = i * 2 + 2 ^ 63 - 2 ^ 64"
      using assms by (intro int_mod_pos_eq [of _ _ 1]) auto
    then show ?thesis by (simp add: wrap64_def)
  qed
  define m where "m = (2 ^ 64 - i * 2) div 5"
  have m: "1 \<le> m" "m < 2 ^ 62" using assms by (simp_all add: m_def)
  have g: "go_div (i * 2 - 2 ^ 64) 5 = - m"
    using assms by (simp add: go_div_def sgn_if m_def)
  have "wrap64 (- m + 1) = - m + 1" using m by (intro wrap64_id) auto
  with m show ?thesis unfolding jitter_def Let_def w g rand_Int64N_def by simp
qed

end
