(* ===== verification/Heartbeat_Facts.thy ===== *)
theory Heartbeat_Facts
  imports Fleet Admission Api_Handlers Rescuer
begin

text \<open>
  What the transactions of a heartbeat, a registration and a sweep do: all of it or nothing,
  whatever happens around them, and the exact result of a heartbeat in an undisturbed database.
\<close>

section \<open>All or nothing\<close>

text \<open>The body of a transaction leaves the committed database alone.\<close>

definition tx_body :: "(tx \<Rightarrow> world \<Rightarrow> (error + ('a \<times> tx)) \<times> world) \<Rightarrow> bool" where
  "tx_body body \<longleftrightarrow> (\<forall>t w. disturbed w (snd (body t w)))"

text \<open>
  The transaction with this body returned \<open>a\<close> and its writes, all of them, were committed once.
\<close>

definition tx_applied ::
  "(tx \<Rightarrow> world \<Rightarrow> (error + ('a \<times> tx)) \<times> world) \<Rightarrow> 'a \<Rightarrow> world \<Rightarrow> world \<Rightarrow> bool" where
  "tx_applied body a w w' \<longleftrightarrow>
     (\<exists>t w0 t' w1 w2. tx_effect t = id \<and> disturbed w w0 \<and> body t w0 = (Inr (a, t'), w1)
        \<and> disturbed w1 w2 \<and> w' = w2\<lparr>wdb := tx_effect t' (wdb w2)\<rparr>)"

text \<open>
  Success applies it; a failure applied nothing, unless the answer to its commit was lost.
\<close>

definition tx_once ::
  "(tx \<Rightarrow> world \<Rightarrow> (error + ('a \<times> tx)) \<times> world) \<Rightarrow> string \<Rightarrow> world \<Rightarrow> (error + 'a) \<times> world \<Rightarrow> bool" where
  "tx_once body commit_msg w r \<longleftrightarrow> (case r of
       (Inr a, w') \<Rightarrow> tx_applied body a w w'
     | (Inl x, w') \<Rightarrow> disturbed w w'
         \<or> (\<exists>c a. x = Wrap commit_msg (Cause c) \<and> tx_applied body a w w'))"

lemma andThen_disturbed:
  assumes "disturbed w (snd r)" and "\<And>a w1. r = (Inr a, w1) \<Longrightarrow> disturbed w1 (snd (k a w1))"
  shows "disturbed w (snd (andThen r k))"
  using assms by (cases r) (auto simp: andThen_def intro: disturbed_trans split: sum.splits)

lemma wrapErr_world [simp]: "snd (wrapErr m r) = snd r"
  by (simp add: wrapErr_def split: prod.splits sum.splits)

lemma tx_exec_world [simp]: "disturbed w (snd (tx_exec q t w))"
  by (cases "tx_exec q t w") (auto dest: tx_exec_disturbed)

lemma in_tx_once:
  assumes "tx_body body"
  shows "tx_once body m' w (in_tx m body m' w)"
proof -
  obtain b w1 where b: "tx_begin w = (b, w1)" by fastforce
  note d1 = tx_begin_disturbed [OF b]
  show ?thesis
  proof (cases b)
    case (Inl e)
    with b d1 show ?thesis by (simp add: in_tx_def tx_once_def)
  next
    case (Inr t)
    then have tid: "tx_effect t = id"
      using b by (auto simp: tx_begin_def Let_def split: prod.splits option.splits)
    obtain r w2 where r: "body t w1 = (r, w2)" by fastforce
    with assms have "disturbed w1 w2" unfolding tx_body_def by (metis snd_conv)
    with d1 have d2: "disturbed w w2" by (blast intro: disturbed_trans)
    show ?thesis
    proof (cases r)
      case (Inl e)
      obtain z w3 where f: "fail_tx e w2 = (z, w3)" by fastforce
      then have "disturbed w2 w3" by (rule fail_tx_disturbed)
      with d2 have "disturbed w w3" by (blast intro: disturbed_trans)
      moreover have "in_tx m body m' w = fail_tx e w2" using b Inr r Inl by (simp add: in_tx_def)
      moreover have "\<exists>e'. fst (fail_tx e w2 :: (error + 'a) \<times> world) = Inl e' \<and> snd (fail_tx e w2 :: (error + 'a) \<times> world) = w3"
        using f by (auto simp: fail_tx_def split: prod.splits)
      ultimately show ?thesis
        unfolding tx_once_def by (metis (no_types, lifting) case_prod_conv old.sum.simps(5) prod.collapse)
    next
      case ok: (Inr at)
      obtain a t' where at: "at = (a, t')" by fastforce
      obtain c w3 where c: "tx_commit t' w2 = (c, w3)" by fastforce
      have res: "in_tx m body m' w = (case c of Inl e \<Rightarrow> (Inl (Wrap m' e), w3) | Inr _ \<Rightarrow> (Inr a, w3))"
        using b Inr r ok at c by (simp add: in_tx_def split: sum.splits)
      have app: "tx_applied body a w (w4\<lparr>wdb := tx_effect t' (wdb w4)\<rparr>)" if "disturbed w2 w4" for w4
        unfolding tx_applied_def using tid d1 r ok at that by blast
      from c show ?thesis
      proof (cases rule: tx_commit_cases)
        case (ok w4)
        with app show ?thesis unfolding res tx_once_def by auto
      next
        case (lost w4 k)
        with app show ?thesis unfolding res tx_once_def by auto
      next
        case (failed k)
        with d2 show ?thesis unfolding res tx_once_def by (auto intro: disturbed_trans)
      qed
    qed
  qed
qed

lemma drain_world: "disturbed w (snd (drain_if_due opts worker t w))"
proof (cases "tx_exec (SetWorkerStatus (wid worker) Draining) t w")
  case (Pair r w')
  then show ?thesis
    using tx_exec_disturbed [OF Pair]
    by (auto simp: drain_if_due_def disturbed_refl split: sum.splits if_splits)
qed

lemma heartbeat_tx_body: "tx_body (heartbeat_body opts i reported)"
  unfolding tx_body_def heartbeat_body_def
  by (intro allI andThen_disturbed)
    (auto simp: disturbed_refl drain_world intro!: andThen_disturbed split: prod.splits)

lemma expire_tx_body: "tx_body (expire_body o')"
  unfolding tx_body_def expire_body_def
  by (intro allI andThen_disturbed) (auto simp: disturbed_refl intro!: andThen_disturbed split: prod.splits)

lemma register_tx_body: "tx_body (register_body p)"
  unfolding tx_body_def register_body_def
  by (intro allI andThen_disturbed) (auto simp: disturbed_refl intro!: andThen_disturbed split: prod.splits)

section \<open>A heartbeat in an undisturbed database\<close>

text \<open>
  The worker's row: the beat, the revival of a stalled worker, and the drain of one that reached
  its lifetime. The sessions: the running ones of this worker that it no longer reports, once past
  the grace period, fail.
\<close>

definition due_to_drain :: "sched_options \<Rightarrow> worker \<Rightarrow> bool" where
  "due_to_drain opts w \<longleftrightarrow>
     so_max_lifetime opts > 0 \<and> wlifetime w \<ge> so_max_lifetime opts \<and> wstatus w = Available"

definition beaten :: "sched_options \<Rightarrow> int \<Rightarrow> worker \<Rightarrow> worker" where
  "beaten opts now w = w\<lparr>wheartbeat := now,
     wstatus := (if wstatus w = Available \<or> wstatus w = Stalled
                 then (if 0 < so_max_lifetime opts \<and> so_max_lifetime opts \<le> wlifetime w then Draining else Available)
                 else wstatus w)\<rparr>"

definition overdue :: "sched_options \<Rightarrow> uuid \<Rightarrow> uuid list \<Rightarrow> int \<Rightarrow> session \<Rightarrow> bool" where
  "overdue opts i reported now s \<longleftrightarrow> sworker s = i \<and> sstatus s = Running
     \<and> (\<exists>started. sstarted s = Some started \<and> started + microseconds (so_grace opts) < now)
     \<and> sid s \<notin> set reported"

definition lost :: "sched_options \<Rightarrow> uuid \<Rightarrow> uuid list \<Rightarrow> int \<Rightarrow> database \<Rightarrow> session list" where
  "lost opts i reported now d = filter (overdue opts i reported now) (sessions d)"

definition heartbeat_effect :: "sched_options \<Rightarrow> uuid \<Rightarrow> uuid list \<Rightarrow> int \<Rightarrow> effect" where
  "heartbeat_effect opts i reported now d =
     d\<lparr>workers := update_where (\<lambda>w. wid w = i) (beaten opts now) (workers d),
       sessions := update_where (overdue opts i reported now) (\<lambda>s. s\<lparr>sstatus := Failed\<rparr>) (sessions d),
       notified := notified d + (if lost opts i reported now d = [] then 0 else 1)\<rparr>"

text \<open>The statements of the code do this.\<close>

lemma beaten_beat: "beaten opts now w =
    (let w1 = beat_heart now w in if due_to_drain opts w1 then w1\<lparr>wstatus := Draining\<rparr> else w1)"
  by (cases "wstatus w") (auto simp: beaten_def due_to_drain_def beat_heart_def Let_def)

lemma unreported_overdue: "unreported i (microseconds (so_grace opts)) reported now = overdue opts i reported now"
  by (auto simp: fun_eq_iff unreported_def overdue_def split: option.splits)

definition stale_ids :: "sched_options \<Rightarrow> uuid \<Rightarrow> uuid list \<Rightarrow> int \<Rightarrow> database \<Rightarrow> uuid list" where
  "stale_ids opts i reported now d =
     sort (remdups (filter (\<lambda>r. r \<notin> set (map sid (filter (\<lambda>s. sworker s = i \<and> active s)
       (sessions (heartbeat_effect opts i reported now d))))) reported))"

lemma update_where_twice:
  "update_where p g (update_where p f rs) = update_where p (\<lambda>r. if p (f r) then g (f r) else f r) rs"
  by (induction rs) auto

lemma beat_heart_id [simp]: "wid (beat_heart now w) = wid w" "wlifetime (beat_heart now w) = wlifetime w"
  by (simp_all add: beat_heart_def)

lemma update_where_compose:
  assumes "\<And>r. wid (f r) = wid r"
  shows "update_where (\<lambda>w. wid w \<in> set [i]) g (update_where (\<lambda>w. wid w \<in> set [i]) f rs)
    = update_where (\<lambda>w. wid w = i) (\<lambda>w. g (f w)) rs"
  using assms by (induction rs) auto

lemma update_one: "update_where (\<lambda>w. wid w \<in> set [i]) f rs = update_where (\<lambda>w. wid w = i) f rs"
  by (simp add: update_where_def)

lemma update_where_row_cong:
  "(\<And>r. r \<in> set rs \<Longrightarrow> p r \<Longrightarrow> f r = g r) \<Longrightarrow> update_where p f rs = update_where p g rs"
  by (induction rs) auto

lemma heartbeat_calm:
  assumes "schema_ok d"
  shows "Heartbeat opts i reported (calm d t) =
    (case lookup_row wid i (workers d) of
       None \<Rightarrow> (Inl (Wrap ''updating worker heartbeat'' ErrNoRows), calm d t)
     | Some w \<Rightarrow>
         (Inr (beaten opts t w, stale_ids opts i reported t d, map sid (lost opts i reported t d)),
          calm (heartbeat_effect opts i reported t d) t))"
proof (cases "lookup_row wid i (workers d)")
  case None
  then show ?thesis
    by (simp add: Heartbeat_def in_tx_calm heartbeat_body_def UpdateWorkerHeartbeat_def update_worker_def)
next
  case (Some w)
  then have wi: "wid w = i" "w \<in> set (workers d)" using lookup_row_Some by fastforce+
  have dw: "distinct (map wid (workers d))" and ds: "distinct (map sid (sessions d))"
    using assms by (auto dest: schema_okD)
  have only: "v = w" if "v \<in> set (workers d)" "wid v = i" for v
    using dw wi that by (auto simp: distinct_map inj_on_def)
  let ?grace = "microseconds (so_grace opts)"
  define L where "L = map sid (lost opts i reported t d)"
  define E1 where "E1 = set_workers [i] (beat_heart t)"
  define E2 where "E2 = set_sessions L (\<lambda>s. s\<lparr>sstatus := Failed\<rparr>)"
  define E3 where "E3 = (if L = [] then id else notify)"
  define d3 where "d3 = E3 (E2 (E1 d))"
  have lost_Nil: "lost opts i reported t d = [] \<longleftrightarrow> L = []" by (simp add: L_def)
  have up: "UpdateWorkerHeartbeat i t d = Inr (beat_heart t w, E1)"
    using Some by (simp add: UpdateWorkerHeartbeat_def update_worker_def E1_def)
  have fl: "FailUnreportedWorkerSessions i ?grace reported t (E1 d) = Inr (L, E2)"
    by (simp add: FailUnreportedWorkerSessions_def unreported_overdue lost_def L_def E1_def E2_def Let_def)
  have upd: "update_where (\<lambda>s. sid s \<in> set L) f (sessions d)
      = update_where (overdue opts i reported t) f (sessions d)" for f
    unfolding L_def lost_def by (rule update_by_keys [OF ds])
  have "sessions (E2 (E1 d)) = update_where (\<lambda>s. sid s \<in> set L) (\<lambda>s. s\<lparr>sstatus := Failed\<rparr>) (sessions d)"
    unfolding E1_def E2_def effect_targets effect_frames ..
  then have ss: "sessions d3 = update_where (overdue opts i reported t) (\<lambda>s. s\<lparr>sstatus := Failed\<rparr>) (sessions d)"
    unfolding upd by (simp add: d3_def E3_def)
  have st: "ListStaleWorkerSessionIDs reported i t d3 = Inr (stale_ids opts i reported t d, id)"
    by (simp add: ListStaleWorkerSessionIDs_def stale_ids_def ss heartbeat_effect_def Let_def)
  have ws: "workers d3 = update_where (\<lambda>w. wid w = i) (beat_heart t) (workers d)"
    by (simp add: d3_def E1_def E2_def E3_def effect_targets)
  have look: "lookup_row wid i (workers d3) = Some (beat_heart t w)"
    using Some wi(1) by (simp add: ws lookup_update_where)
  have nt: "notified d3 = notified d + (if L = [] then 0 else 1)"
    by (simp add: d3_def E1_def E2_def E3_def effect_targets)
  have ak: "api_keys d3 = api_keys d"
    by (simp add: d3_def E1_def E2_def E3_def)
  have drain: "SetWorkerStatus i Draining t d3 = Inr (beat_heart t w\<lparr>wstatus := Draining\<rparr>,
      set_workers [i] (\<lambda>w. w\<lparr>wstatus := Draining\<rparr>))" if "due_to_drain opts (beat_heart t w)"
    using look that by (simp add: SetWorkerStatus_def update_worker_def status_request_ok_def due_to_drain_def)
  define E4 where "E4 = (if due_to_drain opts (beat_heart t w)
     then set_workers [i] (\<lambda>w. w\<lparr>wstatus := Draining\<rparr>) else id)"
  have run: "Heartbeat opts i reported (calm d t)
    = (Inr (beaten opts t w, stale_ids opts i reported t d, L), calm (E4 d3) t)"
  proof (cases "L = []")
    case True
    with st drain show ?thesis
      by (auto simp: Heartbeat_def in_tx_calm heartbeat_body_def up fl d3_def E3_def E4_def
          drain_if_due_def due_to_drain_def [symmetric] beaten_beat Let_def wi(1) comp_def)
  next
    case False
    with st drain show ?thesis
      by (auto simp: Heartbeat_def in_tx_calm heartbeat_body_def up fl d3_def E3_def E4_def
          NotifyCapacityChanged_def drain_if_due_def due_to_drain_def [symmetric] beaten_beat Let_def wi(1) comp_def)
  qed
  have "workers (E4 d3) = update_where (\<lambda>w. wid w = i) (beaten opts t) (workers d)"
  proof -
    have "update_where (\<lambda>w. wid w = i) (beaten opts t) (workers d)
        = update_where (\<lambda>w. wid w = i) (\<lambda>_. beaten opts t w) (workers d)"
      using only by (intro update_where_row_cong) auto
    also have "\<dots> = workers (E4 d3)"
      using only wi(1)
      by (auto simp: E4_def ws effect_targets beaten_beat Let_def update_where_def beat_heart_def
          intro!: map_cong [OF refl])
    finally show ?thesis ..
  qed
  moreover have "sessions (E4 d3) = sessions d3" "notified (E4 d3) = notified d3" "api_keys (E4 d3) = api_keys d3"
    by (simp_all add: E4_def)
  ultimately have "E4 d3 = heartbeat_effect opts i reported t d"
    by (intro database.equality) (simp_all add: heartbeat_effect_def ss nt ak lost_Nil)
  with run Some show ?thesis by (simp add: L_def)
qed

end
