(* ===== verification/Waker.thy ===== *)
theory Waker
  imports Prelude
begin

text \<open>
  \<open>internal/scheduler/waker.go\<close> and \<open>listener.go\<close>: the set of waiting requests, each with a
  channel of capacity one, the broadcast that wakes them, and the loop that keeps a LISTEN
  connection to PostgreSQL open and broadcasts on every notification. Every operation of the waker
  runs under its mutex, so it is one step.
\<close>

section \<open>The waker\<close>

text \<open>\<open>waiters id = Some t\<close>: a waiter is subscribed; \<open>t\<close> says whether its channel holds a token.\<close>

record waker =
  nextID :: "64 word"
  waiters :: "64 word \<rightharpoonup> bool"

definition NewWaker :: waker where
  "NewWaker = \<lparr>nextID = 0, waiters = Map.empty\<rparr>"

definition Subscribe :: "waker \<Rightarrow> 64 word \<times> waker" where
  "Subscribe w = (nextID w, \<lparr>nextID = nextID w + 1, waiters = (waiters w)(nextID w \<mapsto> False)\<rparr>)"

definition unsubscribe :: "64 word \<Rightarrow> waker \<Rightarrow> waker" where
  "unsubscribe i w = w\<lparr>waiters := (waiters w)(i := None)\<rparr>"

text \<open>The send to a full channel takes the \<open>default\<close> branch: the token stays.\<close>

definition Wake :: "waker \<Rightarrow> waker" where
  "Wake w = w\<lparr>waiters := \<lambda>i. map_option (\<lambda>_. True) (waiters w i)\<rparr>"

text \<open>\<open>case <-wake\<close>: it fires when the channel holds a token, and takes it.\<close>

definition receive :: "64 word \<Rightarrow> waker \<Rightarrow> waker option" where
  "receive i w = (if waiters w i = Some True then Some (w\<lparr>waiters := (waiters w)(i \<mapsto> False)\<rparr>) else None)"

section \<open>Runs\<close>

datatype waker_op = OpSubscribe | OpUnsubscribe "64 word" | OpWake | OpReceive "64 word"

fun waker_step :: "waker_op \<Rightarrow> waker \<Rightarrow> waker" where
  "waker_step OpSubscribe w = snd (Subscribe w)"
| "waker_step (OpUnsubscribe i) w = unsubscribe i w"
| "waker_step OpWake w = Wake w"
| "waker_step (OpReceive i) w = (case receive i w of None \<Rightarrow> w | Some w' \<Rightarrow> w')"

fun subscriptions :: "waker_op list \<Rightarrow> nat" where
  "subscriptions [] = 0"
| "subscriptions (OpSubscribe # ops) = Suc (subscriptions ops)"
| "subscriptions (_ # ops) = subscriptions ops"

lemma subscriptions_append [simp]: "subscriptions (xs @ ys) = subscriptions xs + subscriptions ys"
  by (induction xs rule: subscriptions.induct) auto

text \<open>The operations a waiter \<open>i\<close> does not perform on its own channel.\<close>

fun leaves_alone :: "64 word \<Rightarrow> waker_op \<Rightarrow> bool" where
  "leaves_alone i (OpUnsubscribe j) = (j \<noteq> i)"
| "leaves_alone i (OpReceive j) = (j \<noteq> i)"
| "leaves_alone i _ = True"

text \<open>The identifiers in use come from the first \<open>n\<close> subscriptions.\<close>

definition issued :: "nat \<Rightarrow> waker \<Rightarrow> bool" where
  "issued n w \<longleftrightarrow> nextID w = of_nat n \<and> dom (waiters w) \<subseteq> of_nat ` {..<n}"

lemma issued_new: "issued 0 NewWaker"
  by (simp add: issued_def NewWaker_def)

lemma waker_step_dom:
  "op \<noteq> OpSubscribe \<Longrightarrow> nextID (waker_step op w) = nextID w \<and> dom (waiters (waker_step op w)) \<subseteq> dom (waiters w)"
  by (cases op) (auto simp: unsubscribe_def Wake_def receive_def split: if_splits)

lemma issued_step:
  assumes "issued n w"
  shows "issued (n + subscriptions [op]) (waker_step op w)"
proof (cases "op = OpSubscribe")
  case True
  with assms show ?thesis
    by (auto simp: issued_def Subscribe_def lessThan_Suc)
next
  case False
  then have "subscriptions [op] = 0" by (cases op) auto
  note d = waker_step_dom [OF False, of w]
  from assms have "dom (waiters w) \<subseteq> of_nat ` {..<n}" "nextID w = of_nat n"
    by (simp_all only: issued_def)
  with d have "dom (waiters (waker_step op w)) \<subseteq> of_nat ` {..<n}" "nextID (waker_step op w) = of_nat n"
    by (blast intro: subset_trans, simp only:)
  then show ?thesis
    by (simp only: issued_def \<open>subscriptions [op] = 0\<close> add_0_right)
qed

lemma issued_run: "issued n w \<Longrightarrow> issued (n + subscriptions ops) (fold waker_step ops w)"
proof (induction ops arbitrary: n w)
  case Nil
  then show ?case by simp
next
  case (Cons op ops)
  from Cons.IH [OF issued_step [OF Cons.prems, of op]] show ?case
    using subscriptions_append [of "[op]" ops] by (simp add: add.assoc)
qed

lemma of_nat_fresh:
  assumes "n < 2 ^ 64"
  shows "(of_nat n :: 64 word) \<notin> of_nat ` {..<n}"
proof
  assume "(of_nat n :: 64 word) \<in> of_nat ` {..<n}"
  then obtain m where m: "m < n" "(of_nat n :: 64 word) = of_nat m" by auto
  then have "unat (of_nat n :: 64 word) = unat (of_nat m :: 64 word)" by simp
  with m(1) assms show False by (simp add: unat_of_nat take_bit_nat_eq_self)
qed

text \<open>Until the counter wraps around, a subscription gets an identifier nobody else has.\<close>

lemma Subscribe_fresh:
  "issued n w \<Longrightarrow> n < 2 ^ 64 \<Longrightarrow> waiters w (fst (Subscribe w)) = None"
  using of_nat_fresh [of n] by (auto simp: issued_def Subscribe_def)

section \<open>No wake-up is lost\<close>

lemma token_kept_step:
  assumes "leaves_alone i op" and "waiters w i = Some t" and "nextID w \<noteq> i"
  shows "waiters (waker_step op w) i = Some (t \<or> op = OpWake)"
proof (cases op)
  case (OpReceive j)
  with assms show ?thesis by (auto simp: receive_def)
qed (use assms in \<open>auto simp: Subscribe_def unsubscribe_def Wake_def\<close>)

lemma token_kept:
  assumes "issued n w" and "n + subscriptions ops \<le> 2 ^ 64"
    and "i \<in> of_nat ` {..<n}" and "\<forall>op \<in> set ops. leaves_alone i op" and "waiters w i = Some t"
  shows "waiters (fold waker_step ops w) i = Some (t \<or> OpWake \<in> set ops)"
  using assms
proof (induction ops arbitrary: n w t)
  case Nil
  then show ?case by simp
next
  case (Cons op ops)
  have s: "subscriptions (op # ops) = subscriptions [op] + subscriptions ops"
    using subscriptions_append [of "[op]" ops] by simp
  have step: "waiters (waker_step op w) i = Some (t \<or> op = OpWake)"
  proof (cases "op = OpSubscribe")
    case True
    with Cons.prems(2) s have "n < 2 ^ 64" by simp
    with Cons.prems(1,3) have "nextID w \<noteq> i" using of_nat_fresh [of n] by (auto simp: issued_def)
    with Cons.prems(4,5) show ?thesis by (auto intro: token_kept_step)
  next
    case False
    with Cons.prems(4,5) show ?thesis
      by (cases op) (auto simp: unsubscribe_def Wake_def receive_def)
  qed
  have "i \<in> of_nat ` {..<n + subscriptions [op]}"
    using Cons.prems(3) by auto
  with Cons.IH [OF issued_step [OF Cons.prems(1), of op] _ _ _ step] Cons.prems(2,4) s
  show ?case by (auto simp: add.assoc)
qed

section \<open>The listener\<close>

definition listenerInitialBackoff :: int where
  "listenerInitialBackoff = 100 * millisecond"

definition listenerMaxBackoff :: int where
  "listenerMaxBackoff = 5 * second"

text \<open>
  One LISTEN connection: how the acquisition and the LISTEN statement end, how many notifications
  arrive before the wait fails and with which error, and how closing the connection ends.
\<close>

record connection =
  cn_acquire :: "error option"
  cn_listen :: "error option"
  cn_notifications :: nat
  cn_wait_error :: error
  cn_close :: "error option"

definition join_close :: "error option \<Rightarrow> error option \<Rightarrow> error option" where
  "join_close err close_err =
    errors_Join err (map_option (Wrap ''closing listener connection'') close_err)"

definition listen :: "connection \<Rightarrow> waker \<Rightarrow> (bool \<times> error option) \<times> waker" where
  "listen cn w =
    (case cn_acquire cn of
       Some e \<Rightarrow> ((False, Some (Wrap ''acquiring listener connection'' e)), w)
     | None \<Rightarrow>
         (case cn_listen cn of
            Some e \<Rightarrow>
              ((False, join_close (Some (Wrap ''subscribing to capacity changes'' e)) (cn_close cn)), w)
          | None \<Rightarrow>
              ((True, join_close
                  (if errors_Is (cn_wait_error cn) (Cause Canceled) then None
                   else Some (Wrap ''waiting for capacity notification'' (cn_wait_error cn)))
                  (cn_close cn)),
               (Wake ^^ cn_notifications cn) w)))"

text \<open>
  The reconnect loop over a script of connections: \<open>lr_before\<close>, \<open>lr_after\<close> and \<open>lr_wait\<close> say whether
  the context has ended at the loop's head, after \<open>listen\<close> and during the wait. The result is the
  list of waits that were started.
\<close>

record listener_round =
  lr_before :: bool
  lr_connection :: connection
  lr_after :: bool
  lr_wait :: bool

definition next_backoff :: "int \<Rightarrow> int" where
  "next_backoff b = min (wrap64 (b * 2)) listenerMaxBackoff"

fun RunListener_from :: "int \<Rightarrow> listener_round list \<Rightarrow> waker \<Rightarrow> int list \<times> waker" where
  "RunListener_from backoff [] w = ([], w)"
| "RunListener_from backoff (r # rs) w =
    (if lr_before r then ([], w)
     else (let ((connected, err), w') = listen (lr_connection r) w
           in if lr_after r then ([], w')
              else (let b = (if connected then listenerInitialBackoff else backoff)
                    in if lr_wait r then ([b], w')
                       else (let (bs, w'') = RunListener_from (next_backoff b) rs w' in (b # bs, w'')))))"

definition RunListener :: "listener_round list \<Rightarrow> waker \<Rightarrow> int list \<times> waker" where
  "RunListener rs w = RunListener_from listenerInitialBackoff rs w"

definition backoff_ok :: "int \<Rightarrow> bool" where
  "backoff_ok b \<longleftrightarrow> listenerInitialBackoff \<le> b \<and> b \<le> listenerMaxBackoff"

lemma backoff_initial: "backoff_ok listenerInitialBackoff"
  by (simp add: backoff_ok_def listenerInitialBackoff_def listenerMaxBackoff_def)

lemma backoff_next: "backoff_ok b \<Longrightarrow> backoff_ok (next_backoff b) \<and> next_backoff b = min (2 * b) listenerMaxBackoff"
  by (auto simp: backoff_ok_def next_backoff_def listenerInitialBackoff_def listenerMaxBackoff_def wrap64_id)

lemma RunListener_waits:
  "backoff_ok b \<Longrightarrow> list_all backoff_ok (fst (RunListener_from b rs w))"
proof (induction rs arbitrary: b w)
  case Nil
  then show ?case by simp
next
  case (Cons r rs)
  obtain connected err w' where l: "listen (lr_connection r) w = ((connected, err), w')"
    by (cases "listen (lr_connection r) w") auto
  define b' where "b' = (if connected then listenerInitialBackoff else b)"
  have b': "backoff_ok b'" using Cons.prems backoff_initial by (simp add: b'_def)
  have "list_all backoff_ok (fst (RunListener_from (next_backoff b') rs w'))"
    by (intro Cons.IH conjunct1 [OF backoff_next [OF b']])
  with l b' show ?case by (auto simp: Let_def b'_def split: prod.splits)
qed

lemma capped_double:
  fixes b M :: int
  assumes "0 \<le> M"
  shows "min (min (2 * b) M * 2 ^ j) M = min (b * 2 ^ Suc j) M"
proof (cases "2 * b \<le> M")
  case True
  then show ?thesis by (simp add: mult_ac)
next
  case False
  have "M * 1 \<le> M * 2 ^ j" using assms by (intro mult_left_mono) auto
  moreover have "M * 2 ^ j \<le> 2 * b * 2 ^ j" using False by (intro mult_right_mono) auto
  moreover have "2 * b * 2 ^ j = b * 2 ^ Suc j" by simp
  ultimately have "M \<le> M * 2 ^ j" "M \<le> b * 2 ^ Suc j" by linarith+
  with False show ?thesis by (simp add: min_def)
qed

lemma failed_connections_backoff:
  assumes "list_all (\<lambda>r. \<not> lr_before r \<and> \<not> lr_after r \<and> \<not> lr_wait r
      \<and> \<not> fst (fst (listen (lr_connection r) NewWaker))) rs" and "k < length rs" and "backoff_ok b"
  shows "fst (RunListener_from b rs w) ! k = min (b * 2 ^ k) listenerMaxBackoff"
  using assms
proof (induction rs arbitrary: b k w)
  case Nil
  then show ?case by simp
next
  case (Cons r rs)
  have c: "fst (fst (listen (lr_connection r) w)) = fst (fst (listen (lr_connection r) NewWaker))"
    by (simp add: listen_def split: option.splits)
  with Cons.prems(1) obtain e w' where l: "listen (lr_connection r) w = ((False, e), w')"
    by (cases "listen (lr_connection r) w") auto
  note nb = backoff_next [OF Cons.prems(3)]
  show ?case
  proof (cases k)
    case 0
    with l Cons.prems show ?thesis by (simp add: Let_def backoff_ok_def split: prod.splits)
  next
    case (Suc j)
    have "fst (RunListener_from b (r # rs) w) ! k = fst (RunListener_from (next_backoff b) rs w') ! j"
      using l Cons.prems(1) Suc by (simp add: Let_def split: prod.splits)
    also have "\<dots> = min (next_backoff b * 2 ^ j) listenerMaxBackoff"
      using Cons.prems Suc nb by (intro Cons.IH) auto
    also have "\<dots> = min (b * 2 ^ k) listenerMaxBackoff"
      unfolding conjunct2 [OF nb] Suc by (rule capped_double) (simp add: listenerMaxBackoff_def)
    finally show ?thesis .
  qed
qed

text \<open>A notification on an open connection leaves a token with every subscriber.\<close>

lemma listen_wakes:
  assumes "cn_acquire cn = None" and "cn_listen cn = None" and "0 < cn_notifications cn"
    and "waiters w i \<noteq> None"
  shows "waiters (snd (listen cn w)) i = Some True"
proof -
  have "waiters ((Wake ^^ Suc n) w) i = Some True" for n
    using assms(4) by (induction n) (auto simp: Wake_def)
  with assms(1-3) show ?thesis
    by (cases "cn_notifications cn") (simp_all add: listen_def del: funpow.simps)
qed

end
