(* ===== verification/Schema_Facts.thy ===== *)
theory Schema_Facts
  imports Fleet
begin

text \<open>
  Every statement keeps what the schema declares: keys stay unique, the column checks hold, and a
  session refers to a key that exists.
\<close>

section \<open>Writes\<close>

lemma schema_ok_iff:
  "schema_ok d \<longleftrightarrow> distinct (map wid (workers d)) \<and> distinct (map sid (sessions d))
     \<and> distinct (map kid (api_keys d)) \<and> distinct (map khash (api_keys d))
     \<and> (\<forall>w \<in> set (workers d). worker_check w) \<and> (\<forall>s \<in> set (sessions d). session_check s)
     \<and> (\<forall>s \<in> set (sessions d). \<forall>k. skey s = Some k \<longrightarrow> k \<in> set (map kid (api_keys d)))"
proof -
  have "(case o' of None \<Rightarrow> True | Some k \<Rightarrow> k \<in> A) \<longleftrightarrow> (\<forall>k. o' = Some k \<longrightarrow> k \<in> A)" for o' and A :: "uuid set"
    by (cases o') auto
  then show ?thesis by (simp add: schema_ok_def list_all_iff)
qed

lemma map_key_update_where:
  "(\<And>r. key (f r) = key r) \<Longrightarrow> map key (update_where p f rs) = map key rs"
  by (simp add: map_update_where)

lemma schema_set_workers:
  assumes "schema_ok d" and "\<And>w. wid (f w) = wid w"
    and "\<And>w. w \<in> set (workers d) \<Longrightarrow> wid w \<in> set is \<Longrightarrow> worker_check w \<Longrightarrow> worker_check (f w)"
  shows "schema_ok (set_workers is f d)"
  using assms by (auto simp: schema_ok_iff effect_targets map_key_update_where set_update_where)

lemma schema_set_sessions:
  assumes "schema_ok d" and "\<And>s. sid (f s) = sid s \<and> skey (f s) = skey s"
    and "\<And>s. session_check s \<Longrightarrow> session_check (f s)"
  shows "schema_ok (set_sessions is f d)"
  using assms by (auto simp: schema_ok_iff effect_targets map_key_update_where set_update_where)

lemma schema_set_keys:
  assumes "schema_ok d" and "\<And>k. kid (f k) = kid k \<and> khash (f k) = khash k"
  shows "schema_ok (set_keys is f d)"
proof -
  have "map kid (update_where p f ks) = map kid ks" "map khash (update_where p f ks) = map khash ks" for p ks
    using assms(2) by (simp_all add: map_key_update_where)
  with assms(1) show ?thesis by (simp add: schema_ok_iff effect_targets del: set_map)
qed

lemma schema_rows:
  assumes "schema_ok d" and "api_keys d' = api_keys d"
    and "workers d' = workers d \<or> workers d' = update_where p f (workers d)"
    and "sessions d' = sessions d \<or> sessions d' = update_where q g (sessions d)"
    and "\<And>w. wid (f w) = wid w" and "\<And>w. worker_check w \<Longrightarrow> worker_check (f w)"
    and "\<And>s. sid (g s) = sid s \<and> skey (g s) = skey s" and "\<And>s. session_check s \<Longrightarrow> session_check (g s)"
  shows "schema_ok d'"
proof -
  have "distinct (map wid (workers d')) \<and> (\<forall>w \<in> set (workers d'). worker_check w)"
    using assms(1,3,5,6) by (auto simp: schema_ok_iff map_key_update_where set_update_where)
  moreover have "distinct (map sid (sessions d')) \<and> (\<forall>s \<in> set (sessions d'). session_check s)
      \<and> (\<forall>s \<in> set (sessions d'). \<forall>k. skey s = Some k \<longrightarrow> k \<in> set (map kid (api_keys d)))"
    using assms(1,4,7,8) by (auto simp: schema_ok_iff map_key_update_where set_update_where)
  ultimately show ?thesis using assms(1,2) by (simp add: schema_ok_iff)
qed

lemma schema_notify: "schema_ok d \<Longrightarrow> schema_ok (notify d)"
  by (simp add: schema_ok_iff)

lemma schema_delete_workers: "schema_ok d \<Longrightarrow> schema_ok (delete_workers is d)"
  by (auto simp: schema_ok_iff effect_targets intro: distinct_map_filter)

section \<open>Rows\<close>

lemma status_check: "worker_check (w\<lparr>wstatus := st\<rparr>) = worker_check w"
  and beat_check: "worker_check (beat_heart now w) = worker_check w"
  and grown_check: "worker_check w \<Longrightarrow> worker_check (w\<lparr>wlifetime := wlifetime w + 1\<rparr>)"
  by (simp_all add: worker_check_def beat_heart_def)

lemma session_row_checks:
  "session_check s \<Longrightarrow> session_check (start_row now s)"
  "session_check s \<Longrightarrow> st \<noteq> Running \<Longrightarrow> session_check (s\<lparr>sstatus := st\<rparr>)"
  "session_check s \<Longrightarrow> session_check (s\<lparr>sheartbeat := now\<rparr>)"
  by (auto simp: session_check_def start_row_def split: option.splits)

section \<open>Statements\<close>

lemma update_worker_schema:
  assumes "update_worker g f i now d = Inr (w, e)" and "schema_ok d"
    and "\<And>w. wid (f w) = wid w" and "\<And>w. worker_check w \<Longrightarrow> worker_check (f w)"
  shows "schema_ok (e d)"
  using assms by (auto simp: update_worker_Inr intro: schema_set_workers)

lemma update_session_schema:
  assumes "update_session g f after i now d = Inr (s, e)" and "schema_ok d"
    and "\<And>s. sid (f s) = sid s \<and> skey (f s) = skey s" and "\<And>s. session_check s \<Longrightarrow> session_check (f s)"
    and "after = id \<or> after = notify"
  shows "schema_ok (e d)"
proof -
  have "schema_ok (set_sessions [i] f d)" using assms(2-4) by (rule schema_set_sessions)
  moreover from this have "schema_ok (notify (set_sessions [i] f d))" by (rule schema_notify)
  moreover have "e = after \<circ> set_sessions [i] f" using assms(1) by (auto simp: update_session_Inr)
  ultimately show ?thesis using assms(5) by auto
qed

lemma insert_key_schema:
  "InsertAPIKey p now d = Inr (k, e) \<Longrightarrow> schema_ok d \<Longrightarrow> schema_ok (e d)"
  by (auto simp: InsertAPIKey_def Let_def schema_ok_iff effect_targets split: if_splits option.splits)

lemma delete_key_schema:
  assumes "DeleteAPIKey i now d = Inr ((), e)" and "schema_ok d"
  shows "schema_ok (e d)"
proof -
  from assms(1) have e: "e = delete_keys [i]" "\<not> list_ex (\<lambda>s. skey s = Some i) (sessions d) \<or> i \<notin> kid ` set (api_keys d)"
    by (auto simp: DeleteAPIKey_def split: if_splits)
  have "\<exists>k' \<in> set (api_keys d). kid k' = k \<and> k \<noteq> i" if "s \<in> set (sessions d)" "skey s = Some k" for s k
  proof -
    have "k \<in> kid ` set (api_keys d)" using that assms(2) by (simp add: schema_ok_iff)
    moreover have "k \<noteq> i" using that e(2) calculation by (auto simp: list_ex_iff)
    ultimately show ?thesis by auto
  qed
  with assms(2) show ?thesis
    by (auto simp: schema_ok_iff e(1) effect_targets intro: distinct_map_filter split: option.splits)
qed

lemma register_schema:
  "RegisterWorker p now d = Inr (w, e) \<Longrightarrow> schema_ok d \<Longrightarrow> schema_ok (e d)"
  by (auto simp: RegisterWorker_def Let_def schema_ok_iff effect_targets split: if_splits)

lemma insert_claimed_schema:
  "InsertClaimedSession p now d = Inr (s, e) \<Longrightarrow> schema_ok d \<Longrightarrow> schema_ok (e d)"
  by (auto simp: InsertClaimedSession_def Let_def schema_ok_iff effect_targets split: if_splits option.splits)

lemma increment_schema:
  "IncrementWorkerLifetimeSessions i now d = Inr (w, e) \<Longrightarrow> schema_ok d \<Longrightarrow> schema_ok (e d)"
  by (auto simp: IncrementWorkerLifetimeSessions_def intro: update_worker_schema grown_check
      split: option.splits if_splits)

lemma session_transition_schema:
  assumes "schema_ok d"
  shows "StartSession i now d = Inr (s, e) \<Longrightarrow> schema_ok (e d)"
    and "CompleteSession i now d = Inr (s, e) \<Longrightarrow> schema_ok (e d)"
    and "FailSession i now d = Inr (s, e) \<Longrightarrow> schema_ok (e d)"
    and "TerminateSession i now d = Inr (s, e) \<Longrightarrow> schema_ok (e d)"
    and "RenewSessionHeartbeat i now d = Inr (s, e) \<Longrightarrow> schema_ok (e d)"
  unfolding session_transition_defs
  by (erule update_session_schema [OF _ assms]; simp add: session_row_checks start_row_def; fail
      | erule update_session_schema [OF _ assms], simp add: start_row_def, rule session_row_checks, assumption, simp)+

lemma bulk_session_schema:
  assumes "schema_ok d"
  shows "ExpireDeadSessions ttl now d = Inr (rs, e) \<Longrightarrow> schema_ok (e d)"
    and "FailUnreportedWorkerSessions i grace reported now d = Inr (is, e) \<Longrightarrow> schema_ok (e d)"
proof -
  have "schema_ok (set_sessions is (\<lambda>s. s\<lparr>sstatus := st\<rparr>) d)" if "st \<noteq> Running" for "is" st
    using assms by (rule schema_set_sessions) (simp_all add: session_row_checks that)
  then show "ExpireDeadSessions ttl now d = Inr (rs, e) \<Longrightarrow> schema_ok (e d)"
    "FailUnreportedWorkerSessions i grace reported now d = Inr (is, e) \<Longrightarrow> schema_ok (e d)"
    by (auto simp: ExpireDeadSessions_def FailUnreportedWorkerSessions_def Let_def)
qed

lemma worker_statement_schema:
  assumes "schema_ok d"
  shows "UpdateWorkerHeartbeat i now d = Inr (w, e) \<Longrightarrow> schema_ok (e d)"
    and "SetWorkerStatus i target now d = Inr (w, e) \<Longrightarrow> schema_ok (e d)"
    and "StallSilentWorkers ttl now d = Inr (n, e) \<Longrightarrow> schema_ok (e d)"
    and "DeleteDeadWorkers ttl ttl' now d = Inr (is, e) \<Longrightarrow> schema_ok (e d)"
proof -
  show "UpdateWorkerHeartbeat i now d = Inr (w, e) \<Longrightarrow> schema_ok (e d)"
    unfolding UpdateWorkerHeartbeat_def
    by (erule update_worker_schema [OF _ assms]) (simp_all add: beat_check, simp add: beat_heart_def)
  show "SetWorkerStatus i target now d = Inr (w, e) \<Longrightarrow> schema_ok (e d)"
    unfolding SetWorkerStatus_def by (erule update_worker_schema [OF _ assms]) (simp_all add: status_check)
  have "schema_ok (set_workers is (\<lambda>w. w\<lparr>wstatus := Stalled\<rparr>) d)" for "is"
    using assms by (rule schema_set_workers) (simp_all add: status_check)
  then show "StallSilentWorkers ttl now d = Inr (n, e) \<Longrightarrow> schema_ok (e d)"
    by (auto simp: StallSilentWorkers_def Let_def)
  show "DeleteDeadWorkers ttl ttl' now d = Inr (is, e) \<Longrightarrow> schema_ok (e d)"
    using schema_delete_workers [OF assms] by (auto simp: DeleteDeadWorkers_def Let_def)
qed

lemma key_statement_schema:
  assumes "schema_ok d"
  shows "TouchAPIKey i now d = Inr (u, e) \<Longrightarrow> schema_ok (e d)"
    and "RevokeAPIKey i now d = Inr (k, e) \<Longrightarrow> schema_ok (e d)"
proof -
  have "schema_ok (set_keys is (\<lambda>k. k\<lparr>klast_used := Some now\<rparr>) d)"
    "schema_ok (set_keys is (\<lambda>k. k\<lparr>krevoked := Some now\<rparr>) d)" for "is"
    by (rule schema_set_keys [OF assms], simp)+
  then show "TouchAPIKey i now d = Inr (u, e) \<Longrightarrow> schema_ok (e d)"
    "RevokeAPIKey i now d = Inr (k, e) \<Longrightarrow> schema_ok (e d)"
    by (auto simp: TouchAPIKey_def RevokeAPIKey_def split: option.splits if_splits)
qed

lemma notify_statement_schema: "schema_ok d \<Longrightarrow> NotifyCapacityChanged now d = Inr (u, e) \<Longrightarrow> schema_ok (e d)"
  by (auto simp: NotifyCapacityChanged_def intro: schema_notify)

lemmas statement_schema = session_transition_schema bulk_session_schema worker_statement_schema
  key_statement_schema notify_statement_schema

lemma store_step_schema: "store_step L d d' \<Longrightarrow> schema_ok d \<Longrightarrow> schema_ok d'"
  by (induction rule: store_step.induct)
    (erule (1) statement_schema insert_key_schema delete_key_schema register_schema
      statement_schema [rotated] insert_key_schema [rotated])+

end
