(* ===== verification/Wakeups.thy ===== *)
theory Wakeups
  imports Heartbeat_Facts Waker Claim_Protocol Schema_Facts
begin

text \<open>
  How freed capacity reaches a waiting request: every operation that ends sessions commits a
  notification with them, the listener turns it into a token for every waiter, and the token stays
  until the waiter takes it. Then: the capacity the report advertises is capacity a claim gets.
\<close>

section \<open>Operations that end sessions\<close>

datatype release =
    RelayComplete uuid
  | RelayFail uuid
  | ApiTerminate uuid
  | SweepExpire rescuer_options
  | WorkerHeartbeat sched_options uuid "uuid list"

fun release_run :: "release \<Rightarrow> world \<Rightarrow> world" where
  "release_run (RelayComplete i) w = recordOutcome i True w"
| "release_run (RelayFail i) w = recordOutcome i False w"
| "release_run (ApiTerminate i) w = snd (delete_session i w)"
| "release_run (SweepExpire o') w = snd (expireDeadSessions o' w)"
| "release_run (WorkerHeartbeat opts i reported) w = snd (Heartbeat opts i reported w)"

lemma count_active_cong: "sessions d' = sessions d \<Longrightarrow> count_active d' i = count_active d i"
  by (simp add: count_active_def)

lemma delete_session_calm:
  "delete_session i (calm d t) =
    (case lookup_row sid i (sessions d) of
       None \<Rightarrow> (Refusal (Some (plain_reply 404 ''session not found'')), calm d t)
     | Some s \<Rightarrow> (Answer 204 (),
         calm (if active s then notify (set_sessions [i] (\<lambda>s. s\<lparr>sstatus := Completed\<rparr>) d) else d) t))"
  by (simp add: delete_session_def TerminateSession_def update_session_def GetSession_def split: option.splits)

text \<open>
  In any surroundings each of them changes the database by one commit at most, between what others
  do before and after it; and the write of that commit itself frees no slot without a notification,
  whatever database it falls upon.
\<close>

definition one_commit :: "effect \<Rightarrow> world \<Rightarrow> world \<Rightarrow> bool" where
  "one_commit e w w' \<longleftrightarrow> (\<exists>w1. disturbed w w1 \<and> disturbed (w1\<lparr>wdb := e (wdb w1)\<rparr>) w')"

definition telling :: "effect \<Rightarrow> bool" where
  "telling e \<longleftrightarrow> (\<forall>d. sessions (e d) = sessions d \<or> notified d < notified (e d))"

lemma telling_frees: "telling e \<Longrightarrow> count_active (e d) i < count_active d i \<Longrightarrow> notified d < notified (e d)"
  unfolding telling_def using count_active_cong [of "e d" d i] by fastforce

lemma one_commitI: "disturbed w w1 \<Longrightarrow> w' = w1\<lparr>wdb := e (wdb w1)\<rparr> \<Longrightarrow> one_commit e w w'"
  unfolding one_commit_def by (blast intro: disturbed_refl)

lemma one_commit_after: "one_commit e w v \<Longrightarrow> disturbed v w' \<Longrightarrow> one_commit e w w'"
  unfolding one_commit_def by (blast intro: disturbed_trans)

lemma exec_commits:
  assumes "exec q w = (r, w')" and "\<And>now d x e. q now d = Inr (x, e) \<Longrightarrow> telling e"
  shows "disturbed w w' \<or> (\<exists>e. telling e \<and> one_commit e w w')"
proof -
  obtain b w1 where b: "next_beat w = (b, w1)" by fastforce
  note d = disturbed_next [OF b]
  show ?thesis
  proof (cases "q (clock w1) (wdb w1)")
    case (Inl x)
    with assms(1) b d show ?thesis by (auto simp: exec_def split: option.splits)
  next
    case (Inr xe)
    then obtain x e where q: "q (clock w1) (wdb w1) = Inr (x, e)" by (cases xe) auto
    have "w' = w1 \<or> w' = w1\<lparr>wdb := e (wdb w1)\<rparr>"
      using assms(1) b q by (auto simp: exec_def split: option.splits if_splits)
    with d assms(2) [OF q] show ?thesis by (blast intro: one_commitI)
  qed
qed

lemma update_session_telling: "update_session g f notify i now d = Inr (x, e) \<Longrightarrow> telling e"
  by (auto simp: update_session_Inr telling_def effect_targets)

lemma exec_get_session: "exec (GetSession i) w = (r, w') \<Longrightarrow> disturbed w w'"
  by (auto simp: exec_def GetSession_def dest: disturbed_next split: prod.splits option.splits if_splits)

lemma tx_commits:
  assumes "tx_body body" and "tx_once body m w r"
    and "\<And>a t w0 t' w1. body t w0 = (Inr (a, t'), w1) \<Longrightarrow> tx_effect t = id \<Longrightarrow> telling (tx_effect t')"
  shows "disturbed w (snd r) \<or> (\<exists>e. telling e \<and> one_commit e w (snd r))"
proof -
  have "\<exists>e. telling e \<and> one_commit e w w'" if "tx_applied body a w w'" for a w'
  proof -
    from that obtain t w0 t' w1 w2 where t: "tx_effect t = id" "disturbed w w0" "body t w0 = (Inr (a, t'), w1)"
      "disturbed w1 w2" "w' = w2\<lparr>wdb := tx_effect t' (wdb w2)\<rparr>" unfolding tx_applied_def by blast
    have "disturbed w0 w1" using assms(1) t(3) unfolding tx_body_def by (metis snd_conv)
    with t(2,4) have "disturbed w w2" by (blast intro: disturbed_trans)
    with t(5) assms(3) [OF t(3,1)] show ?thesis by (blast intro: one_commitI)
  qed
  with assms(2) show ?thesis by (cases r) (auto simp: tx_once_def split: sum.splits)
qed

lemma set_workers_sessions:
  "UpdateWorkerHeartbeat i now d = Inr (w, e) \<Longrightarrow> sessions (e d') = sessions d' \<and> notified (e d') = notified d'"
  "SetWorkerStatus i target now d = Inr (w, e) \<Longrightarrow> sessions (e d') = sessions d' \<and> notified (e d') = notified d'"
  by (auto simp: UpdateWorkerHeartbeat_def SetWorkerStatus_def update_worker_Inr)

lemma heartbeat_telling:
  assumes "heartbeat_body opts i reported t w = (Inr (a, t'), w')" and "tx_effect t = id"
  shows "telling (tx_effect t')"
proof -
  from assms(1) obtain worker t1 w1 failed t2 w2 u t3 w3 stale t4 w4 x w5 where
    up: "tx_exec (UpdateWorkerHeartbeat i) t w = (Inr (worker, t1), w1)"
    and fl: "tx_exec (FailUnreportedWorkerSessions i (microseconds (so_grace opts)) reported) t1 w1 = (Inr (failed, t2), w2)"
    and nt: "(if failed \<noteq> [] then wrapErr ''notifying reconciled capacity'' (tx_exec NotifyCapacityChanged t2 w2)
        else (Inr ((), t2), w2)) = (Inr (u, t3), w3)"
    and st: "tx_exec (ListStaleWorkerSessionIDs reported i) t3 w3 = (Inr (stale, t4), w4)"
    and dr: "drain_if_due opts worker t4 w4 = (Inr (x, t'), w5)"
    by (auto simp: heartbeat_body_def andThen_Inr wrapErr_Inr)
  obtain e1 where e1: "tx_effect t1 = e1" "\<And>d. sessions (e1 d) = sessions d \<and> notified (e1 d) = notified d"
    using tx_exec_Inr [OF up] assms(2) set_workers_sessions(1) by fastforce
  have e2: "tx_effect t2 = set_sessions failed (\<lambda>s. s\<lparr>sstatus := Failed\<rparr>) \<circ> e1"
    using tx_exec_Inr [OF fl] e1(1) by (auto simp: FailUnreportedWorkerSessions_def Let_def)
  have e3: "tx_effect t3 = (if failed \<noteq> [] then notify else id) \<circ> tx_effect t2"
    using nt by (auto simp: wrapErr_Inr NotifyCapacityChanged_def dest!: tx_exec_Inr split: if_splits)
  have e4: "tx_effect t4 = tx_effect t3"
    using tx_exec_Inr [OF st] by (auto simp: ListStaleWorkerSessionIDs_def Let_def)
  have "\<exists>e5. tx_effect t' = e5 \<circ> tx_effect t4 \<and> (\<forall>d. sessions (e5 d) = sessions d \<and> notified (e5 d) = notified d)"
  proof (cases "\<exists>y w6. tx_exec (SetWorkerStatus (wid worker) Draining) t4 w4 = (Inr (y, t'), w6)")
    case True
    then show ?thesis using set_workers_sessions(2) by (fastforce dest!: tx_exec_Inr)
  next
    case False
    with dr have "t' = t4"
      by (auto simp: drain_if_due_def split: if_splits sum.splits prod.splits)
    then show ?thesis by (intro exI [of _ id]) simp
  qed
  then obtain e5 where e5: "tx_effect t' = e5 \<circ> tx_effect t4"
    "\<And>d. sessions (e5 d) = sessions d \<and> notified (e5 d) = notified d" by blast
  show ?thesis
    unfolding telling_def e5(1) e4 e3 e2
    using e1(2) e5(2) by (cases "failed = []") (auto simp: effect_targets update_where_id)
qed

lemma expire_telling:
  assumes "expire_body o' t w = (Inr (a, t'), w')" and "tx_effect t = id"
  shows "telling (tx_effect t')"
proof -
  from assms(1) obtain expired t1 w1 u t2 w2 where
    ex: "tx_exec (ExpireDeadSessions (microseconds (ro_session_ttl o'))) t w = (Inr (expired, t1), w1)"
    and nt: "(if expired \<noteq> [] then wrapErr ''notifying expired session capacity'' (tx_exec NotifyCapacityChanged t1 w1)
        else (Inr ((), t1), w1)) = (Inr (u, t2), w2)" and t': "t' = t2"
    by (auto simp: expire_body_def andThen_Inr wrapErr_Inr)
  have e1: "tx_effect t1 = set_sessions (map fst expired) (\<lambda>s. s\<lparr>sstatus := Expired\<rparr>)"
    using tx_exec_Inr [OF ex] assms(2) by (auto simp: ExpireDeadSessions_def Let_def comp_def)
  have e2: "tx_effect t2 = (if expired \<noteq> [] then notify else id) \<circ> tx_effect t1"
    using nt by (auto simp: wrapErr_Inr NotifyCapacityChanged_def dest!: tx_exec_Inr split: if_splits)
  show ?thesis
    unfolding telling_def t' e2 e1 by (cases "expired = []") (auto simp: effect_targets update_where_id)
qed

lemma release_commits:
  "disturbed w (release_run r w) \<or> (\<exists>e. telling e \<and> one_commit e w (release_run r w))"
proof (cases r)
  case (RelayComplete i)
  obtain x w' where "exec (CompleteSession i) w = (x, w')" by fastforce
  with exec_commits [OF this] RelayComplete show ?thesis
    by (auto simp: recordOutcome_def CompleteSession_def dest: update_session_telling)
next
  case (RelayFail i)
  obtain x w' where "exec (FailSession i) w = (x, w')" by fastforce
  with exec_commits [OF this] RelayFail show ?thesis
    by (auto simp: recordOutcome_def FailSession_def dest: update_session_telling)
next
  case (ApiTerminate i)
  obtain x v where x: "exec (TerminateSession i) w = (x, v)" by fastforce
  have e: "disturbed w v \<or> (\<exists>e. telling e \<and> one_commit e w v)"
    using exec_commits [OF x] by (auto simp: TerminateSession_def dest: update_session_telling)
  have "disturbed v (release_run r w)"
    using x exec_get_session [of i v] ApiTerminate disturbed_refl
    by (auto simp: delete_session_def split: sum.splits prod.splits)
  with e show ?thesis by (blast intro: disturbed_trans one_commit_after)
next
  case (SweepExpire o')
  have "tx_once (expire_body o') ''committing session expiry sweep'' w (expireDeadSessions o' w)"
    unfolding expireDeadSessions_def by (intro in_tx_once expire_tx_body)
  from tx_commits [OF expire_tx_body this expire_telling] SweepExpire show ?thesis by simp
next
  case (WorkerHeartbeat opts i reported)
  have "tx_once (heartbeat_body opts i reported) ''committing worker heartbeat'' w (Heartbeat opts i reported w)"
    unfolding Heartbeat_def by (intro in_tx_once heartbeat_tx_body)
  from tx_commits [OF heartbeat_tx_body this heartbeat_telling] WorkerHeartbeat show ?thesis by simp
qed

lemma release_notifies:
  assumes "schema_ok d" and "count_active (wdb (release_run r (calm d t))) i < count_active d i"
  shows "notified d < notified (wdb (release_run r (calm d t)))"
proof (cases r)
  case (RelayComplete j)
  with assms(2) show ?thesis
    by (auto simp: recordOutcome_calm effect_targets split: option.splits if_splits)
next
  case (RelayFail j)
  with assms(2) show ?thesis
    by (auto simp: recordOutcome_calm effect_targets split: option.splits if_splits)
next
  case (ApiTerminate j)
  with assms(2) show ?thesis
    by (auto simp: delete_session_calm effect_targets split: option.splits if_splits)
next
  case (SweepExpire o')
  let ?p = "dead_session (microseconds (ro_session_ttl o')) t"
  have run: "wdb (release_run r (calm d t)) = expire_effect o' t d"
    using expire_calm [OF schema_okD(2) [OF assms(1)]] SweepExpire by simp
  have "list_ex ?p (sessions d)"
  proof (rule ccontr)
    assume "\<not> list_ex ?p (sessions d)"
    then have "sessions (expire_effect o' t d) = sessions d"
      by (simp add: expire_effect_def Let_def list_ex_iff update_where_id)
    with assms(2) run show False using count_active_cong [of "expire_effect o' t d" d i] by simp
  qed
  then show ?thesis by (simp add: run expire_effect_def Let_def)
next
  case (WorkerHeartbeat opts j reported)
  show ?thesis
  proof (cases "lookup_row wid j (workers d)")
    case None
    with assms WorkerHeartbeat show ?thesis by (simp add: heartbeat_calm)
  next
    case (Some w)
    with assms(1) WorkerHeartbeat have run: "wdb (release_run r (calm d t)) = heartbeat_effect opts j reported t d"
      by (simp add: heartbeat_calm)
    have "lost opts j reported t d \<noteq> []"
    proof
      assume "lost opts j reported t d = []"
      then have "sessions (heartbeat_effect opts j reported t d) = sessions d"
        by (simp add: heartbeat_effect_def lost_def filter_empty_conv update_where_id)
      with assms(2) run show False
        using count_active_cong [of "heartbeat_effect opts j reported t d" d i] by simp
    qed
    then show ?thesis by (simp add: run heartbeat_effect_def)
  qed
qed

text \<open>The database after them is as well-formed as before.\<close>

lemma beaten_row: "wid (beaten opts now w) = wid w" "worker_check (beaten opts now w) = worker_check w"
  by (simp_all add: beaten_def Let_def beat_heart_def worker_check_def)

lemma ended_row: "st \<noteq> Running \<Longrightarrow> session_check s \<Longrightarrow> session_check (s\<lparr>sstatus := st\<rparr>)"
  by (rule session_row_checks)

lemma finished_schema: "st \<noteq> Running \<Longrightarrow> schema_ok d \<Longrightarrow> schema_ok (set_sessions is (\<lambda>s. s\<lparr>sstatus := st\<rparr>) d)"
  by (rule schema_set_sessions) (auto intro: ended_row)

lemma release_schema:
  assumes "schema_ok d"
  shows "schema_ok (wdb (release_run r (calm d t)))"
proof (cases r)
  case (RelayComplete j)
  then show ?thesis
    using assms by (auto simp: recordOutcome_calm split: option.split intro: schema_notify finished_schema)
next
  case (RelayFail j)
  then show ?thesis
    using assms by (auto simp: recordOutcome_calm split: option.split intro: schema_notify finished_schema)
next
  case (ApiTerminate j)
  then show ?thesis
    using assms by (auto simp: delete_session_calm split: option.split intro: schema_notify finished_schema)
next
  case (SweepExpire o')
  then have "wdb (release_run r (calm d t)) = expire_effect o' t d"
    using expire_calm [OF schema_okD(2) [OF assms]] by simp
  moreover have "schema_ok (expire_effect o' t d)"
    by (rule schema_rows [OF assms, where f = id and p = "\<lambda>_. True"
          and q = "dead_session (microseconds (ro_session_ttl o')) t" and g = "\<lambda>s. s\<lparr>sstatus := Expired\<rparr>"])
      (simp_all add: expire_effect_def Let_def ended_row)
  ultimately show ?thesis by simp
next
  case (WorkerHeartbeat opts j reported)
  have "schema_ok (heartbeat_effect opts j reported t d)"
    by (rule schema_rows [OF assms, where p = "\<lambda>w. wid w = j" and f = "beaten opts t"
          and q = "overdue opts j reported t" and g = "\<lambda>s. s\<lparr>sstatus := Failed\<rparr>"])
      (simp_all add: heartbeat_effect_def beaten_row ended_row)
  with WorkerHeartbeat assms show ?thesis by (simp add: heartbeat_calm split: option.split)
qed

section \<open>The waiting request\<close>

text \<open>A request that is woken when a worker with a free slot passes its conditions gets a session.\<close>

lemma waiter_served:
  assumes "schema_ok d" and "list_all (\<lambda>w. insert_possible req (rd_id rd) w d) (workers d)"
    and "queueWaitError (rd_top rd) = None" and "claim_candidates (select_params opts req []) t d \<noteq> []"
  shows "\<exists>s. fst (admit_loop opts req (rd # rds) [] (calm d t)) = Some (Inr s)"
proof -
  from assms(4) obtain w ws where c: "claim_candidates (select_params opts req []) t d = w # ws"
    by (cases "claim_candidates (select_params opts req []) t d") auto
  have "claimOnce opts req (rd_id rd) [] (calm d t) =
      (let s = claimed_row (insert_params opts req (rd_id rd) w) t in (Inr s, calm (claim_effect w s d) t))"
    using claimOnce_calm [OF assms(1), of req "rd_id rd" opts "[]" t] assms(2) c by (simp add: list_all_iff)
  with assms(3) show ?thesis by (simp add: Let_def)
qed

lemma slot_makes_candidate:
  assumes "w \<in> set (workers d)" and "claimable t p 0 w" and "count_active d (wid w) < wmax_slots w"
  shows "claim_candidates p t d \<noteq> []"
proof -
  have "w \<in> set (claim_candidates p t d)" using assms by (auto simp: candidate_iff claimable_def)
  then show ?thesis by auto
qed

section \<open>The report and the claim\<close>

lemma capacity_means_claim:
  "0 < cr_available_slots (capacity_row_of ttl limit now d b) \<longleftrightarrow>
    claim_candidates \<lparr>cp_browser = b, cp_prefix = [], cp_ttl = ttl, cp_max_lifetime = limit,
      cp_excluded = []\<rparr> now d \<noteq> []"
  by (auto simp: capacity_row_available_pos claim_candidates_def filter_empty_conv claimable_def eligible_def)

lemma capacity_shown:
  "(\<exists>r \<in> set (map (capacity_row_of ttl limit now d) (capacity_browsers ttl limit now d)).
      cr_browser r = b \<and> 0 < cr_available_slots r) \<longleftrightarrow>
    claim_candidates \<lparr>cp_browser = b, cp_prefix = [], cp_ttl = ttl, cp_max_lifetime = limit,
      cp_excluded = []\<rparr> now d \<noteq> []"
proof -
  have "cr_browser (capacity_row_of ttl limit now d x) = x" for x by (simp add: capacity_row_of_def Let_def)
  moreover have "b \<in> set (capacity_browsers ttl limit now d)"
    if "0 < cr_available_slots (capacity_row_of ttl limit now d b)"
    using that by (auto simp: capacity_row_available_pos set_capacity_browsers)
  ultimately show ?thesis by (auto simp: capacity_means_claim [symmetric])
qed

section \<open>The order of claims\<close>

text \<open>The worker a claim takes first has the least key among all workers it could take.\<close>

lemma first_candidate_least:
  assumes "claim_candidates p now d = w # ws" and "v \<in> set (workers d)"
    and "claimable now p (count_active d (wid v)) v"
  shows "claim_key d w \<le> claim_key d v"
proof -
  have "v \<in> set (w # ws)" using assms candidate_iff [of v p now d] by simp
  moreover have "sorted (map (claim_key d) (w # ws))"
    using sorted_sort_key [of "claim_key d"] assms(1) unfolding claim_candidates_def by metis
  ultimately show ?thesis by auto
qed

end
