(* ===== verification/Worker_Life.thy ===== *)
theory Worker_Life
  imports Claim_Protocol
begin

text \<open>
  What one step of the fleet can do to a worker: nothing but the lifetime counter and the heartbeat
  changes besides the status, which moves along \<open>worker_next\<close>, and only an idle worker disappears.
\<close>

definition worker_lives :: "worker \<Rightarrow> worker \<Rightarrow> bool" where
  "worker_lives w v \<longleftrightarrow> wid v = wid w \<and> waddress v = waddress w \<and> wbrowser v = wbrowser w
     \<and> wversion v = wversion w \<and> wmax_slots v = wmax_slots w
     \<and> (wstatus v = wstatus w \<or> worker_next (wstatus w) (wstatus v)) \<and> wlifetime w \<le> wlifetime v"

lemma worker_lives_refl [simp]: "worker_lives w w"
  by (simp add: worker_lives_def)

lemma worker_moves_lives: "worker_moves w v \<Longrightarrow> worker_lives w v"
  by (auto simp: worker_moves_def same_worker_def worker_lives_def)

lemma commit_lives:
  assumes "w \<in> set (workers d)"
  shows "\<exists>v \<in> set (workers (claim_effect x s d)). worker_lives w v"
proof -
  let ?g = "\<lambda>v. if wid v = wid x then v\<lparr>wlifetime := wlifetime v + 1\<rparr> else v"
  have "?g w \<in> set (workers (claim_effect x s d))"
    using assms by (auto simp: claim_effect_simps update_where_def)
  moreover have "worker_lives w (?g w)" by (simp add: worker_lives_def)
  ultimately show ?thesis by blast
qed

text \<open>The row of a worker after a step: gone, if the worker was idle, or moved along its life.\<close>

definition worker_fate :: "database \<Rightarrow> database \<Rightarrow> worker \<Rightarrow> bool" where
  "worker_fate d d' w \<longleftrightarrow> (case lookup_row wid (wid w) (workers d') of
     None \<Rightarrow> count_active d (wid w) = 0
   | Some v \<Rightarrow> worker_lives w v)"

lemma lives_fate:
  assumes "distinct (map wid (workers d'))" and "v \<in> set (workers d')" and "worker_lives w v"
  shows "worker_fate d d' w"
  using assms lookup_row_unique [OF assms(1,2)] by (simp add: worker_fate_def worker_lives_def)

lemma evolve_fate:
  assumes ev: "workers_evolve L d d'" and w: "w \<in> set (workers d)" and dist: "distinct (map wid (workers d))"
  shows "worker_fate d d' w"
proof (cases "lookup_row wid (wid w) (workers d')")
  case None
  then have "\<not> worker_moves w v" if "v \<in> set (workers d')" for v
    using that unfolding lookup_row_None worker_moves_def same_worker_def by (metis image_eqI)
  with ev w have "count_active d (wid w) = 0" unfolding workers_evolve_def by blast
  with None show ?thesis by (simp add: worker_fate_def)
next
  case (Some v)
  then have v: "v \<in> set (workers d')" "wid v = wid w" using lookup_row_Some by fastforce+
  with ev w obtain u where u: "u \<in> set (workers d)" "worker_moves u v"
    unfolding workers_evolve_def by (metis imageI)
  then have "u = w" using w v(2) dist
    by (auto simp: worker_moves_def same_worker_def distinct_map inj_on_def)
  with u(2) Some show ?thesis by (simp add: worker_fate_def worker_moves_lives)
qed

lemma step_fate:
  assumes "claim_inv f" and "claim_step opts f f'" and "w \<in> set (workers (fdb f))"
  shows "worker_fate (fdb f) (fdb f') w"
proof -
  have dist: "distinct (map wid (workers (fdb f)))" "distinct (map wid (workers (fdb f')))"
    using assms(1) claim_step_inv [OF assms(1,2)] by (simp_all add: claim_inv_def fleet_ok_def)
  have same: "worker_fate (fdb f) (fdb f') w" if "fdb f' = fdb f"
    using lives_fate [OF dist(2), of w w] assms(3) that by simp
  show ?thesis
    using assms(2)
  proof (cases rule: claim_step.cases)
    case (cs_commit c x s)
    then have "fdb f' = claim_effect x s (fdb f)" by simp
    with commit_lives [OF assms(3)] obtain v where "v \<in> set (workers (fdb f'))" "worker_lives w v" by metis
    with dist(2) show ?thesis by (rule lives_fate)
  next
    case (cs_other d')
    from evolve_fate [OF store_step_workers [OF cs_other(2) dist(1)] assms(3) dist(1)] show ?thesis
      unfolding cs_other(1) by simp
  qed (use same in auto)
qed

end
