(* ===== verification/Allocator.thy ===== *)
theory Allocator
  imports Worker_Life
begin

text \<open>
  What the claim protocol promises, without transactions, locks or snapshots: an allocator of slots.
  It gives a slot of a worker only while one is free, gives slots back, admits new workers with
  room, and lets only idle workers go. Every run of the fleet is a run of this allocator.
\<close>

section \<open>The specification\<close>

record pool =
  capacity :: "uuid \<rightharpoonup> int"
  used :: "uuid \<Rightarrow> int"

definition kept_idle_or_new :: "pool \<Rightarrow> (uuid \<rightharpoonup> int) \<Rightarrow> uuid \<Rightarrow> bool" where
  "kept_idle_or_new p cap i \<longleftrightarrow> cap i = capacity p i
     \<or> (cap i = None \<and> used p i = 0) \<or> (capacity p i = None \<and> (\<exists>n > 0. cap i = Some n))"

inductive alloc_step :: "pool \<Rightarrow> pool \<Rightarrow> bool" where
  al_take: "capacity p i = Some n \<Longrightarrow> used p i < n \<Longrightarrow>
    alloc_step p (p\<lparr>used := (used p)(i := used p i + 1)\<rparr>)"
| al_manage: "(\<And>i. 0 \<le> use i \<and> use i \<le> used p i) \<Longrightarrow> (\<And>i. kept_idle_or_new p cap i) \<Longrightarrow>
    alloc_step p \<lparr>capacity = cap, used = use\<rparr>"

definition pool_ok :: "pool \<Rightarrow> bool" where
  "pool_ok p \<longleftrightarrow> (\<forall>i. 0 \<le> used p i \<and> used p i \<le> (case capacity p i of None \<Rightarrow> 0 | Some n \<Rightarrow> n))"

lemma alloc_step_ok: "pool_ok p \<Longrightarrow> alloc_step p q \<Longrightarrow> pool_ok q"
proof -
  assume ok: "pool_ok p" and "alloc_step p q"
  from this(2) show ?thesis
  proof (cases rule: alloc_step.cases)
    case (al_take i n)
    with ok show ?thesis by (auto simp: pool_ok_def)
  next
    case (al_manage "use" cap)
    have "use i \<le> (case cap i of None \<Rightarrow> 0 | Some n \<Rightarrow> n)" for i
    proof -
      have u: "0 \<le> use i" "use i \<le> used p i" using al_manage(2) by auto
      have o: "0 \<le> used p i" "used p i \<le> (case capacity p i of None \<Rightarrow> 0 | Some n \<Rightarrow> n)"
        using ok by (auto simp: pool_ok_def)
      from al_manage(3) [of i] show ?thesis
        unfolding kept_idle_or_new_def
      proof (elim disjE conjE exE)
        assume "cap i = capacity p i"
        with u o show ?thesis by simp
      next
        assume "cap i = None" "used p i = 0"
        with u show ?thesis by simp
      next
        fix n assume "capacity p i = None" "0 < n" "cap i = Some n"
        with u o show ?thesis by simp
      qed
    qed
    with al_manage show ?thesis by (simp add: pool_ok_def)
  qed
qed

interpretation allocating: invariant_system alloc_step pool_ok
  by unfold_locales (rule alloc_step_ok)

section \<open>The implementation\<close>

definition pool_of :: "database \<Rightarrow> pool" where
  "pool_of d = \<lparr>capacity = (\<lambda>i. map_option wmax_slots (lookup_row wid i (workers d))),
     used = count_active d\<rparr>"

lemma pool_of_simps [simp]: "used (pool_of d) = count_active d"
  "capacity (pool_of d) i = map_option wmax_slots (lookup_row wid i (workers d))"
  by (simp_all add: pool_of_def)

lemma count_active_cong': "sessions d' = sessions d \<Longrightarrow> count_active d' = count_active d"
  by (simp add: count_active_def fun_eq_iff)

lemma idle_without_worker:
  "fleet_ok d \<Longrightarrow> lookup_row wid i (workers d) = None \<Longrightarrow> count_active d i = 0"
  by (rule no_worker_no_active) (auto simp: lookup_row_None)

lemma fleet_pool_ok: "fleet_ok d \<Longrightarrow> pool_ok (pool_of d)"
  unfolding pool_ok_def
  by (auto simp: idle_without_worker fleet_ok_def dest!: lookup_row_Some split: option.splits)

text \<open>A commit of a claim takes one slot of its worker.\<close>

lemma commit_takes:
  assumes "distinct (map wid (workers d))" and "w \<in> set (workers d)"
    and "count_active d (wid w) < wmax_slots w" and "sworker s = wid w" and "active s"
  shows "alloc_step (pool_of d) (pool_of (claim_effect w s d))"
proof -
  have "count_active (claim_effect w s d) = (count_active d)(wid w := count_active d (wid w) + 1)"
    using assms(4,5) by (auto simp: fun_eq_iff count_active_def claim_effect_simps)
  moreover have "map_option wmax_slots (lookup_row wid i (workers (claim_effect w s d)))
      = map_option wmax_slots (lookup_row wid i (workers d))" for i
    by (simp add: claim_effect_simps lookup_update_where option.map_comp comp_def if_distrib cong: if_cong)
  ultimately have "pool_of (claim_effect w s d)
      = (pool_of d)\<lparr>used := (used (pool_of d))(wid w := used (pool_of d) (wid w) + 1)\<rparr>"
    by (simp add: pool_of_def)
  moreover have "capacity (pool_of d) (wid w) = Some (wmax_slots w)"
    using lookup_row_unique [OF assms(1,2)] by simp
  ultimately show ?thesis
    using al_take [of "pool_of d" "wid w" "wmax_slots w"] assms(3) by simp
qed

text \<open>Every other statement manages the pool.\<close>

lemma evolve_capacity:
  assumes ev: "workers_evolve L d d'" and dist: "distinct (map wid (workers d))" "distinct (map wid (workers d'))"
  shows "kept_idle_or_new (pool_of d) (capacity (pool_of d')) i"
proof (cases "lookup_row wid i (workers d')")
  case None
  show ?thesis
  proof (cases "lookup_row wid i (workers d)")
    case (Some w)
    then have w: "w \<in> set (workers d)" "wid w = i" using lookup_row_Some by fastforce+
    have "v \<notin> set (workers d') \<or> wid v \<noteq> i" for v using None by (auto simp: lookup_row_None)
    then have "\<not> worker_moves w v" if "v \<in> set (workers d')" for v
      using that w(2) by (auto simp: worker_moves_def same_worker_def)
    with ev w have "count_active d i = 0" unfolding workers_evolve_def by blast
    with None show ?thesis by (simp add: kept_idle_or_new_def)
  qed (use None in \<open>simp add: kept_idle_or_new_def\<close>)
next
  case (Some v)
  then have v: "v \<in> set (workers d')" "wid v = i" using lookup_row_Some by fastforce+
  with ev consider (old) w where "w \<in> set (workers d)" "worker_moves w v"
    | (new) "wid v \<notin> wid ` set (workers d)" "0 < wmax_slots v"
    unfolding workers_evolve_def by blast
  then show ?thesis
  proof cases
    case old
    then have "wid w = i" "wmax_slots w = wmax_slots v" using v(2) by (auto simp: worker_moves_def same_worker_def)
    moreover have "lookup_row wid (wid w) (workers d) = Some w" using lookup_row_unique [OF dist(1) old(1)] .
    ultimately show ?thesis using Some by (simp add: kept_idle_or_new_def)
  next
    case new
    then have "lookup_row wid i (workers d) = None" using v(2) by (simp add: lookup_row_None)
    with Some new(2) show ?thesis by (simp add: kept_idle_or_new_def)
  qed
qed

lemma store_step_manages:
  assumes "fleet_ok d" and "store_step L d d'"
  shows "alloc_step (pool_of d) (pool_of d')"
proof -
  have dist: "distinct (map wid (workers d))" "distinct (map sid (sessions d))"
    using assms(1) by (simp_all add: fleet_ok_def)
  have ev: "workers_evolve L d d'" using store_step_workers [OF assms(2) dist(1)] .
  then have "distinct (map wid (workers d'))" using dist(1) by (simp add: workers_evolve_def)
  with ev dist have "kept_idle_or_new (pool_of d) (capacity (pool_of d')) i" for i
    by (intro evolve_capacity)
  moreover have "0 \<le> count_active d' i \<and> count_active d' i \<le> used (pool_of d) i" for i
    using store_step_count [OF assms(2) dist(2)] by simp
  ultimately have "alloc_step (pool_of d) \<lparr>capacity = capacity (pool_of d'), used = count_active d'\<rparr>"
    by (intro al_manage) auto
  then show ?thesis by (simp add: pool_of_def)
qed

lemma claim_step_allocates:
  assumes "claim_inv f" and "claim_step opts f f'"
  shows "pool_of (fdb f') = pool_of (fdb f) \<or> alloc_step (pool_of (fdb f)) (pool_of (fdb f'))"
  using assms(2)
proof (cases rule: claim_step.cases)
  case (cs_commit c w s)
  have ok: "fleet_ok (fdb f)" "pc_ok (fdb f) (Incremented w s)"
    using assms(1) claim_inv_nth [OF assms(1) cs_commit(2)] cs_commit(3) by (simp_all add: claim_inv_def)
  then have w: "distinct (map wid (workers (fdb f)))" "w \<in> set (workers (fdb f))"
    "count_active (fdb f) (wid w) < wmax_slots w" "sworker s = wid w"
    by (simp_all add: fleet_ok_def routed_def)
  show ?thesis
  proof (cases "active s")
    case True
    with commit_takes [OF w] cs_commit(1) show ?thesis by simp
  next
    case False
    then have "pool_of (claim_effect w s (fdb f)) = pool_of (fdb f)"
      by (simp add: pool_of_def fun_eq_iff claim_effect_count claim_effect_simps lookup_update_where
          option.map_comp comp_def if_distrib cong: if_cong)
    with cs_commit(1) show ?thesis by simp
  qed
next
  case (cs_other d')
  with assms(1) show ?thesis by (auto simp: claim_inv_def intro: store_step_manages)
qed simp_all

interpretation allocation: simulation "claim_step opts" claim_inv "\<lambda>f. pool_of (fdb f)" alloc_step
  by unfold_locales (rule claim_step_allocates)

end
