(* ===== verification/Queue.thy ===== *)
theory Queue
  imports Admission
begin

text \<open>
  The waiting queue of one server under concurrent requests. \<open>enterQueue\<close> and \<open>leaveQueue\<close> run
  under the scheduler's mutex, so each is one step; between them the requests of \<open>Admit\<close> interleave.
\<close>

section \<open>Requests and their steps\<close>

text \<open>
  A request in \<open>Admit\<close>: at its first claim, in the loop with a place in the queue, or returned with
  whatever answer; \<open>deferred\<close> calls run on every way out of the loop.
\<close>

datatype queue_phase = Trying | InQueue | Back

record queue_state =
  queued :: int
  requests :: "queue_phase list"

definition empty_queue :: queue_state where
  "empty_queue = \<lparr>queued = 0, requests = []\<rparr>"

inductive queue_step :: "sched_options \<Rightarrow> queue_state \<Rightarrow> queue_state \<Rightarrow> bool" for opts where
  qs_arrive: "queue_step opts s (s\<lparr>requests := requests s @ [Trying]\<rparr>)"
| qs_answered: "c < length (requests s) \<Longrightarrow> requests s ! c = Trying \<Longrightarrow>
    queue_step opts s (s\<lparr>requests := (requests s)[c := Back]\<rparr>)"
| qs_full: "c < length (requests s) \<Longrightarrow> requests s ! c = Trying \<Longrightarrow> enterQueue opts (queued s) = None \<Longrightarrow>
    queue_step opts s (s\<lparr>requests := (requests s)[c := Back]\<rparr>)"
| qs_enter: "c < length (requests s) \<Longrightarrow> requests s ! c = Trying \<Longrightarrow> enterQueue opts (queued s) = Some q \<Longrightarrow>
    queue_step opts s \<lparr>queued = q, requests = (requests s)[c := InQueue]\<rparr>"
| qs_leave: "c < length (requests s) \<Longrightarrow> requests s ! c = InQueue \<Longrightarrow>
    queue_step opts s \<lparr>queued = leaveQueue (queued s), requests = (requests s)[c := Back]\<rparr>"

section \<open>The invariant\<close>

definition waiting :: "queue_phase list \<Rightarrow> int" where
  "waiting ps = int (count_list ps InQueue)"

definition queue_inv :: "sched_options \<Rightarrow> queue_state \<Rightarrow> bool" where
  "queue_inv opts s \<longleftrightarrow> queued s = waiting (requests s) \<and> queued s \<le> max 0 (so_max_queue opts)"

lemma waiting_nonneg [simp]: "0 \<le> waiting ps"
  by (simp add: waiting_def)

lemma waiting_update:
  "c < length ps \<Longrightarrow> waiting (ps[c := x]) + (if ps ! c = InQueue then 1 else 0)
    = waiting ps + (if x = InQueue then 1 else 0)"
proof (induction ps arbitrary: c)
  case Nil
  then show ?case by simp
next
  case (Cons p ps)
  show ?case
  proof (cases c)
    case 0
    then show ?thesis by (simp add: waiting_def)
  next
    case (Suc b)
    with Cons.prems Cons.IH [of b] show ?thesis by (auto simp: waiting_def split: if_splits)
  qed
qed

lemma queue_step_inv: "queue_inv opts s \<Longrightarrow> queue_step opts s t \<Longrightarrow> queue_inv opts t"
proof -
  assume inv: "queue_inv opts s" and "queue_step opts s t"
  from this(2) show ?thesis
  proof (cases rule: queue_step.cases)
    case qs_arrive
    with inv show ?thesis by (simp add: queue_inv_def waiting_def)
  next
    case (qs_answered c)
    with inv waiting_update [OF qs_answered(2), of Back] show ?thesis by (simp add: queue_inv_def)
  next
    case (qs_full c)
    with inv waiting_update [OF qs_full(2), of Back] show ?thesis by (simp add: queue_inv_def)
  next
    case (qs_enter c q)
    with inv waiting_update [OF qs_enter(2), of InQueue] show ?thesis
      by (auto simp: queue_inv_def enterQueue_def split: if_splits)
  next
    case (qs_leave c)
    with inv waiting_update [OF qs_leave(2), of Back] show ?thesis
      by (auto simp: queue_inv_def leaveQueue_def)
  qed
qed

interpretation queueing: invariant_system "queue_step opts" "queue_inv opts"
  by unfold_locales (rule queue_step_inv)

lemma empty_queue_inv: "queue_inv opts empty_queue"
  by (simp add: queue_inv_def empty_queue_def waiting_def)

end
