(* ===== verification/Shutdown.thy ===== *)
theory Shutdown
  imports Relay_Manager
begin

text \<open>
  The shutdown of the relay manager comes to its end: every attachment that is not over can take a
  step, each such step lowers a measure that nothing raises once the manager is draining, and from
  the end of the grace period on the run to \<open>Drained\<close> is always open.
\<close>

section \<open>The work that is left\<close>

fun weight :: "attachment \<Rightarrow> nat" where
  "weight (Reserved i) = 4"
| "weight (Relaying i) = 3"
| "weight (Closing i e) = 2"
| "weight (Refused i res) = 1"
| "weight (Returned i e) = 1"
| "weight Ended = 0"

definition work :: "relays \<Rightarrow> nat" where
  "work r = sum_list (map weight (attachments r))"

lemma weight_0: "weight x = 0 \<longleftrightarrow> x = Ended"
  by (cases x) auto

lemma work_set_attachment:
  "a < length (attachments r) \<Longrightarrow>
    work (set_attachment a x m r) + weight (attachments r ! a) = work r + weight x"
proof -
  assume a: "a < length (attachments r)"
  then have "weight (attachments r ! a) \<le> sum_list (map weight (attachments r))"
    by (intro member_le_sum_list) auto
  then show ?thesis
    using a by (simp add: work_def set_attachment_def map_update sum_list_update)
qed

lemma work_falls:
  "a < length (attachments r) \<Longrightarrow> weight x < weight (attachments r ! a) \<Longrightarrow> work (set_attachment a x m r) < work r"
  using work_set_attachment [of a r x m] by linarith

lemma work_drops:
  assumes "attachments r' = (attachments r)[a := x]" and "a < length (attachments r)"
    and "weight x < weight (attachments r ! a)"
  shows "work r' < work r"
  using work_falls [OF assms(2,3), of "manager r"] assms(1) by (simp add: work_def set_attachment_def)

section \<open>Progress\<close>

text \<open>What the wait group has to allow an attachment: a \<open>Done\<close> that does not panic.\<close>

fun done_works :: "attachment \<Rightarrow> manager \<Rightarrow> bool" where
  "done_works (Reserved i) m = (Release False m \<noteq> None)"
| "done_works (Refused i res) m = (Release False m \<noteq> None)"
| "done_works (Relaying i) m = (unregister i m \<noteq> None)"
| "done_works (Closing i e) m = (unregister i m \<noteq> None)"
| "done_works (Returned i e) m = (Release True m \<noteq> None)"
| "done_works Ended m = True"

lemma done_never_panics:
  assumes "relays_inv r" and "a < length (attachments r)"
  shows "done_works (attachments r ! a) (manager r)"
proof -
  have "0 < mg_wg (manager r)" if "owing (attachments r ! a)" using owing_counted [OF assms that] .
  then show ?thesis
    by (cases "attachments r ! a") (auto simp: Release_def wg_Done_def unregister_def)
qed

text \<open>A relay whose channel is empty waits for its peers; from the end of the grace period on there is none.\<close>

definition waits_for_peers :: "relays \<Rightarrow> nat \<Rightarrow> bool" where
  "waits_for_peers r a \<longleftrightarrow> (\<exists>i. attachments r ! a = Relaying i \<and> mg_live (manager r) i = Some [])"

lemma forcing_waits_for_nobody:
  assumes "relays_inv r" and "phase r = Forcing" and "a < length (attachments r)"
  shows "\<not> waits_for_peers r a"
proof
  assume "waits_for_peers r a"
  then obtain i where i: "attachments r ! a = Relaying i" "mg_live (manager r) i = Some []"
    unfolding waits_for_peers_def by blast
  with nth_mem [OF assms(3)] have "Relaying i \<in> set (attachments r)" by metis
  with assms(1,2) i(2) show False unfolding relays_inv_def by fastforce
qed

text \<open>Every other attachment that is not over has a step of its own that brings it nearer to its end.\<close>

lemma attachment_progress:
  assumes inv: "relays_inv r" and a: "a < length (attachments r)" and "attachments r ! a \<noteq> Ended"
    and "\<not> waits_for_peers r a"
  shows "\<exists>r' x. relay_step r r' \<and> phase r' = phase r \<and> attachments r' = (attachments r)[a := x]
    \<and> weight x < weight (attachments r ! a)"
proof -
  let ?x = "attachments r ! a"
  have dn: "done_works ?x (manager r)" using done_never_panics [OF inv a] .
  have step: "\<exists>r' x. relay_step r r' \<and> phase r' = phase r \<and> attachments r' = (attachments r)[a := x] \<and> weight x < weight ?x"
    if "relay_step r (set_attachment a x m r)" "weight x < weight ?x" for x m
    using that by (intro exI [of _ "set_attachment a x m r"] exI [of _ x]) (simp add: set_attachment_def)
  show ?thesis
  proof (cases ?x)
    case (Reserved i)
    then obtain m where "Release False (manager r) = Some m" using dn by auto
    from rs_release [OF a Reserved this] Reserved show ?thesis by (intro step) auto
  next
    case (Refused i res)
    then obtain m where "Release False (manager r) = Some m" using dn by auto
    from rs_release_refused [OF a Refused this] Refused show ?thesis by (intro step) auto
  next
    case (Relaying i)
    have "i \<in> dom (mg_live (manager r))" using relays_inv_live [OF inv a] Relaying by simp
    with assms(4) Relaying obtain e es where "mg_live (manager r) i = Some (e # es)"
      unfolding waits_for_peers_def by (metis domD list.exhaust)
    from rs_select [OF a Relaying this] Relaying show ?thesis by (intro step) auto
  next
    case (Closing i e)
    then obtain m where "unregister i (manager r) = Some m" using dn by auto
    from rs_unregister [OF a Closing this] Closing show ?thesis by (intro step) auto
  next
    case (Returned i e)
    have "Release True (manager r) = Some (manager r)" by (simp add: Release_def)
    from rs_release_consumed [OF a Returned this] Returned show ?thesis by (intro step) auto
  next
    case Ended
    with assms(3) show ?thesis by simp
  qed
qed

lemma all_ended_wg:
  assumes "relays_inv r" and "list_all (\<lambda>x. x = Ended) (attachments r)"
  shows "mg_wg (manager r) = 0"
proof -
  have "filter owing (attachments r) = []" using assms(2) by (auto simp: filter_empty_conv list_all_iff)
  with assms(1) show ?thesis by (simp add: relays_inv_def)
qed

lemma forced_shutdown_drains:
  assumes "relays_inv r" and "phase r = Forcing"
  shows "\<exists>r'. reaches relay_step r r' \<and> phase r' = Drained \<and> list_all (\<lambda>x. x = Ended) (attachments r')"
  using assms
proof (induction "work r" arbitrary: r rule: less_induct)
  case less
  show ?case
  proof (cases "list_all (\<lambda>x. x = Ended) (attachments r)")
    case True
    have "relay_step r (r\<lparr>phase := Drained\<rparr>)"
      using rs_drained [of r] less.prems(2) all_ended_wg [OF less.prems(1) True] by simp
    with True show ?thesis by (intro exI [of _ "r\<lparr>phase := Drained\<rparr>"]) (auto intro: reaches_1)
  next
    case False
    then obtain a where a: "a < length (attachments r)" "attachments r ! a \<noteq> Ended"
      by (auto simp: list_all_length)
    obtain r1 where r1: "relay_step r r1" "phase r1 = phase r" "work r1 < work r"
      using attachment_progress [OF less.prems(1) a forcing_waits_for_nobody [OF less.prems a(1)]]
        work_drops [OF _ a(1)] by blast
    have "relays_inv r1" using relay_step_inv [OF less.prems(1) r1(1)] .
    from less.hyps [OF r1(3) this] r1(2) less.prems(2) obtain r' where
      "reaches relay_step r1 r'" "phase r' = Drained" "list_all (\<lambda>x. x = Ended) (attachments r')" by auto
    with reaches_trans [OF _ reaches_1 [of relay_step, OF r1(1)]] show ?thesis by blast
  qed
qed

section \<open>Nothing undoes it\<close>

text \<open>While the manager drains, a step leaves the attachments alone or lowers the work.\<close>

lemma draining_work:
  assumes "mg_draining (manager r)" and "relay_step r r'"
  shows "attachments r' = attachments r \<or> work r' < work r"
  using assms(2)
proof (cases rule: relay_step.cases)
  case (rs_begin m i)
  with assms(1) show ?thesis by (simp add: BeginAttach_def)
next
  case (rs_register a i m)
  with assms(1) show ?thesis by (simp add: register_accepted)
qed (auto intro!: disjI2 work_falls)

section \<open>The end of a shutdown\<close>

text \<open>Once the relays are reported drained, every attachment ever begun has ended its relay or given up its reservation.\<close>

lemma drained_means_all_ended:
  assumes "reaches relay_step fresh_relays r" and "phase r = Drained"
  shows "list_all (\<lambda>x. \<not> owing x) (attachments r) \<and> mg_live (manager r) = Map.empty"
proof -
  have inv: "relays_inv r" using relaying.reaches_inv [OF assms(1) fresh_relays_inv] .
  with assms(2) have "mg_wg (manager r) = 0" unfolding relays_inv_def by blast
  with inv show ?thesis using nothing_owed_nothing_live by blast
qed

text \<open>From its beginning on \<open>BeginAttach\<close> refuses, and the attachments the shutdown waits for only get fewer.\<close>

lemma draining_is_final:
  assumes "reaches relay_step fresh_relays r" and "phase r \<noteq> Serving" and "reaches relay_step r r'"
  shows "BeginAttach (manager r') = Inl ErrRelayDraining
    \<and> length (attachments r') = length (attachments r) \<and> mg_wg (manager r') \<le> mg_wg (manager r)"
proof -
  have inv: "relays_inv r" using relaying.reaches_inv [OF assms(1) fresh_relays_inv] .
  with assms(2) have "mg_draining (manager r)" by (simp add: relays_inv_def)
  moreover have "shuts_down r r'" using draining.reaches_rel [OF assms(3) inv] .
  ultimately show ?thesis by (simp add: shuts_down_def BeginAttach_def)
qed

end
