(* ===== verification/Config.thy ===== *)
theory Config
  imports Version
begin

text \<open>
  \<open>internal/config/config.go\<close>: the settings read from the environment and the checks on them.
  \<open>time.ParseDuration\<close>, which computes with floating point numbers, is a parameter; \<open>strconv\<close>'s
  decimal parser is modelled. An \<open>int\<close> is 64 bits wide.
\<close>

section \<open>Numbers\<close>

definition digit_value :: "char \<Rightarrow> int" where
  "digit_value c = of_char c - 48"

definition decimal :: "string \<Rightarrow> int" where
  "decimal s = fold (\<lambda>c n. n * 10 + digit_value c) s 0"

definition max_int64 :: int where
  "max_int64 = 2 ^ 63 - 1"

text \<open>\<open>strconv.ParseInt(s, 10, 64)\<close>: an optional sign, digits, and the range.\<close>

definition ParseInt :: "string \<Rightarrow> error + int" where
  "ParseInt s =
    (let (neg, ds) = (case s of
           [] \<Rightarrow> (False, [])
         | c # cs \<Rightarrow> if c = CHR ''-'' then (True, cs) else if c = CHR ''+'' then (False, cs) else (False, s))
     in if \<not> number ds then Inl (Text ''invalid syntax'')
        else (let n = (if neg then - decimal ds else decimal ds)
              in if n < - max_int64 - 1 \<or> n > max_int64 then Inl (Text ''value out of range'') else Inr n))"

section \<open>Settings\<close>

type_synonym environment = "string \<Rightarrow> string"

definition browserType :: "environment \<Rightarrow> string \<Rightarrow> string \<Rightarrow> error + string" where
  "browserType getenv name default_value =
    (let value = (if getenv name = [] then default_value else getenv name)
     in if value = ''chromium'' \<or> value = ''firefox'' \<or> value = ''webkit'' then Inr value
        else Inl (Text (name @ '' must be one of chromium, firefox, webkit'')))"

definition positiveDuration :: "(string \<Rightarrow> error + int) \<Rightarrow> environment \<Rightarrow> string \<Rightarrow> int \<Rightarrow> error + int" where
  "positiveDuration parse_duration getenv name default_value =
    (if getenv name = [] then Inr default_value
     else (case parse_duration (getenv name) of
             Inl e \<Rightarrow> Inl (Wrap (name @ '' must be a duration'') e)
           | Inr value \<Rightarrow>
               (if value \<le> 0 then Inl (Text (name @ '' must be positive''))
                else if microseconds value = 0 then Inl (Text (name @ '' must be at least one microsecond''))
                else Inr value)))"

text \<open>\<open>nonNegativeInt\<close> (with \<open>strconv.Atoi\<close>) and \<open>nonNegativeInt64\<close> do the same on 64 bits.\<close>

definition nonNegativeInt64 :: "environment \<Rightarrow> string \<Rightarrow> int \<Rightarrow> error + int" where
  "nonNegativeInt64 getenv name default_value =
    (if getenv name = [] then Inr default_value
     else (case ParseInt (getenv name) of
             Inl e \<Rightarrow> Inl (Wrap (name @ '' must be an integer'') e)
           | Inr value \<Rightarrow>
               (if value < 0 then Inl (Text (name @ '' must not be negative'')) else Inr value)))"

definition nonNegativeInt :: "environment \<Rightarrow> string \<Rightarrow> int \<Rightarrow> error + int" where
  "nonNegativeInt getenv name default_value =
    (if getenv name = [] then Inr default_value
     else (case ParseInt (getenv name) of
             Inl e \<Rightarrow> Inl (Wrap (name @ '' must be an integer'') e)
           | Inr value \<Rightarrow>
               (if value < 0 then Inl (Text (name @ '' must not be negative'')) else Inr value)))"

record config =
  WorkerHeartbeatTTL :: int
  SessionHeartbeatTTL :: int
  SessionHeartbeatInterval :: int
  PendingSessionTTL :: int
  StalledWorkerTTL :: int
  RescuerInterval :: int
  MaxQueueSize :: int
  QueueWaitTimeout :: int
  MaxLifetimeSessions :: int
  DefaultBrowserType :: string
  WorkerDialTimeout :: int
  RelayWriteTimeout :: int
  RelayPingInterval :: int
  RelayPongTimeout :: int
  ShutdownGracePeriod :: int

text \<open>\<open>if err != nil { return Config{}, err }\<close>\<close>

definition checked :: "error + 'a \<Rightarrow> ('a \<Rightarrow> error + 'b) \<Rightarrow> error + 'b" where
  "checked r k = (case r of Inl e \<Rightarrow> Inl e | Inr a \<Rightarrow> k a)"

definition Load :: "(string \<Rightarrow> error + int) \<Rightarrow> environment \<Rightarrow> error + config" where
  "Load parse_duration getenv =
    (let duration = positiveDuration parse_duration getenv in
     checked (duration ''WORKER_HEARTBEAT_TTL'' (30 * second)) (\<lambda>workerTTL.
     checked (duration ''SESSION_HEARTBEAT_TTL'' (30 * second)) (\<lambda>sessionTTL.
     checked (duration ''SESSION_HEARTBEAT_INTERVAL'' (10 * second)) (\<lambda>sessionInterval.
     if sessionInterval \<ge> sessionTTL
     then Inl (Text ''SESSION_HEARTBEAT_INTERVAL must be less than SESSION_HEARTBEAT_TTL'') else
     checked (duration ''PENDING_SESSION_TTL'' (30 * second)) (\<lambda>pendingTTL.
     checked (duration ''STALLED_WORKER_TTL'' (10 * minute)) (\<lambda>stalledTTL.
     checked (duration ''RESCUER_INTERVAL'' (5 * second)) (\<lambda>rescuerInterval.
     checked (duration ''QUEUE_WAIT_TIMEOUT'' (30 * second)) (\<lambda>queueWaitTimeout.
     checked (nonNegativeInt getenv ''MAX_QUEUE_SIZE'' 100) (\<lambda>maxQueueSize.
     checked (nonNegativeInt64 getenv ''MAX_LIFETIME_SESSIONS'' 50) (\<lambda>maxLifetimeSessions.
     checked (browserType getenv ''DEFAULT_BROWSER_TYPE'' ''chromium'') (\<lambda>defaultBrowserType.
     checked (duration ''WORKER_DIAL_TIMEOUT'' (10 * second)) (\<lambda>workerDialTimeout.
     checked (duration ''RELAY_WRITE_TIMEOUT'' (30 * second)) (\<lambda>relayWriteTimeout.
     checked (duration ''RELAY_PING_INTERVAL'' (20 * second)) (\<lambda>relayPingInterval.
     checked (duration ''RELAY_PONG_TIMEOUT'' (60 * second)) (\<lambda>relayPongTimeout.
     if relayPingInterval \<ge> relayPongTimeout
     then Inl (Text ''RELAY_PING_INTERVAL must be less than RELAY_PONG_TIMEOUT'') else
     checked (duration ''SHUTDOWN_GRACE_PERIOD'' (20 * second)) (\<lambda>shutdownGracePeriod.
     Inr \<lparr>WorkerHeartbeatTTL = workerTTL, SessionHeartbeatTTL = sessionTTL,
       SessionHeartbeatInterval = sessionInterval, PendingSessionTTL = pendingTTL,
       StalledWorkerTTL = stalledTTL, RescuerInterval = rescuerInterval, MaxQueueSize = maxQueueSize,
       QueueWaitTimeout = queueWaitTimeout, MaxLifetimeSessions = maxLifetimeSessions,
       DefaultBrowserType = defaultBrowserType, WorkerDialTimeout = workerDialTimeout,
       RelayWriteTimeout = relayWriteTimeout, RelayPingInterval = relayPingInterval,
       RelayPongTimeout = relayPongTimeout, ShutdownGracePeriod = shutdownGracePeriod\<rparr>))))))))))))))))"

section \<open>What a loaded configuration satisfies\<close>

definition duration_ok :: "int \<Rightarrow> bool" where
  "duration_ok d \<longleftrightarrow> 0 < d \<and> 0 < microseconds d"

definition config_ok :: "config \<Rightarrow> bool" where
  "config_ok c \<longleftrightarrow>
     list_all duration_ok [WorkerHeartbeatTTL c, SessionHeartbeatTTL c, SessionHeartbeatInterval c,
       PendingSessionTTL c, StalledWorkerTTL c, RescuerInterval c, QueueWaitTimeout c,
       WorkerDialTimeout c, RelayWriteTimeout c, RelayPingInterval c, RelayPongTimeout c,
       ShutdownGracePeriod c]
     \<and> SessionHeartbeatInterval c < SessionHeartbeatTTL c
     \<and> RelayPingInterval c < RelayPongTimeout c
     \<and> 0 \<le> MaxQueueSize c \<and> 0 \<le> MaxLifetimeSessions c
     \<and> DefaultBrowserType c \<in> set [''chromium'', ''firefox'', ''webkit'']"

lemma checked_Inr: "checked r k = Inr b \<longleftrightarrow> (\<exists>a. r = Inr a \<and> k a = Inr b)"
  by (auto simp: checked_def split: sum.splits)

lemma positiveDuration_ok:
  "positiveDuration parse getenv name dv = Inr v \<Longrightarrow> duration_ok dv \<Longrightarrow> duration_ok v"
  by (auto simp: positiveDuration_def duration_ok_def microseconds_pos split: if_splits sum.splits)

lemma nonNegative_ok:
  "nonNegativeInt getenv name dv = Inr v \<Longrightarrow> 0 \<le> dv \<Longrightarrow> 0 \<le> v"
  "nonNegativeInt64 getenv name dv = Inr v \<Longrightarrow> 0 \<le> dv \<Longrightarrow> 0 \<le> v"
  by (auto simp: nonNegativeInt_def nonNegativeInt64_def split: if_splits sum.splits)

lemma browserType_ok:
  "browserType getenv name dv = Inr v \<Longrightarrow> v \<in> set [''chromium'', ''firefox'', ''webkit'']"
  by (auto simp: browserType_def Let_def split: if_splits)

lemma default_durations_ok [simp]:
  "duration_ok 30000000000" "duration_ok 10000000000" "duration_ok 600000000000"
  "duration_ok 5000000000" "duration_ok 20000000000" "duration_ok 60000000000"
  by (simp_all add: duration_ok_def microseconds_pos)

text \<open>One elimination rule per kind of check.\<close>

lemma duration_checked:
  assumes "checked (positiveDuration parse getenv name dv) k = Inr c" and "duration_ok dv"
  obtains v where "duration_ok v" "k v = Inr c"
  using assms by (auto simp: checked_Inr intro: positiveDuration_ok)

lemma number_checked:
  assumes "checked (nonNegativeInt getenv name dv) k = Inr c" and "0 \<le> dv"
  obtains v where "0 \<le> v" "k v = Inr c"
  using assms by (auto simp: checked_Inr intro: nonNegative_ok)

lemma number64_checked:
  assumes "checked (nonNegativeInt64 getenv name dv) k = Inr c" and "0 \<le> dv"
  obtains v where "0 \<le> v" "k v = Inr c"
  using assms by (auto simp: checked_Inr intro: nonNegative_ok)

lemma browser_checked:
  assumes "checked (browserType getenv name dv) k = Inr c"
  obtains v where "v \<in> set [''chromium'', ''firefox'', ''webkit'']" "k v = Inr c"
proof -
  from assms obtain a where "browserType getenv name dv = Inr a" "k a = Inr c"
    unfolding checked_Inr by blast
  then show thesis using that browserType_ok by blast
qed

lemma guarded:
  assumes "(if b then Inl e else r) = Inr c"
  obtains "\<not> b" "r = Inr c"
  using assms by (auto split: if_splits)

lemma Load_ok: "Load parse getenv = Inr c \<Longrightarrow> config_ok c"
  unfolding Load_def Let_def
  by (((erule duration_checked number_checked number64_checked, simp; fail) | erule guarded browser_checked
      | (erule duration_checked number_checked number64_checked, simp))+)
    (drule sum.inject(2) [THEN iffD1], erule subst, simp add: config_ok_def)

end
