(* ===== verification/Api_Key_Command.thy ===== *)
theory Api_Key_Command
  imports Auth
begin

text \<open>
  \<open>internal/apikey/command.go\<close>: the command line that creates, lists and revokes API keys. The
  \<open>flag\<close> package, \<open>strings.TrimSpace\<close> and \<open>base64.RawURLEncoding\<close> are modelled as the code uses
  them; the digest and \<open>uuid.Parse\<close> (package \<open>google/uuid\<close>) are parameters.
\<close>

section \<open>The token\<close>

definition base64_digit :: "nat \<Rightarrow> char" where
  "base64_digit n =
    (if n < 26 then char_of (65 + n)
     else if n < 52 then char_of (97 + (n - 26))
     else if n < 62 then char_of (48 + (n - 52))
     else if n = 62 then CHR ''-'' else CHR ''_'')"

text \<open>\<open>RawURLEncoding\<close>: six bits per character, no padding.\<close>

fun base64url :: "8 word list \<Rightarrow> string" where
  "base64url [] = []"
| "base64url [a] = (let n = unat a * 16 in [base64_digit (n div 64), base64_digit (n mod 64)])"
| "base64url [a, b] =
    (let n = unat a * 1024 + unat b * 4
     in [base64_digit (n div 4096), base64_digit (n div 64 mod 64), base64_digit (n mod 64)])"
| "base64url (a # b # c # cs) =
    (let n = unat a * 65536 + unat b * 256 + unat c
     in base64_digit (n div 262144) # base64_digit (n div 4096 mod 64)
        # base64_digit (n div 64 mod 64) # base64_digit (n mod 64) # base64url cs)"

definition storedTokenPrefixLength :: nat where
  "storedTokenPrefixLength = length token_prefix + 4"

text \<open>The 32 random bytes, or the failure of the random source.\<close>

definition generateToken :: "error + 8 word list \<Rightarrow> error + string" where
  "generateToken random =
    (case random of
       Inl e \<Rightarrow> Inl (Wrap ''generating api key token'' e)
     | Inr bytes \<Rightarrow> Inr (token_prefix @ base64url bytes))"

section \<open>Trimming white space\<close>

text \<open>The UTF-8 encodings of the characters with Unicode's White\_Space property.\<close>

definition space_runes :: "string list" where
  "space_runes =
    [[CHR 0x09], [CHR 0x0A], [CHR 0x0B], [CHR 0x0C], [CHR 0x0D], [CHR 0x20],
     [CHR 0xC2, CHR 0x85], [CHR 0xC2, CHR 0xA0], [CHR 0xE1, CHR 0x9A, CHR 0x80]]
    @ map (\<lambda>n. [CHR 0xE2, CHR 0x80, char_of (n :: nat)]) ([0x80..<0x8B] @ [0xA8, 0xA9, 0xAF])
    @ [[CHR 0xE2, CHR 0x81, CHR 0x9F], [CHR 0xE3, CHR 0x80, CHR 0x80]]"

fun trim_fuel :: "nat \<Rightarrow> string list \<Rightarrow> string \<Rightarrow> string" where
  "trim_fuel 0 runes s = s"
| "trim_fuel (Suc n) runes s =
    (case find (\<lambda>r. prefix r s) runes of
       None \<Rightarrow> s
     | Some r \<Rightarrow> trim_fuel n runes (drop (length r) s))"

definition trim_left :: "string list \<Rightarrow> string \<Rightarrow> string" where
  "trim_left runes s = trim_fuel (length s) runes s"

definition TrimSpace :: "string \<Rightarrow> string" where
  "TrimSpace s = rev (trim_left (map rev space_runes) (rev (trim_left space_runes s)))"

section \<open>Parsing\<close>

text \<open>
  \<open>FlagSet.Parse\<close> for a set of string flags: the values set, with the last one winning, and the
  positional arguments.
\<close>

datatype flag_result = FlagHelp | FlagError string | FlagsParsed "(string \<times> string) list" "string list"

definition split_value :: "string \<Rightarrow> string \<times> string option" where
  "split_value s =
    (if CHR ''='' \<in> set (tl s)
     then (hd s # takeWhile (\<lambda>c. c \<noteq> CHR ''='') (tl s),
           Some (tl (dropWhile (\<lambda>c. c \<noteq> CHR ''='') (tl s))))
     else (s, None))"

fun parse_flags :: "string list \<Rightarrow> (string \<times> string) list \<Rightarrow> string list \<Rightarrow> flag_result" where
  "parse_flags known set_values [] = FlagsParsed set_values []"
| "parse_flags known set_values (s # rest) =
    (if length s < 2 \<or> hd s \<noteq> CHR ''-'' then FlagsParsed set_values (s # rest)
     else if s = ''--'' then FlagsParsed set_values rest
     else (let name = (if s ! 1 = CHR ''-'' then drop 2 s else drop 1 s)
           in if name = [] \<or> hd name = CHR ''-'' \<or> hd name = CHR ''='' then FlagError ''bad flag syntax''
              else (let (flag, value) = split_value name
                    in if flag \<notin> set known
                       then (if flag = ''help'' \<or> flag = ''h'' then FlagHelp
                             else FlagError ''flag provided but not defined'')
                       else (case value of
                               Some v \<Rightarrow> parse_flags known ((flag, v) # set_values) rest
                             | None \<Rightarrow>
                                 (case rest of
                                    [] \<Rightarrow> FlagError ''flag needs an argument''
                                  | v # rest' \<Rightarrow> parse_flags known ((flag, v) # set_values) rest')))))"

definition flag_value :: "string \<Rightarrow> (string \<times> string) list \<Rightarrow> string" where
  "flag_value name vs = (case map_of vs name of None \<Rightarrow> [] | Some v \<Rightarrow> v)"

datatype command = CreateCommand string | ListCommand | RevokeCommand uuid

text \<open>\<open>help_err\<close> is the failure of printing the usage line. \<open>None\<close> is a nil command: nothing to do.\<close>

definition Parse :: "(string \<Rightarrow> error + uuid) \<Rightarrow> error option \<Rightarrow> string list \<Rightarrow> error + command option" where
  "Parse parse_uuid help_err args =
    (case args of
       [] \<Rightarrow> Inl (Text ''api key subcommand is required'')
     | sub # rest \<Rightarrow>
         (if sub = ''-h'' \<or> sub = ''--help'' \<or> sub = ''help'' then
            (case help_err of
               Some e \<Rightarrow> Inl (Wrap ''printing api key help'' e)
             | None \<Rightarrow> Inr None)
          else if sub = ''create'' then
            (case parse_flags [''name''] [] rest of
               FlagHelp \<Rightarrow> Inr None
             | FlagError m \<Rightarrow> Inl (Wrap ''parsing apikey create flags'' (Text m))
             | FlagsParsed vs positional \<Rightarrow>
                 (if positional \<noteq> [] then Inl (Text ''apikey create does not accept positional arguments'')
                  else Inr (Some (CreateCommand (flag_value ''name'' vs)))))
          else if sub = ''list'' then
            (case parse_flags [] [] rest of
               FlagHelp \<Rightarrow> Inr None
             | FlagError m \<Rightarrow> Inl (Wrap ''parsing apikey list flags'' (Text m))
             | FlagsParsed vs positional \<Rightarrow>
                 (if positional \<noteq> [] then Inl (Text ''apikey list does not accept arguments'')
                  else Inr (Some ListCommand)))
          else if sub = ''revoke'' then
            (case parse_flags [''id''] [] rest of
               FlagHelp \<Rightarrow> Inr None
             | FlagError m \<Rightarrow> Inl (Wrap ''parsing apikey revoke flags'' (Text m))
             | FlagsParsed vs positional \<Rightarrow>
                 (if positional \<noteq> [] then Inl (Text ''apikey revoke does not accept positional arguments'')
                  else (case parse_uuid (flag_value ''id'' vs) of
                          Inl e \<Rightarrow> Inl (Wrap ''parsing api key id'' e)
                        | Inr i \<Rightarrow> Inr (Some (RevokeCommand i)))))
          else Inl (Text ''unknown api key subcommand'')))"

section \<open>Executing\<close>

text \<open>What the surroundings decide: the random bytes, the new identifier, the failures of printing.\<close>

record command_env =
  cm_random :: "error + 8 word list"
  cm_id :: uuid
  cm_print :: "error option"

definition Create ::
  "(string \<Rightarrow> string) \<Rightarrow> command_env \<Rightarrow> string \<Rightarrow> world \<Rightarrow> (error + api_key) \<times> world" where
  "Create digest env name w =
    (if TrimSpace name = [] then (Inl (Text ''api key name is required''), w)
     else (case generateToken (cm_random env) of
             Inl e \<Rightarrow> (Inl e, w)
           | Inr token \<Rightarrow>
               (case exec (InsertAPIKey \<lparr>ik_id = cm_id env, ik_name = TrimSpace name,
                     ik_hash = digest token, ik_prefix = take storedTokenPrefixLength token\<rparr>) w of
                  (Inl e, w1) \<Rightarrow> (Inl (Wrap ''inserting api key'' e), w1)
                | (Inr key, w1) \<Rightarrow>
                    (case cm_print env of
                       None \<Rightarrow> (Inr key, w1)
                     | Some p \<Rightarrow>
                         (let print_err = Wrap ''printing api key token'' p
                          in case exec (DeleteAPIKey (kid key)) w1 of
                               (Inl e, w2) \<Rightarrow>
                                 (Inl (Pair print_err (Wrap ''deleting unusable api key'' e)), w2)
                             | (Inr _, w2) \<Rightarrow> (Inl print_err, w2))))))"

text \<open>The list goes through a table writer; what matters here is which keys it prints, in which order.\<close>

definition List_keys :: "command_env \<Rightarrow> world \<Rightarrow> (error option \<times> api_key list) \<times> world" where
  "List_keys env w =
    (case exec ListAPIKeys w of
       (Inl e, w1) \<Rightarrow> ((Some (Wrap ''listing api keys'' e), []), w1)
     | (Inr ks, w1) \<Rightarrow>
         (case cm_print env of
            Some p \<Rightarrow> ((Some (Wrap ''flushing api key list'' p), []), w1)
          | None \<Rightarrow> ((None, ks), w1)))"

definition Revoke :: "command_env \<Rightarrow> uuid \<Rightarrow> world \<Rightarrow> error option \<times> world" where
  "Revoke env i w =
    (case exec (RevokeAPIKey i) w of
       (Inr _, w1) \<Rightarrow> (None, w1)
     | (Inl e, w1) \<Rightarrow>
         (if \<not> is_no_rows e then (Some (Wrap ''revoking api key'' e), w1)
          else (case exec (GetAPIKey i) w1 of
                  (Inl e', w2) \<Rightarrow>
                    (if is_no_rows e' then (Some (Text ''api key not found''), w2)
                     else (Some (Wrap ''looking up api key after revoke'' e'), w2))
                | (Inr key, w2) \<Rightarrow>
                    (if krevoked key = None then (Some (Text ''api key could not be revoked''), w2)
                     else (map_option (Wrap ''printing api key revoke status'') (cm_print env), w2)))))"

definition undefinedTableSQLState :: string where
  "undefinedTableSQLState = ''42P01''"

definition friendlyDatabaseError :: "error option \<Rightarrow> error option" where
  "friendlyDatabaseError err =
    (case err of
       None \<Rightarrow> None
     | Some e \<Rightarrow>
         (if errors_As_pg e = Some undefinedTableSQLState
          then Some (Text ''database is not migrated; run server serve once first'')
          else Some e))"

definition Execute :: "(string \<Rightarrow> string) \<Rightarrow> command_env \<Rightarrow> command \<Rightarrow> world \<Rightarrow> error option \<times> world" where
  "Execute digest env c w =
    (let (err, w') =
       (case c of
          CreateCommand name \<Rightarrow>
            (case Create digest env name w of (Inl e, w1) \<Rightarrow> (Some e, w1) | (Inr _, w1) \<Rightarrow> (None, w1))
        | ListCommand \<Rightarrow> (case List_keys env w of ((e, _), w1) \<Rightarrow> (e, w1))
        | RevokeCommand i \<Rightarrow> Revoke env i w)
     in (friendlyDatabaseError err, w'))"

definition Run_command :: "(string \<Rightarrow> error + uuid) \<Rightarrow> (string \<Rightarrow> string) \<Rightarrow> command_env
    \<Rightarrow> string list \<Rightarrow> world \<Rightarrow> error option \<times> world" where
  "Run_command parse_uuid digest env args w =
    (case Parse parse_uuid (cm_print env) args of
       Inl e \<Rightarrow> (Some e, w)
     | Inr None \<Rightarrow> (None, w)
     | Inr (Some c) \<Rightarrow> Execute digest env c w)"

section \<open>Facts\<close>

lemma char_of_neq: "m < 256 \<Longrightarrow> m \<noteq> of_char c \<Longrightarrow> char_of (m :: nat) \<noteq> c"
  by auto

lemma base64_not_blank: "\<not> blank (base64_digit n)"
proof -
  have "\<not> blank (char_of m)" if "33 \<le> m" "m < 256" for m :: nat
    unfolding blank_def using that by (auto dest!: arg_cong [of _ _ "of_char :: char \<Rightarrow> nat"])
  then show ?thesis by (simp add: base64_digit_def) (simp add: blank_def)
qed

lemma base64url_not_blank: "\<not> list_ex blank (base64url bs)"
  by (induction bs rule: base64url.induct) (simp_all add: Let_def base64_not_blank)

lemma base64url_nonempty: "bs \<noteq> [] \<Longrightarrow> base64url bs \<noteq> []"
  by (cases bs rule: base64url.cases) (auto simp: Let_def)

lemma length_base64url: "length (base64url bs) = (length bs * 4 + 2) div 3"
  by (induction bs rule: base64url.induct) (simp_all add: Let_def)

text \<open>A minted token is a well-formed bearer token.\<close>

lemma minted_token_parses:
  assumes "generateToken (Inr bytes) = Inr token" and "bytes \<noteq> []"
  shows "bearerToken (''Bearer '' @ token) = Some token"
proof -
  have t: "token = ''pwd_'' @ base64url bytes"
    using assms(1) by (simp add: generateToken_def token_prefix_def)
  have "\<not> list_ex blank token" using base64url_not_blank by (simp add: t blank_def)
  then show ?thesis
    using base64url_nonempty [OF assms(2)]
    by (simp add: bearerToken_def cut_space_def equal_fold_def t token_prefix_def)
qed

end
