(* ===== verification/Server_Main.thy ===== *)
theory Server_Main
  imports Config Scheduler Rescuer Relay_Manager Api_Key_Command
begin

text \<open>
  \<open>cmd/server/main.go\<close> and \<open>internal/db/db.go\<close>, \<open>migrate.go\<close>: what a start of the program does with
  its arguments and environment, which options it gives its services, and how \<open>serve\<close> ends. The
  libraries (pgxpool, goose, net/http) answer through the inputs.
\<close>

section \<open>The database pool\<close>

text \<open>A parsed data source name: the pool's size and the jitter of its connections' lifetime.\<close>

record pool_config =
  pc_max_conns :: int
  pc_jitter :: int

definition Open :: "error + pool_config \<Rightarrow> error option \<Rightarrow> error option \<Rightarrow> error + pool_config" where
  "Open parsed create_err ping_err =
    (case parsed of
       Inl e \<Rightarrow> Inl (Wrap ''parsing database dsn'' e)
     | Inr c \<Rightarrow>
         (if pc_max_conns c < 2
          then Inl (Text ''database pool max_conns must be at least 2 for operational headroom'')
          else (let c' = (if pc_jitter c = 0 then c\<lparr>pc_jitter := 5 * minute\<rparr> else c)
                in case create_err of
                     Some e \<Rightarrow> Inl (Wrap ''creating database pool'' e)
                   | None \<Rightarrow> (case ping_err of
                        Some e \<Rightarrow> Inl (Wrap ''pinging database'' e)
                      | None \<Rightarrow> Inr c'))))"

definition Migrate :: "error option \<Rightarrow> error option \<Rightarrow> error option \<Rightarrow> error option" where
  "Migrate lock_err provider_err up_err =
    (case lock_err of
       Some e \<Rightarrow> Some (Wrap ''creating migration locker'' e)
     | None \<Rightarrow> (case provider_err of
         Some e \<Rightarrow> Some (Wrap ''creating migration provider'' e)
       | None \<Rightarrow> map_option (Wrap ''applying database migrations'') up_err))"

section \<open>Starting\<close>

definition shutdownBuffer :: int where
  "shutdownBuffer = 5 * second"

definition closeFrameTimeout :: int where
  "closeFrameTimeout = 2 * second"

definition terminalQueryTimeout :: int where
  "terminalQueryTimeout = 5 * second"

definition ShutdownCleanupBudget :: int where
  "ShutdownCleanupBudget = 2 * closeFrameTimeout + terminalQueryTimeout"

definition validateRuntimeConfig :: "config \<Rightarrow> error option" where
  "validateRuntimeConfig c =
    (if WorkerDialTimeout c \<ge> DefaultReconciliationGrace
     then Some (Text ''WORKER_DIAL_TIMEOUT must be less than the session reconciliation grace'')
     else None)"

text \<open>What \<open>run\<close> hands to its services.\<close>

record relay_options =
  rl_write_timeout :: int
  rl_ping_interval :: int
  rl_pong_timeout :: int
  rl_heartbeat_interval :: int
  rl_shutdown_grace :: int

record serve_plan =
  sp_address :: string
  sp_scheduler :: sched_options
  sp_rescuer :: rescuer_options
  sp_relay :: relay_options
  sp_browser :: string
  sp_dial_timeout :: int
  sp_write_timeout :: int
  sp_shutdown_timeout :: int

definition plan_of :: "string \<Rightarrow> config \<Rightarrow> serve_plan" where
  "plan_of address c =
     \<lparr>sp_address = address,
      sp_scheduler = new_scheduler \<lparr>so_worker_ttl = WorkerHeartbeatTTL c,
        so_pending_ttl = PendingSessionTTL c, so_max_lifetime = MaxLifetimeSessions c,
        so_max_queue = MaxQueueSize c, so_queue_wait = QueueWaitTimeout c, so_polling = 0, so_grace = 0\<rparr>,
      sp_rescuer = \<lparr>ro_worker_ttl = WorkerHeartbeatTTL c, ro_session_ttl = SessionHeartbeatTTL c,
        ro_stalled_ttl = StalledWorkerTTL c, ro_interval = RescuerInterval c\<rparr>,
      sp_relay = \<lparr>rl_write_timeout = RelayWriteTimeout c, rl_ping_interval = RelayPingInterval c,
        rl_pong_timeout = RelayPongTimeout c, rl_heartbeat_interval = SessionHeartbeatInterval c,
        rl_shutdown_grace = ShutdownGracePeriod c\<rparr>,
      sp_browser = DefaultBrowserType c, sp_dial_timeout = WorkerDialTimeout c,
      sp_write_timeout = wrap64 (wrap64 (QueueWaitTimeout c + WorkerDialTimeout c) + shutdownBuffer),
      sp_shutdown_timeout = wrap64 (wrap64 (wrap64 (ShutdownGracePeriod c + WorkerDialTimeout c)
        + ShutdownCleanupBudget) + shutdownBuffer)\<rparr>"

text \<open>
  \<open>run\<close> up to the call of \<open>serve\<close>: it ends with an error or nothing to do, executes an API key
  command, or serves with a plan.
\<close>

record main_env =
  mn_getenv :: environment
  mn_parse_duration :: "string \<Rightarrow> error + int"
  mn_parse_uuid :: "string \<Rightarrow> error + uuid"
  mn_help_err :: "error option"
  mn_open :: "error + pool_config"
  mn_migrate :: "error option"

datatype run_end = Stopped "error option" | Command command | Serve serve_plan

text \<open>After the arguments: the database, then either the command or the configuration and migrations.\<close>

definition start_up :: "main_env \<Rightarrow> command option \<Rightarrow> run_end" where
  "start_up env cmd =
    (if mn_getenv env ''DATABASE_URL'' = [] then Stopped (Some (Text ''DATABASE_URL is required''))
     else (case mn_open env of
             Inl e \<Rightarrow> Stopped (Some e)
           | Inr _ \<Rightarrow>
               (case cmd of
                  Some c \<Rightarrow> Command c
                | None \<Rightarrow>
                    (case Load (mn_parse_duration env) (mn_getenv env) of
                       Inl e \<Rightarrow> Stopped (Some (Wrap ''loading server configuration'' e))
                     | Inr c \<Rightarrow>
                         (case validateRuntimeConfig c of
                            Some e \<Rightarrow> Stopped (Some e)
                          | None \<Rightarrow>
                              (case mn_migrate env of
                                 Some e \<Rightarrow> Stopped (Some e)
                               | None \<Rightarrow>
                                   Serve (plan_of
                                     (if mn_getenv env ''LISTEN_ADDR'' = [] then '':8080''
                                      else mn_getenv env ''LISTEN_ADDR'') c)))))))"

definition run :: "main_env \<Rightarrow> string list \<Rightarrow> run_end" where
  "run env args =
    (let name = (case args of [] \<Rightarrow> ''serve'' | a # _ \<Rightarrow> a);
         rest = (case args of [] \<Rightarrow> [] | _ # as \<Rightarrow> as)
     in if name = ''serve'' then
          (if rest \<noteq> [] then Stopped (Some (Text ''serve does not accept arguments'')) else start_up env None)
        else if name = ''apikey'' then
          (case Parse (mn_parse_uuid env) (mn_help_err env) rest of
             Inl e \<Rightarrow> Stopped (Some e)
           | Inr None \<Rightarrow> Stopped None
           | Inr (Some c) \<Rightarrow> start_up env (Some c))
        else Stopped (Some (Text ''unknown command'')))"

section \<open>Serving\<close>

text \<open>
  \<open>serve\<close>: the listener, which of the server and the context ends first, and the results of the two
  shutdowns. \<open>ErrServerClosed\<close> is \<open>Text ''http: Server closed''\<close>.
\<close>

definition ErrServerClosed :: error where
  "ErrServerClosed = Text ''http: Server closed''"

record serve_env =
  sv_listen :: "error option"
  sv_stopped_first :: bool
  sv_serve_err :: error
  sv_http_shutdown :: "error option"
  sv_relay_shutdown :: "error option"

definition serve :: "serve_env \<Rightarrow> error option" where
  "serve env =
    (case sv_listen env of
       Some e \<Rightarrow> Some (Wrap ''listening'' e)
     | None \<Rightarrow>
         (if \<not> sv_stopped_first env then
            (if errors_Is (sv_serve_err env) ErrServerClosed then None
             else Some (Wrap ''serving http'' (sv_serve_err env)))
          else (case errors_Join (sv_http_shutdown env) (sv_relay_shutdown env) of
                  Some e \<Rightarrow> Some (Wrap ''shutting down server'' e)
                | None \<Rightarrow>
                    (if \<not> errors_Is (sv_serve_err env) ErrServerClosed
                     then Some (Wrap ''serving http'' (sv_serve_err env)) else None))))"

section \<open>Facts\<close>

lemma start_up_serves:
  assumes "start_up env cmd = Serve p"
  shows "\<exists>address c. Load (mn_parse_duration env) (mn_getenv env) = Inr c
    \<and> WorkerDialTimeout c < DefaultReconciliationGrace \<and> p = plan_of address c"
    and "cmd = None"
proof -
  obtain c where "cmd = None" "Load (mn_parse_duration env) (mn_getenv env) = Inr c"
    "validateRuntimeConfig c = None" "\<exists>a. p = plan_of a c"
    using assms
    by (cases "mn_open env"; cases cmd; cases "Load (mn_parse_duration env) (mn_getenv env)")
      (auto simp: start_up_def split: if_splits option.splits)
  then show "cmd = None" "\<exists>address c. Load (mn_parse_duration env) (mn_getenv env) = Inr c
    \<and> WorkerDialTimeout c < DefaultReconciliationGrace \<and> p = plan_of address c"
    by (auto simp: validateRuntimeConfig_def split: if_splits)
qed

lemma run_serves:
  assumes "run env args = Serve p"
  shows "\<exists>address c. Load (mn_parse_duration env) (mn_getenv env) = Inr c \<and> config_ok c
       \<and> WorkerDialTimeout c < DefaultReconciliationGrace \<and> p = plan_of address c"
    and "args = [] \<or> args = [''serve'']"
proof -
  have "start_up env None = Serve p \<and> (args = [] \<or> args = [''serve''])"
    using assms start_up_serves(2)
    by (cases args) (auto simp: run_def split: if_splits sum.splits option.splits)
  then show "args = [] \<or> args = [''serve'']" "\<exists>address c. Load (mn_parse_duration env) (mn_getenv env) = Inr c \<and> config_ok c
       \<and> WorkerDialTimeout c < DefaultReconciliationGrace \<and> p = plan_of address c"
    using start_up_serves(1) Load_ok by blast+
qed

text \<open>
  The dial of a session that has started is over before the worker's heartbeat may call the session
  lost, and the shutdown waits longer than a relay can need to end.
\<close>

lemma plan_timeouts:
  assumes "config_ok c" and "WorkerDialTimeout c < DefaultReconciliationGrace"
    and "ShutdownGracePeriod c < 2 ^ 62" and "QueueWaitTimeout c < 2 ^ 62"
  shows "sp_dial_timeout (plan_of a c) < so_grace (sp_scheduler (plan_of a c))"
    and "rl_shutdown_grace (sp_relay (plan_of a c)) + sp_dial_timeout (plan_of a c) + ShutdownCleanupBudget
      < sp_shutdown_timeout (plan_of a c)"
    and "so_queue_wait (sp_scheduler (plan_of a c)) + sp_dial_timeout (plan_of a c)
      < sp_write_timeout (plan_of a c)"
  using assms
  by (auto simp: plan_of_def new_scheduler_def DefaultReconciliationGrace_def config_ok_def duration_ok_def
      ShutdownCleanupBudget_def closeFrameTimeout_def terminalQueryTimeout_def shutdownBuffer_def wrap64_id)

end
