(* ===== verification/Peers.thy ===== *)
theory Peers
  imports Relay_Run Server_Main
begin

text \<open>
  The two WebSocket connections of a relay (\<open>manager.go\<close>): the handlers and deadlines
  \<open>configurePeer\<close> sets, what the arriving frames do to the read deadline, and the closing of both
  peers with its time budget. How long a control frame takes and whether it fails is the library's
  answer.
\<close>

section \<open>A connection\<close>

record peer =
  pr_open :: bool
  pr_read_deadline :: int
  pr_sent :: "(int \<times> string) list"
  pr_pongs :: "string list"

text \<open>What \<open>WriteControl\<close> answers: its error and how long it took.\<close>

record control_write =
  cw_err :: "error option"
  cw_took :: int

text \<open>The library does not block past the deadline it is given.\<close>

definition in_time :: "int \<Rightarrow> control_write \<Rightarrow> bool" where
  "in_time timeout c \<longleftrightarrow> 0 \<le> cw_took c \<and> cw_took c \<le> timeout"

definition configurePeer :: "relay_options \<Rightarrow> int \<Rightarrow> peer \<Rightarrow> peer" where
  "configurePeer opts now p = p\<lparr>pr_read_deadline := now + rl_pong_timeout opts\<rparr>"

text \<open>
  The arriving frames. The close handler answers nothing: the reader gets the \<open>CloseError\<close>, and the
  relay sends the close on when its event has been selected. The ping handler answers with a pong
  and its error ends the read. The pong handler moves the deadline, as reading data does (the loop
  sets it before each message, \<open>deadlineReader\<close> after each read).
\<close>

datatype incoming = PingFrame string control_write | PongFrame | CloseFrame int string | DataFrame

datatype read_end = Reads peer | Lost error

abbreviation read_timeout :: error where
  "read_timeout \<equiv> Cause (ConnError ''i/o timeout'')"

definition read_frame :: "relay_options \<Rightarrow> int \<Rightarrow> incoming \<Rightarrow> peer \<Rightarrow> read_end" where
  "read_frame opts now f p =
    (if pr_read_deadline p < now then Lost read_timeout
     else (case f of
       PongFrame \<Rightarrow> Reads (p\<lparr>pr_read_deadline := now + rl_pong_timeout opts\<rparr>)
     | DataFrame \<Rightarrow> Reads (p\<lparr>pr_read_deadline := now + rl_pong_timeout opts\<rparr>)
     | PingFrame body c \<Rightarrow>
         (case cw_err c of
            None \<Rightarrow> Reads (p\<lparr>pr_pongs := pr_pongs p @ [body]\<rparr>)
          | Some e \<Rightarrow> Lost e)
     | CloseFrame code text \<Rightarrow> Lost (Cause (CloseError code text))))"

fun read_frames :: "relay_options \<Rightarrow> (int \<times> incoming) list \<Rightarrow> peer \<Rightarrow> read_end" where
  "read_frames opts [] p = Reads p"
| "read_frames opts ((now, f) # fs) p =
    (case read_frame opts now f p of Reads q \<Rightarrow> read_frames opts fs q | Lost e \<Rightarrow> Lost e)"

section \<open>Closing\<close>

text \<open>\<open>None\<close> is the nil connection. The second component of the result is the time afterwards.\<close>

definition ClosePeer :: "peer option \<Rightarrow> int \<Rightarrow> string \<Rightarrow> control_write \<Rightarrow> int \<Rightarrow> error option \<times> int \<times> peer option" where
  "ClosePeer conn code reason c now =
    (case conn of
       None \<Rightarrow> (None, now, None)
     | Some p \<Rightarrow>
         (case cw_err c of
            None \<Rightarrow> (None, now + cw_took c, Some (p\<lparr>pr_sent := pr_sent p @ [(code, reason)]\<rparr>))
          | Some e \<Rightarrow> (Some e, now + cw_took c, Some p)))"

definition close_conn :: "peer option \<Rightarrow> peer option" where
  "close_conn = map_option (\<lambda>p. p\<lparr>pr_open := False\<rparr>)"

text \<open>Both errors are only logged, so neither keeps the other peer open.\<close>

definition closeConnections :: "peer \<Rightarrow> peer \<Rightarrow> int \<Rightarrow> string \<Rightarrow> control_write \<Rightarrow> control_write \<Rightarrow> int
    \<Rightarrow> int \<times> peer option \<times> peer option" where
  "closeConnections client worker_conn code reason c1 c2 now =
    (case ClosePeer (Some client) code reason c1 now of
       (_, now1, client1) \<Rightarrow>
         (case ClosePeer (Some worker_conn) code reason c2 now1 of
            (_, now2, worker1) \<Rightarrow> (now2, close_conn client1, close_conn worker1)))"

lemma closeConnections_ends:
  assumes "in_time closeFrameTimeout c1" and "in_time closeFrameTimeout c2"
  obtains now' p q where "closeConnections client wc code reason c1 c2 now = (now', Some p, Some q)"
    "\<not> pr_open p" "\<not> pr_open q" "now \<le> now'" "now' + terminalQueryTimeout \<le> now + ShutdownCleanupBudget"
    "cw_err c1 = None \<Longrightarrow> (code, reason) \<in> set (pr_sent p)"
    "cw_err c2 = None \<Longrightarrow> (code, reason) \<in> set (pr_sent q)"
  using assms that
  by (cases "cw_err c1"; cases "cw_err c2")
    (auto simp: closeConnections_def ClosePeer_def close_conn_def in_time_def ShutdownCleanupBudget_def)

section \<open>Who keeps the connection\<close>

text \<open>
  \<open>pingPeers\<close> sends the k-th ping after k intervals. A peer is prompt when it has answered a ping by the
  time the slack between the two settings is over: at each frame of the list, every older ping has a
  pong since.
\<close>

definition prompt :: "relay_options \<Rightarrow> int \<Rightarrow> (int \<times> incoming) list \<Rightarrow> bool" where
  "prompt opts start fs \<longleftrightarrow>
    (\<forall>j < length fs. \<forall>k > 0.
       start + int k * rl_ping_interval opts + (rl_pong_timeout opts - rl_ping_interval opts) \<le> fst (fs ! j)
       \<longrightarrow> (\<exists>i < j. snd (fs ! i) = PongFrame \<and> start + int k * rl_ping_interval opts \<le> fst (fs ! i)))"

fun harmless :: "incoming \<Rightarrow> bool" where
  "harmless (PingFrame body c) \<longleftrightarrow> cw_err c = None"
| "harmless (CloseFrame code text) \<longleftrightarrow> False"
| "harmless f \<longleftrightarrow> True"

lemma read_frames_append:
  "read_frames opts (fs @ gs) p = (case read_frames opts fs p of Reads q \<Rightarrow> read_frames opts gs q | Lost e \<Rightarrow> Lost e)"
  by (induction opts fs p rule: read_frames.induct) (auto split: read_end.splits)

text \<open>The deadline covers the start and every pong so far.\<close>

definition covers :: "relay_options \<Rightarrow> int \<Rightarrow> (int \<times> incoming) list \<Rightarrow> peer \<Rightarrow> bool" where
  "covers opts start fs q \<longleftrightarrow> start + rl_pong_timeout opts \<le> pr_read_deadline q
     \<and> (\<forall>i < length fs. snd (fs ! i) = PongFrame \<longrightarrow> fst (fs ! i) + rl_pong_timeout opts \<le> pr_read_deadline q)"

lemma prompt_in_time:
  assumes p: "0 < rl_ping_interval opts"
    and prompt: "\<And>k. 0 < k \<Longrightarrow>
      start + int k * rl_ping_interval opts + (rl_pong_timeout opts - rl_ping_interval opts) \<le> now \<Longrightarrow>
      \<exists>i < length fs. snd (fs ! i) = PongFrame \<and> start + int k * rl_ping_interval opts \<le> fst (fs ! i)"
    and covers: "covers opts start fs q"
  shows "now \<le> pr_read_deadline q"
proof (cases "now \<le> start + rl_pong_timeout opts")
  case True
  with covers show ?thesis by (simp add: covers_def)
next
  case False
  let ?P = "rl_ping_interval opts" and ?T = "rl_pong_timeout opts"
  define s where "s = now - start - (?T - ?P)"
  define k where "k = nat (s div ?P)"
  have "?P \<le> s" using False by (simp add: s_def)
  then have "1 \<le> s div ?P" using p by (simp add: pos_imp_zdiv_pos_iff int_one_le_iff_zero_less)
  then have k: "0 < k" "int k = s div ?P" by (simp_all add: k_def)
  have lo: "int k * ?P \<le> s"
    using pos_mod_sign [OF p, of s] minus_mod_eq_div_mult [of s ?P] unfolding k(2) by linarith
  have hi: "s < int k * ?P + ?P"
    using pos_mod_bound [OF p, of s] minus_mod_eq_div_mult [of s ?P] unfolding k(2) by linarith
  from lo have "start + int k * ?P + (?T - ?P) \<le> now" by (simp add: s_def)
  from prompt [OF k(1) this] covers obtain i where
    "start + int k * ?P \<le> fst (fs ! i)" "fst (fs ! i) + ?T \<le> pr_read_deadline q"
    unfolding covers_def by blast
  with hi show ?thesis by (simp add: s_def)
qed

lemma read_harmless:
  assumes "now \<le> pr_read_deadline q" and "harmless f" and "covers opts start fs q"
    and "start \<le> now" and "\<And>i. i < length fs \<Longrightarrow> fst (fs ! i) \<le> now"
  shows "\<exists>r. read_frame opts now f q = Reads r \<and> covers opts start (fs @ [(now, f)]) r"
  using assms by (cases f) (auto simp: read_frame_def covers_def nth_append less_Suc_eq)

lemma promptD:
  "prompt opts start fs \<Longrightarrow> j < length fs \<Longrightarrow> 0 < k \<Longrightarrow>
    start + int k * rl_ping_interval opts + (rl_pong_timeout opts - rl_ping_interval opts) \<le> fst (fs ! j) \<Longrightarrow>
    \<exists>i < j. snd (fs ! i) = PongFrame \<and> start + int k * rl_ping_interval opts \<le> fst (fs ! i)"
  by (simp add: prompt_def)

lemma prompt_prefix:
  assumes "prompt opts start (fs @ gs)"
  shows "prompt opts start fs"
  unfolding prompt_def
proof (intro allI impI)
  fix j k :: nat
  assume j: "j < length fs" and "0 < k"
    and "start + int k * rl_ping_interval opts + (rl_pong_timeout opts - rl_ping_interval opts) \<le> fst (fs ! j)"
  with promptD [OF assms, of j k] obtain i where "i < j" "snd ((fs @ gs) ! i) = PongFrame"
    "start + int k * rl_ping_interval opts \<le> fst ((fs @ gs) ! i)"
    by (auto simp: nth_append)
  with j show "\<exists>i < j. snd (fs ! i) = PongFrame \<and> start + int k * rl_ping_interval opts \<le> fst (fs ! i)"
    by (intro exI [of _ i]) (simp add: nth_append)
qed

lemma prompt_peer_kept:
  assumes "0 < rl_ping_interval opts" and "prompt opts start fs" and "list_all (\<lambda>(t, f). harmless f) fs"
    and "sorted (start # map fst fs)"
  shows "\<exists>q. read_frames opts fs (configurePeer opts start p) = Reads q \<and> covers opts start fs q"
  using assms(2-)
proof (induction fs rule: rev_induct)
  case Nil
  then show ?case by (simp add: configurePeer_def covers_def)
next
  case (snoc x fs)
  obtain now f where x: "x = (now, f)" by fastforce
  from snoc.prems(1) have pr: "prompt opts start fs" by (rule prompt_prefix)
  from snoc.prems(3) have so: "sorted (start # map fst fs)" "start \<le> now" "\<And>i. i < length fs \<Longrightarrow> fst (fs ! i) \<le> now"
    by (auto simp: x sorted_append all_set_conv_all_nth)
  from snoc.IH [OF pr _ so(1)] snoc.prems(2) obtain q where
    q: "read_frames opts fs (configurePeer opts start p) = Reads q" "covers opts start fs q"
    by auto
  have "\<exists>i < length fs. snd (fs ! i) = PongFrame \<and> start + int k * rl_ping_interval opts \<le> fst (fs ! i)"
    if "0 < k" "start + int k * rl_ping_interval opts + (rl_pong_timeout opts - rl_ping_interval opts) \<le> now" for k
  proof -
    from promptD [OF snoc.prems(1), of "length fs" k] that obtain i where "i < length fs"
      "snd ((fs @ [x]) ! i) = PongFrame" "start + int k * rl_ping_interval opts \<le> fst ((fs @ [x]) ! i)"
      by (auto simp: x)
    then show ?thesis by (intro exI [of _ i]) (simp add: nth_append)
  qed
  from prompt_in_time [OF assms(1) this q(2)] have "now \<le> pr_read_deadline q" .
  moreover have "harmless f" using snoc.prems(2) by (simp add: x)
  ultimately obtain r where "read_frame opts now f q = Reads r" "covers opts start (fs @ [(now, f)]) r"
    using read_harmless [OF _ _ q(2) so(2,3)] by blast
  with q(1) show ?case by (simp add: x read_frames_append)
qed

text \<open>A peer that stays silent is given up, and its session with it.\<close>

lemma silent_peer_lost:
  "pr_read_deadline p < now \<Longrightarrow> read_frame opts now f p = Lost read_timeout"
  by (simp add: read_frame_def)

lemma run_ping_settings:
  assumes "run env args = Serve p"
  shows "0 < rl_ping_interval (sp_relay p)" "rl_ping_interval (sp_relay p) < rl_pong_timeout (sp_relay p)"
  using run_serves(1) [OF assms] by (auto simp: plan_of_def config_ok_def duration_ok_def)

end
