(* ===== verification/Key_Lifecycle.thy ===== *)
theory Key_Lifecycle
  imports Api_Key_Command
begin

text \<open>
  What the command line and the authenticator promise together: a minted token is accepted, a token
  nobody saw leaves no key, a revoked key is refused, and a latched authenticator stays latched over
  any run of requests.
\<close>

section \<open>Runs of requests\<close>

text \<open>
  Requests one after the other: what the second reading of the latch finds, the header, and what
  happens to the world between two requests (another server, the command line).
\<close>

fun serve_requests :: "(string \<Rightarrow> string) \<Rightarrow> (bool \<times> string \<times> (world \<Rightarrow> world)) list
    \<Rightarrow> auth_state \<Rightarrow> world \<Rightarrow> auth_state \<times> world" where
  "serve_requests digest [] st w = (st, w)"
| "serve_requests digest ((l, a, between) # rs) st w =
    (case TokenAuthenticator digest l st a w of
       (_, st1, w1) \<Rightarrow> serve_requests digest rs st1 (between w1))"

lemma serve_requests_latch:
  "serve_requests digest rs st w = (st', w') \<Longrightarrow> authRequired st \<Longrightarrow> authRequired st'"
  by (induction digest rs st w rule: serve_requests.induct)
    (auto dest: token_latch split: prod.splits)

section \<open>The authenticator in an undisturbed database\<close>

definition active_keys :: "database \<Rightarrow> api_key list" where
  "active_keys d = filter (\<lambda>k. krevoked k = None) (api_keys d)"

text \<open>
  The two grounds on which a request gets in: anonymously, while the latch is open and the database
  has no active key; or with the key its token names, active when it was looked up.
\<close>

definition anonymous_ground :: "auth_state \<Rightarrow> world \<Rightarrow> uuid option \<Rightarrow> bool" where
  "anonymous_ground st w who \<longleftrightarrow>
     who = None \<and> \<not> authRequired st \<and> (\<exists>w0. disturbed w w0 \<and> active_keys (wdb w0) = [])"

definition key_ground :: "(string \<Rightarrow> string) \<Rightarrow> string \<Rightarrow> world \<Rightarrow> uuid option \<Rightarrow> bool" where
  "key_ground digest a w who \<longleftrightarrow>
     (\<exists>token k w0. bearerToken a = Some token \<and> who = Some (kid k) \<and> disturbed w w0
        \<and> k \<in> set (active_keys (wdb w0)) \<and> khash k = digest token)"

lemma token_grounds:
  "TokenAuthenticator digest l st a w = (Inr who, st', w') \<Longrightarrow>
    anonymous_ground st w who \<or> key_ground digest a w who"
  by (drule token_admits)
    (simp add: anonymous_ground_def key_ground_def active_keys_def filter_empty_conv conj_ac)

lemma requires_calm:
  "requiresAuthentication l st (calm d t) =
    (if authRequired st then (Inr True, st, calm d t)
     else if active_keys d = [] then (Inr l, st\<lparr>authRequired := l\<rparr>, calm d t)
     else (Inr True, st\<lparr>authRequired := True\<rparr>, calm d t))"
  by (simp add: requiresAuthentication_def CountActiveAPIKeys_def active_keys_def)

lemma token_calm:
  assumes "authRequired st \<or> active_keys d \<noteq> []" and "bearerToken a = Some token"
  shows "fst (TokenAuthenticator digest l st a (calm d t)) =
    (case find (\<lambda>k. khash k = digest token \<and> krevoked k = None) (api_keys d) of
       None \<Rightarrow> Inl ErrUnauthorized | Some k \<Rightarrow> Inr (Some (kid k)))"
  using assms
  by (auto simp: TokenAuthenticator_def requires_calm GetActiveAPIKeyByHash_def split: option.splits)

text \<open>A token no active key answers for is refused, or let in as anonymous while nothing asks for keys.\<close>

lemma token_of_no_key:
  assumes "bearerToken a = Some token"
    and "find (\<lambda>k. khash k = digest token \<and> krevoked k = None) (api_keys d) = None"
  shows "fst (TokenAuthenticator digest l st a (calm d t)) =
    (if authRequired st \<or> active_keys d \<noteq> [] \<or> l then Inl ErrUnauthorized else Inr None)"
  using assms
  by (auto simp: TokenAuthenticator_def requires_calm GetActiveAPIKeyByHash_def Let_def split: option.splits)

section \<open>Creating\<close>

lemma insert_key_Inr:
  "InsertAPIKey p now d = Inr (k, e) \<Longrightarrow>
    k = \<lparr>kid = ik_id p, kname = ik_name p, khash = ik_hash p, kprefix = ik_prefix p,
         kcreated = now, klast_used = None, krevoked = None\<rparr>
    \<and> e = insert_key k \<and> ik_id p \<notin> kid ` set (api_keys d) \<and> ik_hash p \<notin> khash ` set (api_keys d)"
  by (auto simp: InsertAPIKey_def Let_def split: if_splits)

lemma insert_delete_key:
  assumes "kid k \<notin> kid ` set (api_keys d)"
  shows "delete_keys [kid k] (insert_key k d) = d"
proof -
  have "filter (\<lambda>ka. kid ka \<noteq> kid k) (api_keys d) = api_keys d"
    using assms by (intro filter_True) (metis imageI)
  then show ?thesis by (simp add: effect_defs)
qed

text \<open>No session refers to a key that did not exist, so the deletion is not refused.\<close>

lemma unused_key:
  "schema_ok d \<Longrightarrow> i \<notin> kid ` set (api_keys d) \<Longrightarrow> \<not> list_ex (\<lambda>s. skey s = Some i) (sessions d)"
  by (auto simp: schema_ok_def list_all_iff list_ex_iff split: option.splits)

lemma create_calm_unprinted:
  assumes "schema_ok d" and "cm_print env = Some p"
  shows "snd (Create digest env name (calm d t)) = calm d t
    \<and> (\<exists>e. fst (Create digest env name (calm d t)) = Inl e)"
proof (cases "TrimSpace name = [] \<or> (\<exists>e. cm_random env = Inl e)")
  case True
  then show ?thesis by (auto simp: Create_def generateToken_def)
next
  case False
  then obtain bytes where b: "TrimSpace name \<noteq> []" "cm_random env = Inr bytes"
    by (cases "cm_random env") auto
  let ?token = "token_prefix @ base64url bytes"
  let ?q = "\<lparr>ik_id = cm_id env, ik_name = TrimSpace name, ik_hash = digest ?token,
    ik_prefix = take storedTokenPrefixLength ?token\<rparr>"
  show ?thesis
  proof (cases "InsertAPIKey ?q t d")
    case (Inl e)
    with b show ?thesis by (simp add: Create_def generateToken_def)
  next
    case (Inr ke)
    then obtain k e where ke: "InsertAPIKey ?q t d = Inr (k, e)" by (cases ke) auto
    note k = insert_key_Inr [OF ke]
    from k have new: "kid k \<notin> kid ` set (api_keys d)" "e = insert_key k" by auto
    with unused_key [OF assms(1) new(1)] have "DeleteAPIKey (kid k) t (insert_key k d) = Inr ((), delete_keys [kid k])"
      by (simp add: DeleteAPIKey_def)
    with b ke new assms(2) show ?thesis
      by (simp add: Create_def generateToken_def Let_def insert_delete_key)
  qed
qed

text \<open>
  In any surroundings a creation whose token cannot be printed fails, and either nothing was inserted, or
  the key is gone when it returns, or its error says that the insertion's answer or the deletion failed.
\<close>

lemma create_unprinted:
  assumes "cm_print env = Some p"
  shows "\<exists>e w'. Create digest env name w = (Inl e, w')
    \<and> (disturbed w w' \<or> (\<exists>c. e = Wrap ''inserting api key'' (Cause c))
       \<or> e = Wrap ''printing api key token'' p \<and> cm_id env \<notin> kid ` set (api_keys (wdb w'))
       \<or> (\<exists>x. e = Pair (Wrap ''printing api key token'' p) (Wrap ''deleting unusable api key'' x)))"
proof (cases "TrimSpace name = [] \<or> (\<exists>e. generateToken (cm_random env) = Inl e)")
  case True
  then show ?thesis by (auto simp: Create_def disturbed_refl)
next
  case False
  then obtain token where t: "TrimSpace name \<noteq> []" "generateToken (cm_random env) = Inr token"
    by (cases "generateToken (cm_random env)") auto
  let ?q = "InsertAPIKey \<lparr>ik_id = cm_id env, ik_name = TrimSpace name, ik_hash = digest token,
    ik_prefix = take storedTokenPrefixLength token\<rparr>"
  obtain r w1 where x: "exec ?q w = (r, w1)" by fastforce
  show ?thesis
  proof (cases r)
    case (Inl e)
    with x have "disturbed w w1 \<or> (\<exists>c. e = Cause c)"
      by (auto simp: exec_def dest: disturbed_next split: prod.splits option.splits sum.splits if_splits)
    with t x Inl show ?thesis by (auto simp: Create_def)
  next
    case (Inr key)
    with x have key: "kid key = cm_id env"
      by (auto simp: exec_def dest: insert_key_Inr split: prod.splits option.splits sum.splits)
    obtain y w2 where del: "exec (DeleteAPIKey (kid key)) w1 = (y, w2)" by fastforce
    have "cm_id env \<notin> kid ` set (api_keys (wdb w2))" if "y = Inr ()"
      using del that key
      by (auto simp: exec_def DeleteAPIKey_def effect_targets split: prod.splits option.splits if_splits)
    with t x Inr del assms show ?thesis by (cases y) (auto simp: Create_def Let_def)
  qed
qed

lemma create_calm_printed:
  assumes "cm_print env = None" and "cm_random env = Inr bytes" and "TrimSpace name \<noteq> []"
    and "cm_id env \<notin> kid ` set (api_keys d)" and "digest (token_prefix @ base64url bytes) \<notin> khash ` set (api_keys d)"
  shows "\<exists>k. Create digest env name (calm d t) = (Inr k, calm (insert_key k d) t)
    \<and> kid k = cm_id env \<and> kname k = TrimSpace name \<and> khash k = digest (token_prefix @ base64url bytes)
    \<and> krevoked k = None"
  using assms
  by (auto simp: Create_def generateToken_def InsertAPIKey_def Let_def)

lemma find_inserted:
  "h \<notin> khash ` set ks \<Longrightarrow> khash k = h \<Longrightarrow> krevoked k = None \<Longrightarrow>
    find (\<lambda>k. khash k = h \<and> krevoked k = None) (ks @ [k]) = Some k"
  by (induction ks) auto

section \<open>Revoking\<close>

definition revoked_at :: "uuid \<Rightarrow> int \<Rightarrow> database \<Rightarrow> database" where
  "revoked_at i t = set_keys [i] (\<lambda>k. k\<lparr>krevoked := Some t\<rparr>)"

lemma revoke_calm:
  assumes "lookup_row kid i (api_keys d) = Some k"
  shows "Revoke env i (calm d t) =
    (if krevoked k = None then (None, calm (revoked_at i t d) t)
     else (map_option (Wrap ''printing api key revoke status'') (cm_print env), calm d t))"
  using assms by (auto simp: Revoke_def RevokeAPIKey_def GetAPIKey_def revoked_at_def)

text \<open>Digests are unique, so no other key answers for the revoked one.\<close>

lemma revoked_hash:
  assumes "schema_ok d" and "lookup_row kid i (api_keys d) = Some k"
  shows "find (\<lambda>r. khash r = khash k \<and> krevoked r = None)
    (api_keys (if krevoked k = None then revoked_at i t d else d)) = None"
proof -
  have k: "k \<in> set (api_keys d)" "kid k = i" using lookup_row_Some [OF assms(2)] by auto
  have only: "khash r = khash k \<longleftrightarrow> r = k" if "r \<in> set (api_keys d)" for r
    using that k(1) assms(1) by (auto simp: schema_ok_def distinct_map inj_on_def)
  show ?thesis
  proof (cases "krevoked k = None")
    case True
    have "\<not> (khash r = khash k \<and> krevoked r = None)" if "r \<in> set (api_keys (revoked_at i t d))" for r
    proof -
      from that obtain r0 where "r0 \<in> set (api_keys d)"
        "r = (if kid r0 = i then r0\<lparr>krevoked := Some t\<rparr> else r0)"
        by (auto simp: revoked_at_def effect_targets set_update_where)
      with only [of r0] k(2) show ?thesis by auto
    qed
    with True show ?thesis by (simp add: find_None_iff)
  next
    case False
    with only show ?thesis by (auto simp: find_None_iff)
  qed
qed

text \<open>
  The latch is permanent: once an authenticator has asked for a key, then after any requests and
  whatever happens to the keys between them, only the key its token names lets a request in.
\<close>

lemma latch_is_permanent:
  assumes "authRequired st" and "serve_requests digest rs st w = (st1, w1)"
    and "TokenAuthenticator digest l st1 a w1 = (Inr who, st2, w2)"
  shows "key_ground digest a w1 who"
  using token_grounds [OF assms(3)] serve_requests_latch [OF assms(2,1)]
  by (simp add: anonymous_ground_def)

end
