(* ===== verification/Operations.thy ===== *)
theory Operations
  imports Main
begin

text \<open>
  The operations of the API as \<open>internal/httpapi/server.go\<close> declares them to the framework, and the
  document that is published for them (\<open>openapi.yaml\<close>). The routes of \<open>Http_Server\<close> are made from these
  declarations.
\<close>

datatype operation = CreateSession | GetSessionOp | DeleteSession | ListWorkersOp | GetCapacity
  | RegisterWorkerOp | HeartbeatWorker | SetStatusOp | Health | Readiness

section \<open>Declarations\<close>

text \<open>A field that a declaration leaves out is empty, its default status \<open>None\<close>.\<close>

record operation_decl =
  od_id :: string
  od_method :: string
  od_path :: string
  od_summary :: string
  od_description :: string
  od_tags :: "string list"
  od_default :: "nat option"
  od_errors :: "nat list"

definition create_session_decl :: operation_decl where
  "create_session_decl = \<lparr>od_id = ''create-session'', od_method = ''POST'', od_path = ''/sessions'',
     od_summary = ''Create a session'', od_description = [], od_tags = [''Sessions''],
     od_default = Some 201, od_errors = [429, 401, 422, 503]\<rparr>"

definition get_session_decl :: operation_decl where
  "get_session_decl = \<lparr>od_id = ''get-session'', od_method = ''GET'', od_path = ''/sessions/{id}'',
     od_summary = ''Get a session'', od_description = [], od_tags = [''Sessions''],
     od_default = None, od_errors = [404, 401, 503]\<rparr>"

definition delete_session_decl :: operation_decl where
  "delete_session_decl = \<lparr>od_id = ''delete-session'', od_method = ''DELETE'', od_path = ''/sessions/{id}'',
     od_summary = ''Terminate a session'',
     od_description = ''The relay closes within one session heartbeat interval.'', od_tags = [''Sessions''],
     od_default = Some 204, od_errors = [404, 401, 503]\<rparr>"

definition list_workers_decl :: operation_decl where
  "list_workers_decl = \<lparr>od_id = ''list-workers'', od_method = ''GET'', od_path = ''/workers'',
     od_summary = ''List workers'', od_description = [], od_tags = [''Workers''],
     od_default = None, od_errors = [401, 503]\<rparr>"

definition get_capacity_decl :: operation_decl where
  "get_capacity_decl = \<lparr>od_id = ''get-capacity'', od_method = ''GET'', od_path = ''/capacity'',
     od_summary = ''Get session capacity'', od_description = [], od_tags = [''Sessions''],
     od_default = None, od_errors = [401, 503]\<rparr>"

definition register_worker_decl :: operation_decl where
  "register_worker_decl = \<lparr>od_id = ''register-worker'', od_method = ''POST'', od_path = ''/workers'',
     od_summary = ''Register a worker'', od_description = [], od_tags = [''Workers''],
     od_default = Some 201, od_errors = [401, 422, 503]\<rparr>"

definition heartbeat_worker_decl :: operation_decl where
  "heartbeat_worker_decl = \<lparr>od_id = ''heartbeat-worker'', od_method = ''POST'',
     od_path = ''/workers/{id}/heartbeat'', od_summary = ''Heartbeat a worker'', od_description = [],
     od_tags = [''Workers''], od_default = None, od_errors = [404, 401, 503]\<rparr>"

definition set_status_decl :: operation_decl where
  "set_status_decl = \<lparr>od_id = ''set-worker-status'', od_method = ''POST'', od_path = ''/workers/{id}/status'',
     od_summary = ''Request a worker status transition'', od_description = [], od_tags = [''Workers''],
     od_default = None, od_errors = [404, 409, 401, 503]\<rparr>"

definition health_decl :: operation_decl where
  "health_decl = \<lparr>od_id = ''health'', od_method = ''GET'', od_path = ''/healthz'',
     od_summary = ''Check process health'', od_description = [], od_tags = [''Infrastructure''],
     od_default = None, od_errors = []\<rparr>"

definition readiness_decl :: operation_decl where
  "readiness_decl = \<lparr>od_id = ''readiness'', od_method = ''GET'', od_path = ''/readyz'',
     od_summary = ''Check database readiness'', od_description = [], od_tags = [''Infrastructure''],
     od_default = None, od_errors = [503]\<rparr>"

lemmas declarations = create_session_decl_def get_session_decl_def delete_session_decl_def
  list_workers_decl_def get_capacity_decl_def register_worker_decl_def heartbeat_worker_decl_def
  set_status_decl_def health_decl_def readiness_decl_def

fun operation_of :: "operation \<Rightarrow> operation_decl" where
  "operation_of CreateSession = create_session_decl"
| "operation_of GetSessionOp = get_session_decl"
| "operation_of DeleteSession = delete_session_decl"
| "operation_of ListWorkersOp = list_workers_decl"
| "operation_of GetCapacity = get_capacity_decl"
| "operation_of RegisterWorkerOp = register_worker_decl"
| "operation_of HeartbeatWorker = heartbeat_worker_decl"
| "operation_of SetStatusOp = set_status_decl"
| "operation_of Health = health_decl"
| "operation_of Readiness = readiness_decl"

section \<open>The published document\<close>

text \<open>The statuses \<open>openapi.yaml\<close> names for each operation; what it says of any other is one \<open>default\<close> for \<open>health\<close>.\<close>

fun documented :: "operation \<Rightarrow> nat list" where
  "documented CreateSession = [201, 401, 422, 429, 500, 503]"
| "documented GetSessionOp = [200, 401, 404, 422, 500, 503]"
| "documented DeleteSession = [204, 401, 404, 422, 500, 503]"
| "documented ListWorkersOp = [200, 401, 500, 503]"
| "documented GetCapacity = [200, 401, 500, 503]"
| "documented RegisterWorkerOp = [201, 401, 422, 500, 503]"
| "documented HeartbeatWorker = [200, 401, 404, 422, 500, 503]"
| "documented SetStatusOp = [200, 401, 404, 409, 422, 500, 503]"
| "documented Health = [200]"
| "documented Readiness = [200, 500, 503]"

text \<open>
  It adds to a declaration the framework's own refusals: 422 where the operation has inputs, 500 where
  any error is declared; and 200 for a default status left out.
\<close>

definition has_inputs :: "operation \<Rightarrow> bool" where
  "has_inputs oper \<longleftrightarrow> oper \<notin> {ListWorkersOp, GetCapacity, Health, Readiness}"

lemma documented_declared:
  "set (documented oper) =
    insert (case od_default (operation_of oper) of None \<Rightarrow> 200 | Some st \<Rightarrow> st) (set (od_errors (operation_of oper)))
    \<union> (if od_errors (operation_of oper) \<noteq> [] then {500} else {}) \<union> (if has_inputs oper then {422} else {})"
  by (cases oper) (auto simp: declarations has_inputs_def)

end
