(* ===== verification/Http_Server.thy ===== *)
theory Http_Server
  imports Api_Handlers Key_Lifecycle Operations
begin

text \<open>
  \<open>httpapi.New\<close>: which operations exist, which of them sit behind the authentication middleware, and
  how a request passes through them. The mux and the framework pick the operation, decode its
  inputs and check their tags; their result is an argument.
\<close>

section \<open>The operations\<close>

text \<open>
  A request as its operation sees it, with the choices of its surroundings (new identifiers, the
  admission's environment).
\<close>

datatype 'm api_call =
    CallCreateSession admit_env int "'m create_request"
  | CallGetSession uuid
  | CallDeleteSession uuid
  | CallListWorkers
  | CallGetCapacity int
  | CallRegisterWorker uuid register_request
  | CallHeartbeat uuid "uuid list"
  | CallSetStatus uuid worker_status
  | CallHealth
  | CallReadiness

text \<open>
  The routes, by method and path. The groups \<open>/v1\<close> and \<open>/internal\<close> put their prefix before the path
  and the authentication before the operation; the infrastructure routes sit on the API itself.
\<close>

record route =
  rt_method :: string
  rt_path :: string
  rt_operation :: operation
  rt_auth :: bool

definition declared :: "operation \<Rightarrow> string \<times> string \<times> operation" where
  "declared oper = (od_method (operation_of oper), od_path (operation_of oper), oper)"

definition public_routes :: "(string \<times> string \<times> operation) list" where
  "public_routes = map declared [CreateSession, GetSessionOp, DeleteSession, ListWorkersOp, GetCapacity]"

definition worker_routes :: "(string \<times> string \<times> operation) list" where
  "worker_routes = map declared [RegisterWorkerOp, HeartbeatWorker, SetStatusOp]"

definition infrastructure_routes :: "(string \<times> string \<times> operation) list" where
  "infrastructure_routes = map declared [Health, Readiness]"

lemma declared_simps [simp]:
  "declared CreateSession = (''POST'', ''/sessions'', CreateSession)"
  "declared GetSessionOp = (''GET'', ''/sessions/{id}'', GetSessionOp)"
  "declared DeleteSession = (''DELETE'', ''/sessions/{id}'', DeleteSession)"
  "declared ListWorkersOp = (''GET'', ''/workers'', ListWorkersOp)"
  "declared GetCapacity = (''GET'', ''/capacity'', GetCapacity)"
  "declared RegisterWorkerOp = (''POST'', ''/workers'', RegisterWorkerOp)"
  "declared HeartbeatWorker = (''POST'', ''/workers/{id}/heartbeat'', HeartbeatWorker)"
  "declared SetStatusOp = (''POST'', ''/workers/{id}/status'', SetStatusOp)"
  "declared Health = (''GET'', ''/healthz'', Health)"
  "declared Readiness = (''GET'', ''/readyz'', Readiness)"
  by (simp_all add: declared_def declarations)

definition group_routes :: "string \<Rightarrow> bool \<Rightarrow> (string \<times> string \<times> operation) list \<Rightarrow> route list" where
  "group_routes path_prefix auth rs =
     map (\<lambda>(m, p, oper). \<lparr>rt_method = m, rt_path = path_prefix @ p, rt_operation = oper, rt_auth = auth\<rparr>) rs"

definition api_routes :: "route list" where
  "api_routes = group_routes ''/v1'' True public_routes @ group_routes ''/internal'' True worker_routes
     @ group_routes [] False infrastructure_routes"

text \<open>
  What the operations share: the scheduler, if there is one, the JSON codec of the metadata, and the
  host of a worker's address.
\<close>

record 'm api_settings =
  as_scheduler :: "sched_options option"
  as_encode :: "'m \<Rightarrow> error + string"
  as_decode :: "string \<Rightarrow> error + 'm"
  as_empty :: 'm
  as_hostname :: "string \<Rightarrow> string option"

text \<open>
  The status of an outcome; \<open>no_reply\<close> stands for no answer: the client has gone, or the request
  still waits in the queue.
\<close>

abbreviation no_reply :: reply where
  "no_reply \<equiv> plain_reply 0 []"

definition reply_of :: "'b outcome \<Rightarrow> reply" where
  "reply_of out = (case out of
     Answer status _ \<Rightarrow> plain_reply status []
   | Refusal None \<Rightarrow> no_reply
   | Refusal (Some rp) \<Rightarrow> rp)"

definition replied :: "'b outcome \<times> world \<Rightarrow> reply \<times> world" where
  "replied r = (case r of (out, w) \<Rightarrow> (reply_of out, w))"

fun run_call :: "'m api_settings \<Rightarrow> 'm api_call \<Rightarrow> uuid option \<Rightarrow> world \<Rightarrow> reply \<times> world" where
  "run_call s (CallCreateSession env depth rq) who w =
    (case create_session (as_encode s) (as_decode s) (as_empty s) (as_scheduler s) env depth who rq w of
       (None, w') \<Rightarrow> (no_reply, w')
     | (Some out, w') \<Rightarrow> (reply_of out, w'))"
| "run_call s (CallGetSession i) who w = replied (get_session (as_decode s) i w)"
| "run_call s (CallDeleteSession i) who w = replied (delete_session i w)"
| "run_call s CallListWorkers who w = replied (list_workers w)"
| "run_call s (CallGetCapacity depth) who w = replied (get_capacity (as_scheduler s) depth w)"
| "run_call s (CallRegisterWorker i rq) who w = replied (register_worker (as_hostname s) i rq w)"
| "run_call s (CallHeartbeat i reported) who w = replied (heartbeat_worker (as_scheduler s) i reported w)"
| "run_call s (CallSetStatus i target) who w = replied (set_worker_status i target w)"
| "run_call s CallHealth who w = (reply_of health, w)"
| "run_call s CallReadiness who w = replied (readiness w)"

text \<open>
  A request to the API. The middleware runs before the framework decodes the inputs: \<open>Inl\<close> is the
  framework's own refusal of inputs that do not match their tags. The mux chose the route.
\<close>

definition serve_api :: "'m api_settings \<Rightarrow> authenticate \<Rightarrow> bool \<Rightarrow> auth_state \<Rightarrow> string
    \<Rightarrow> route \<Rightarrow> reply + 'm api_call \<Rightarrow> world \<Rightarrow> reply \<times> auth_state \<times> world" where
  "serve_api s auth l st authorization route decoded w =
    (let operation = (\<lambda>who w1. case decoded of Inl rp \<Rightarrow> (rp, w1) | Inr c \<Rightarrow> run_call s c who w1)
     in if rt_auth route then authMiddleware auth l st authorization operation w
        else (case operation None w of (rp, w') \<Rightarrow> (rp, st, w')))"

section \<open>A refused request\<close>

lemma routes_behind_auth:
  "r \<in> set api_routes \<Longrightarrow> rt_auth r \<longleftrightarrow> rt_path r \<noteq> ''/healthz'' \<and> rt_path r \<noteq> ''/readyz''"
  by (auto simp: api_routes_def group_routes_def public_routes_def worker_routes_def infrastructure_routes_def)

text \<open>An authenticator that refuses has only read: the database is left to the others.\<close>

lemma token_refuses:
  assumes "TokenAuthenticator digest l st a w = (Inl e, st', w')"
  shows "disturbed w w'"
proof -
  obtain r st1 w1 where q: "requiresAuthentication l st w = (r, st1, w1)"
    by (cases "requiresAuthentication l st w") auto
  note rc = requires_cases(1) [OF q]
  show ?thesis
  proof (cases r)
    case (Inl e')
    with assms q rc show ?thesis by (simp add: TokenAuthenticator_def)
  next
    case (Inr required)
    show ?thesis
    proof (cases "bearerToken a")
      case None
      with assms q rc Inr show ?thesis by (auto simp: TokenAuthenticator_def split: if_splits)
    next
      case (Some token)
      obtain x w2 where x: "exec (GetActiveAPIKeyByHash (digest token)) w1 = (x, w2)" by fastforce
      with assms q Inr Some have "w' = w2"
        by (auto simp: TokenAuthenticator_def split: if_splits sum.splits)
      with exec_reads(1) [OF x lookup_reads] rc disturbed_trans show ?thesis by blast
    qed
  qed
qed

lemma middleware_cases:
  assumes "authMiddleware (TokenAuthenticator digest) l st a operation w = (rp, st', w')"
  obtains (refused) "rp_status rp = 401 \<or> rp_status rp = 503" "disturbed w w'"
  | (admitted) who w1 where "operation who w1 = (rp, w')"
      "anonymous_ground st w who \<or> key_ground digest a w who"
proof -
  obtain r st1 w1 where t: "TokenAuthenticator digest l st a w = (r, st1, w1)"
    by (cases "TokenAuthenticator digest l st a w") auto
  show thesis
  proof (cases r)
    case (Inl e)
    with assms t have "rp = auth_failure e" "w' = w1" by (auto simp: authMiddleware_def)
    with token_refuses [OF t [unfolded Inl]] refused show thesis
      by (auto simp: auth_failure_def split: if_splits)
  next
    case (Inr who)
    with assms t have "operation who w1 = (rp, w')"
      by (auto simp: authMiddleware_def split: prod.splits)
    with token_grounds [OF t [unfolded Inr]] admitted show thesis by blast
  qed
qed

section \<open>Registration and claim\<close>

definition registration :: "uuid \<Rightarrow> register_request \<Rightarrow> int \<Rightarrow> worker" where
  "registration i rq t = \<lparr>wid = i, waddress = rr_address rq, wbrowser = rr_browser rq, wversion = rr_version rq,
     wmax_slots = rr_max_slots rq, wstatus = Available, wheartbeat = t, wlifetime = 0, wcreated = t\<rparr>"

lemma register_worker_calm:
  assumes "hostname (rr_address rq) = Some h" and "h \<noteq> []" and "known_browser (rr_browser rq)"
    and "0 < rr_max_slots rq" and "i \<notin> wid ` set (workers d)"
  shows "register_worker hostname i rq (calm d t) =
    (Answer 201 (workerFromData (registration i rq t)), calm (notify (insert_worker (registration i rq t) d)) t)"
  using assms
  by (simp add: register_worker_def registerWorker_def in_tx_calm register_body_def RegisterWorker_def Let_def
      NotifyCapacityChanged_def worker_check_def registration_def comp_def)

lemma registered_candidate:
  assumes "count_active d i = 0"
    and "known_browser (rr_browser rq)" and "0 < rr_max_slots rq"
    and "cp_browser p = rr_browser rq" and "prefix (cp_prefix p) (rr_version rq)" and "0 < cp_ttl p"
    and "0 \<le> cp_max_lifetime p" and "i \<notin> set (cp_excluded p)"
  shows "registration i rq t \<in> set (claim_candidates p t (notify (insert_worker (registration i rq t) d)))"
proof -
  have "count_active (notify (insert_worker (registration i rq t) d)) i = 0"
    using assms(1) by (simp add: count_active_def)
  with assms(2-) show ?thesis
    by (auto simp: candidate_iff claimable_def effect_targets registration_def lifetime_left_def)
qed

end
