(* ===== verification/Routing.thy ===== *)
theory Routing
  imports Http_Server Relay_Handlers
begin

text \<open>
  The whole handler of \<open>httpapi.New\<close>: its options, the patterns it registers at the standard library's
  mux (the API's operations and the two relay endpoints), and what a request of any method and path
  comes to.
\<close>

section \<open>Options\<close>

record server_options =
  ho_scheduler :: "sched_options option"
  ho_relayManager :: bool
  ho_defaultBrowser :: string
  ho_dialTimeout :: int

type_synonym server_option = "server_options \<Rightarrow> server_options"

definition WithScheduler :: "sched_options option \<Rightarrow> server_option" where
  "WithScheduler chosen options = options\<lparr>ho_scheduler := chosen\<rparr>"

text \<open>Whether there is a manager is all the routes depend on; its state is the handlers' business.\<close>

definition WithRelayManager :: "bool \<Rightarrow> string \<Rightarrow> int \<Rightarrow> server_option" where
  "WithRelayManager chosen browser timeout options =
     options\<lparr>ho_relayManager := chosen, ho_defaultBrowser := browser, ho_dialTimeout := timeout\<rparr>"

definition server_settings :: "server_option list \<Rightarrow> server_options" where
  "server_settings options =
     fold (\<lambda>opt. opt) options
       \<lparr>ho_scheduler = None, ho_relayManager = False, ho_defaultBrowser = ''chromium'',
        ho_dialTimeout = 10 * second\<rparr>"

section \<open>Patterns\<close>

datatype relay_endpoint = ImplicitEndpoint | ExplicitEndpoint

datatype endpoint = ApiEndpoint route | RelayEndpoint relay_endpoint

record pattern =
  pt_method :: string
  pt_path :: string
  pt_endpoint :: endpoint

definition relay_routes :: "pattern list" where
  "relay_routes =
     [\<lparr>pt_method = ''GET'', pt_path = ''/{$}'', pt_endpoint = RelayEndpoint ImplicitEndpoint\<rparr>,
      \<lparr>pt_method = ''GET'', pt_path = ''/sessions/{id}'', pt_endpoint = RelayEndpoint ExplicitEndpoint\<rparr>]"

definition server_routes :: "server_options \<Rightarrow> pattern list" where
  "server_routes so =
     map (\<lambda>r. \<lparr>pt_method = rt_method r, pt_path = rt_path r, pt_endpoint = ApiEndpoint r\<rparr>) api_routes
     @ (if ho_relayManager so then relay_routes else [])"

text \<open>
  The mux splits a path at its slashes; a segment \<open>{$}\<close> stands for the end of the path, any other
  segment in braces for one segment that is not empty. A pattern for GET also serves HEAD.
\<close>

fun segments :: "string \<Rightarrow> string list" where
  "segments [] = [[]]"
| "segments (c # cs) =
    (if c = CHR ''/'' then [] # segments cs
     else (case segments cs of [] \<Rightarrow> [[c]] | s # ss \<Rightarrow> (c # s) # ss))"

definition wild :: "string \<Rightarrow> bool" where
  "wild p \<longleftrightarrow> prefix ''{'' p"

definition segment_matches :: "string \<Rightarrow> string \<Rightarrow> bool" where
  "segment_matches p s \<longleftrightarrow>
     (if p = ''{$}'' then s = [] else if wild p then s \<noteq> [] else s = p)"

definition path_matches :: "string \<Rightarrow> string \<Rightarrow> bool" where
  "path_matches p path \<longleftrightarrow> list_all2 segment_matches (segments p) (segments path)"

definition method_matches :: "string \<Rightarrow> string \<Rightarrow> bool" where
  "method_matches m method \<longleftrightarrow> method = m \<or> (m = ''GET'' \<and> method = ''HEAD'')"

definition pattern_matches :: "string \<Rightarrow> string \<Rightarrow> pattern \<Rightarrow> bool" where
  "pattern_matches method path p \<longleftrightarrow> method_matches (pt_method p) method \<and> path_matches (pt_path p) path"

section \<open>Serving a request\<close>

text \<open>
  A request: its method, its path (cleaned; the mux redirects any other before it looks for a
  pattern), its \<open>Authorization\<close> header, what the framework decodes for the operation, and what the
  relay reads of it.
\<close>

record 'm http_request =
  hr_method :: string
  hr_path :: string
  hr_authorization :: string
  hr_decoded :: "operation \<Rightarrow> reply + 'm api_call"
  hr_relay :: relay_request

record 'm server =
  sv_options :: server_options
  sv_auth :: authenticate
  sv_api :: "'m api_settings"
  sv_parse_uuid :: "string \<Rightarrow> error + uuid"

text \<open>The operation the framework decodes for is the one the pattern names.\<close>

fun call_operation :: "'m api_call \<Rightarrow> operation" where
  "call_operation (CallCreateSession env depth rq) = CreateSession"
| "call_operation (CallGetSession i) = GetSessionOp"
| "call_operation (CallDeleteSession i) = DeleteSession"
| "call_operation CallListWorkers = ListWorkersOp"
| "call_operation (CallGetCapacity depth) = GetCapacity"
| "call_operation (CallRegisterWorker i rq) = RegisterWorkerOp"
| "call_operation (CallHeartbeat i reported) = HeartbeatWorker"
| "call_operation (CallSetStatus i target) = SetStatusOp"
| "call_operation CallHealth = Health"
| "call_operation CallReadiness = Readiness"

definition decodes :: "'m http_request \<Rightarrow> bool" where
  "decodes rq \<longleftrightarrow> (\<forall>oper c. hr_decoded rq oper = Inr c \<longrightarrow> call_operation c = oper)"

text \<open>What the relay reads of the request: the header and the path's last segment, \<open>PathValue("id")\<close>.\<close>

definition relay_view :: "'m http_request \<Rightarrow> relay_request" where
  "relay_view rq = (hr_relay rq)\<lparr>rq_authorization := hr_authorization rq,
     rq_path_id := last (segments (hr_path rq))\<rparr>"

text \<open>The mux itself answers a request no pattern matches.\<close>

definition unmatched :: "pattern list \<Rightarrow> string \<Rightarrow> reply" where
  "unmatched ps path =
    (if list_ex (\<lambda>p. path_matches (pt_path p) path) ps then plain_reply 405 ''Method Not Allowed''
     else plain_reply 404 ''404 page not found'')"

definition serve_endpoint :: "'m server \<Rightarrow> auth_state \<Rightarrow> 'm http_request \<Rightarrow> relay_env \<Rightarrow> endpoint
    \<Rightarrow> world \<Rightarrow> reply option \<times> auth_state \<times> world" where
  "serve_endpoint sv st rq env e w =
    (case e of
       ApiEndpoint r \<Rightarrow>
         (case serve_api ((sv_api sv)\<lparr>as_scheduler := ho_scheduler (sv_options sv)\<rparr>) (sv_auth sv)
                 (re_latched env) st (hr_authorization rq) r (hr_decoded rq (rt_operation r)) w of
            (rp, st', w') \<Rightarrow> (Some rp, st', w'))
     | RelayEndpoint ImplicitEndpoint \<Rightarrow>
         implicit (sv_auth sv) (ho_scheduler (sv_options sv)) (ho_defaultBrowser (sv_options sv)) env
           (relay_view rq) st w
     | RelayEndpoint ExplicitEndpoint \<Rightarrow>
         explicit (sv_auth sv) (sv_parse_uuid sv) env (relay_view rq) st w)"

definition serve_request :: "'m server \<Rightarrow> auth_state \<Rightarrow> 'm http_request \<Rightarrow> relay_env
    \<Rightarrow> world \<Rightarrow> reply option \<times> auth_state \<times> world" where
  "serve_request sv st rq env w =
    (let ps = server_routes (sv_options sv)
     in case find (pattern_matches (hr_method rq) (hr_path rq)) ps of
          None \<Rightarrow> (Some (unmatched ps (hr_path rq)), st, w)
        | Some p \<Rightarrow> serve_endpoint sv st rq env (pt_endpoint p) w)"

section \<open>No two patterns match one request\<close>

definition segments_overlap :: "string \<Rightarrow> string \<Rightarrow> bool" where
  "segments_overlap p q \<longleftrightarrow>
     (if p = ''{$}'' then q = ''{$}'' \<or> q = []
      else if q = ''{$}'' then p = []
      else if wild p then q \<noteq> [] else if wild q then p \<noteq> [] else p = q)"

definition patterns_overlap :: "pattern \<Rightarrow> pattern \<Rightarrow> bool" where
  "patterns_overlap p q \<longleftrightarrow> pt_method p = pt_method q
     \<and> list_all2 segments_overlap (segments (pt_path p)) (segments (pt_path q))"

lemma segments_overlap_intro: "segment_matches p s \<Longrightarrow> segment_matches q s \<Longrightarrow> segments_overlap p q"
  by (auto simp: segment_matches_def segments_overlap_def wild_def split: if_splits)

lemma patterns_overlap_intro:
  assumes "pattern_matches m path p" and "pattern_matches m path q"
    and "pt_method p \<noteq> ''HEAD''" and "pt_method q \<noteq> ''HEAD''"
  shows "patterns_overlap p q"
proof -
  let ?sp = "segments (pt_path p)" and ?sq = "segments (pt_path q)"
  have "list_all2 segment_matches ?sp (segments path)" "list_all2 segment_matches ?sq (segments path)"
    using assms by (simp_all add: pattern_matches_def path_matches_def)
  then have "list_all2 segments_overlap ?sp ?sq"
    by (simp add: list_all2_conv_all_nth) (metis segments_overlap_intro)
  with assms show ?thesis
    by (auto simp: patterns_overlap_def pattern_matches_def method_matches_def)
qed

lemmas routes_defs = server_routes_def api_routes_def group_routes_def public_routes_def worker_routes_def
  infrastructure_routes_def relay_routes_def

lemma server_routes_methods: "p \<in> set (server_routes so) \<Longrightarrow> pt_method p \<noteq> ''HEAD''"
  by (auto simp: routes_defs split: if_splits)

lemma server_routes_apart:
  "\<forall>p \<in> set (server_routes so). \<forall>q \<in> set (server_routes so). patterns_overlap p q \<longrightarrow> p = q"
  by (cases "ho_relayManager so")
    (simp_all add: routes_defs patterns_overlap_def segments_overlap_def wild_def)

lemma routes_exclusive:
  "p \<in> set (server_routes so) \<Longrightarrow> q \<in> set (server_routes so) \<Longrightarrow>
    pattern_matches m path p \<Longrightarrow> pattern_matches m path q \<Longrightarrow> p = q"
  using server_routes_apart server_routes_methods patterns_overlap_intro by metis

lemma find_exclusive:
  assumes "p \<in> set ps" and "P p" and "\<And>q. q \<in> set ps \<Longrightarrow> P q \<Longrightarrow> q = p"
  shows "find P ps = Some p"
proof (cases "find P ps")
  case None
  with assms(1,2) show ?thesis by (auto simp: find_None_iff)
next
  case (Some q)
  then have "q \<in> set ps" "P q" by (auto simp: find_Some_iff)
  with assms(3) Some show ?thesis by simp
qed

text \<open>So the order of the patterns does not matter: a request is served by the pattern it matches.\<close>

lemma served_by:
  assumes "p \<in> set (server_routes (sv_options sv))" and "pattern_matches (hr_method rq) (hr_path rq) p"
  shows "serve_request sv st rq env w = serve_endpoint sv st rq env (pt_endpoint p) w"
proof -
  have "find (pattern_matches (hr_method rq) (hr_path rq)) (server_routes (sv_options sv)) = Some p"
    using assms routes_exclusive by (blast intro: find_exclusive)
  then show ?thesis by (simp add: serve_request_def Let_def)
qed

section \<open>A request that changes anything was let in\<close>

text \<open>An authenticator that has already admitted a principal.\<close>

definition granting :: "uuid option \<Rightarrow> authenticate" where
  "granting who l st a w = (Inr who, st, w)"

text \<open>The credential a request presents: a relay also takes its token from the query.\<close>

definition credential :: "server_options \<Rightarrow> 'm http_request \<Rightarrow> string" where
  "credential so rq =
    (case find (pattern_matches (hr_method rq) (hr_path rq)) (server_routes so) of
       Some p \<Rightarrow>
         (case pt_endpoint p of
            ApiEndpoint r \<Rightarrow> hr_authorization rq
          | RelayEndpoint e \<Rightarrow>
              (if hr_authorization rq = [] \<and> rq_token (hr_relay rq) \<noteq> [] then ''Bearer '' @ rq_token (hr_relay rq)
               else hr_authorization rq))
     | None \<Rightarrow> hr_authorization rq)"

definition let_in :: "(string \<Rightarrow> string) \<Rightarrow> auth_state \<Rightarrow> world \<Rightarrow> string \<Rightarrow> uuid option \<Rightarrow> bool" where
  "let_in digest st w a who \<longleftrightarrow> anonymous_ground st w who \<or> key_ground digest a w who"

lemma open_routes: "r \<in> set api_routes \<Longrightarrow> \<not> rt_auth r \<Longrightarrow> rt_operation r = Health \<or> rt_operation r = Readiness"
  by (auto simp: routes_defs)

lemma probes_read:
  assumes "run_call s c who w = (rp, w')" and "call_operation c = Health \<or> call_operation c = Readiness"
  shows "disturbed w w'"
proof (cases c)
  case CallReadiness
  obtain b w1 where b: "next_beat w = (b, w1)" by fastforce
  with assms CallReadiness have "w' = w1"
    by (auto simp: replied_def readiness_def split: prod.splits option.splits)
  with disturbed_next [OF b] show ?thesis by simp
qed (use assms disturbed_refl in auto)

lemma relay_auth_cases:
  assumes "authenticateRelay (TokenAuthenticator digest) l st a token w = (r, st1, w1)"
  obtains (refused) rp where "r = Inl rp" "disturbed w w1"
  | (admitted) who where "r = Inr who"
      "let_in digest st w (if a = [] \<and> token \<noteq> [] then ''Bearer '' @ token else a) who"
proof -
  let ?a = "if a = [] \<and> token \<noteq> [] then ''Bearer '' @ token else a"
  obtain q st2 w2 where t: "TokenAuthenticator digest l st ?a w = (q, st2, w2)"
    by (cases "TokenAuthenticator digest l st ?a w") auto
  show thesis
  proof (cases q)
    case (Inl e)
    with t have "r = Inl (auth_failure e)" "w1 = w2" using assms by (auto simp: authenticateRelay_def Let_def)
    with token_refuses [OF t [unfolded Inl]] refused show thesis by blast
  next
    case (Inr who)
    with t have "r = Inr who" using assms by (auto simp: authenticateRelay_def Let_def)
    with token_grounds [OF t [unfolded Inr]] admitted show thesis by (simp add: let_in_def)
  qed
qed

lemma granted_relay: "authenticateRelay (granting who) l st a token w = (Inr who, st, w)"
  by (simp add: authenticateRelay_def granting_def)

lemma granted_middleware:
  "operation who w = (rp, w') \<Longrightarrow> authMiddleware (granting who) l st a operation w = (rp, st, w')"
  by (simp add: authMiddleware_def granting_def)

lemma implicit_let_in:
  assumes "implicit (TokenAuthenticator digest) sched b env v st w = (rp, st', w')"
  obtains "disturbed w w'"
  | who st1 w1 where "let_in digest st w (if rq_authorization v = [] \<and> rq_token v \<noteq> []
        then ''Bearer '' @ rq_token v else rq_authorization v) who"
      "implicit (granting who) sched b env v st1 w1 = (rp, st', w')"
proof (cases "(rq_browser v \<noteq> [] \<and> \<not> validBrowser (rq_browser v))
    \<or> preflight (re_parse_host env) (re_accepting env) v \<noteq> None")
  case True
  with assms have "w' = w" by (auto simp: implicit_def Let_def split: if_splits)
  with that(1) disturbed_refl show thesis by simp
next
  case False
  obtain r st1 w1 where a: "authenticateRelay (TokenAuthenticator digest) (re_latched env) st
      (rq_authorization v) (rq_token v) w = (r, st1, w1)"
    using prod_cases3 by blast
  from a show thesis
  proof (cases rule: relay_auth_cases)
    case (refused rp0)
    with assms a False have "w' = w1" by (auto simp: implicit_def Let_def)
    with refused that(1) show thesis by simp
  next
    case (admitted who)
    with assms a False have "implicit (granting who) sched b env v st1 w1 = (rp, st', w')"
      by (auto simp: implicit_def granted_relay Let_def)
    with admitted that(2) show thesis by blast
  qed
qed

lemma explicit_let_in:
  assumes "explicit (TokenAuthenticator digest) parse env v st w = (rp, st', w')"
  obtains "disturbed w w'"
  | who st1 w1 where "let_in digest st w (if rq_authorization v = [] \<and> rq_token v \<noteq> []
        then ''Bearer '' @ rq_token v else rq_authorization v) who"
      "explicit (granting who) parse env v st1 w1 = (rp, st', w')"
proof (cases "preflight (re_parse_host env) (re_accepting env) v")
  case (Some q)
  with assms have "w' = w" by (auto simp: explicit_def)
  with that(1) disturbed_refl show thesis by simp
next
  case None
  obtain r st1 w1 where a: "authenticateRelay (TokenAuthenticator digest) (re_latched env) st
      (rq_authorization v) (rq_token v) w = (r, st1, w1)"
    using prod_cases3 by blast
  from a show thesis
  proof (cases rule: relay_auth_cases)
    case (refused rp0)
    with assms a None have "w' = w1" by (auto simp: explicit_def)
    with refused that(1) show thesis by simp
  next
    case (admitted who)
    with assms a None have "explicit (granting who) parse env v st1 w1 = (rp, st', w')"
      by (simp add: explicit_def granted_relay)
    with admitted that(2) show thesis by blast
  qed
qed

lemma api_let_in:
  assumes "r \<in> set api_routes" and "\<And>c. decoded = Inr c \<Longrightarrow> call_operation c = rt_operation r"
    and "serve_api s (TokenAuthenticator digest) l st a r decoded w = (rp, st', w')"
  obtains "disturbed w w'"
  | who st1 w1 where "let_in digest st w a who"
      "serve_api s (granting who) l st1 a r decoded w1 = (rp, st', w')"
proof (cases "rt_auth r")
  case True
  let ?oper = "\<lambda>who w1. case decoded of Inl rp \<Rightarrow> (rp, w1) | Inr c \<Rightarrow> run_call s c who w1"
  from True assms(3) have "authMiddleware (TokenAuthenticator digest) l st a ?oper w = (rp, st', w')"
    by (simp add: serve_api_def)
  then show thesis
  proof (cases rule: middleware_cases)
    case refused
    with that(1) show thesis by simp
  next
    case (admitted who w1)
    from granted_middleware [where operation = ?oper, OF admitted(1)] True
    have "serve_api s (granting who) l st' a r decoded w1 = (rp, st', w')" by (simp add: serve_api_def)
    with admitted(2) that(2) show thesis by (simp add: let_in_def)
  qed
next
  case False
  show thesis
  proof (cases decoded)
    case (Inl q)
    with False assms(3) have "w' = w" by (simp add: serve_api_def)
    with that(1) disturbed_refl show thesis by simp
  next
    case (Inr c)
    with False assms(3) have "run_call s c None w = (rp, w')"
      by (auto simp: serve_api_def split: prod.splits)
    with probes_read open_routes [OF assms(1) False] assms(2) [OF Inr] that(1) show thesis by metis
  qed
qed

lemma served_let_in:
  assumes "decodes rq" and "sv_auth sv = TokenAuthenticator digest"
    and "serve_request sv st rq env w = (rp, st', w')"
  obtains "disturbed w w'"
  | who st1 w1 where "let_in digest st w (credential (sv_options sv) rq) who"
      "serve_request (sv\<lparr>sv_auth := granting who\<rparr>) st1 rq env w1 = (rp, st', w')"
proof (cases "find (pattern_matches (hr_method rq) (hr_path rq)) (server_routes (sv_options sv))")
  case None
  with assms(3) have "w' = w" by (simp add: serve_request_def Let_def)
  with that(1) disturbed_refl show thesis by simp
next
  case (Some p)
  then have p: "p \<in> set (server_routes (sv_options sv))" by (auto simp: find_Some_iff)
  have serve: "serve_request sv2 st2 rq env w2 = serve_endpoint sv2 st2 rq env (pt_endpoint p) w2"
    if "sv_options sv2 = sv_options sv" for sv2 :: "'a server" and st2 w2
    using Some that by (simp add: serve_request_def Let_def)
  show thesis
  proof (cases "pt_endpoint p")
    case (ApiEndpoint r)
    have r: "r \<in> set api_routes" using p ApiEndpoint
      by (auto simp: server_routes_def relay_routes_def split: if_splits)
    let ?s = "(sv_api sv)\<lparr>as_scheduler := ho_scheduler (sv_options sv)\<rparr>"
    obtain rp0 where s: "serve_api ?s (TokenAuthenticator digest) (re_latched env) st (hr_authorization rq) r
        (hr_decoded rq (rt_operation r)) w = (rp0, st', w')" "rp = Some rp0"
      using assms(2,3) serve [OF refl] ApiEndpoint by (auto simp: serve_endpoint_def split: prod.splits)
    from r _ s(1) show thesis
    proof (rule api_let_in)
      show "call_operation c = rt_operation r" if "hr_decoded rq (rt_operation r) = Inr c" for c
        using assms(1) that by (simp add: decodes_def)
    next
      show thesis if "disturbed w w'" using that \<open>disturbed w w' \<Longrightarrow> thesis\<close> by blast
    next
      fix who st1 w1
      assume "let_in digest st w (hr_authorization rq) who"
        and "serve_api ?s (granting who) (re_latched env) st1 (hr_authorization rq) r
          (hr_decoded rq (rt_operation r)) w1 = (rp0, st', w')"
      then have "serve_request (sv\<lparr>sv_auth := granting who\<rparr>) st1 rq env w1 = (rp, st', w')"
        using s(2) ApiEndpoint by (simp add: serve serve_endpoint_def)
      moreover have "credential (sv_options sv) rq = hr_authorization rq"
        using Some ApiEndpoint by (simp add: credential_def)
      ultimately show thesis using that(2) \<open>let_in digest st w (hr_authorization rq) who\<close> by simp
    qed
  next
    case (RelayEndpoint e)
    have c: "credential (sv_options sv) rq = (if rq_authorization (relay_view rq) = [] \<and> rq_token (relay_view rq) \<noteq> []
        then ''Bearer '' @ rq_token (relay_view rq) else rq_authorization (relay_view rq))"
      using Some RelayEndpoint by (simp add: credential_def relay_view_def)
    show thesis
    proof (cases e)
      case ImplicitEndpoint
      with RelayEndpoint assms(2,3) serve [OF refl]
      have "implicit (TokenAuthenticator digest) (ho_scheduler (sv_options sv)) (ho_defaultBrowser (sv_options sv))
          env (relay_view rq) st w = (rp, st', w')" by (simp add: serve_endpoint_def)
      then show thesis
        by (rule implicit_let_in)
          (use that RelayEndpoint ImplicitEndpoint c in \<open>auto simp: serve serve_endpoint_def\<close>)
    next
      case ExplicitEndpoint
      with RelayEndpoint assms(2,3) serve [OF refl]
      have "explicit (TokenAuthenticator digest) (sv_parse_uuid sv) env (relay_view rq) st w = (rp, st', w')"
        by (simp add: serve_endpoint_def)
      then show thesis
        by (rule explicit_let_in)
          (use that RelayEndpoint ExplicitEndpoint c in \<open>auto simp: serve serve_endpoint_def\<close>)
    qed
  qed
qed

end
