(* ===== verification/Command_Line.thy ===== *)
theory Command_Line
  imports Api_Key_Command
begin

text \<open>
  The command line as its usage text writes it, and that \<open>Parse\<close> reads every spelling of a command
  back: one or two dashes, the value in the same argument or in the next, whatever the value is.
\<close>

record spelling =
  sp_two_dashes :: bool
  sp_equals :: bool

definition spell_flag :: "spelling \<Rightarrow> string \<Rightarrow> string \<Rightarrow> string list" where
  "spell_flag sp flag value =
    (let dashes = (if sp_two_dashes sp then ''--'' else ''-'')
     in if sp_equals sp then [dashes @ flag @ ''='' @ value] else [dashes @ flag, value])"

fun spell :: "(uuid \<Rightarrow> string) \<Rightarrow> spelling \<Rightarrow> command \<Rightarrow> string list" where
  "spell uuid_string sp (CreateCommand name) = ''create'' # spell_flag sp ''name'' name"
| "spell uuid_string sp ListCommand = [''list'']"
| "spell uuid_string sp (RevokeCommand i) = ''revoke'' # spell_flag sp ''id'' (uuid_string i)"

lemma split_flag_value:
  assumes "CHR ''='' \<notin> set flag" and "flag \<noteq> []"
  shows "split_value (flag @ CHR ''='' # value) = (flag, Some value)"
proof (cases flag)
  case (Cons c cs)
  then have "\<And>x. x \<in> set cs \<Longrightarrow> x \<noteq> CHR ''=''" using assms(1) by auto
  with Cons show ?thesis by (simp add: split_value_def takeWhile_append2 dropWhile_append2)
qed (use assms in simp)

lemma split_flag: "CHR ''='' \<notin> set flag \<Longrightarrow> split_value flag = (flag, None)"
  by (cases flag) (auto simp: split_value_def)

lemma parse_spelled_flag:
  assumes "flag \<noteq> []" and "hd flag \<noteq> CHR ''-''" and "CHR ''='' \<notin> set flag"
  shows "parse_flags [flag] [] (spell_flag sp flag value) = FlagsParsed [(flag, value)] []"
proof -
  obtain c cs where f: "flag = c # cs" "c \<noteq> CHR ''-''" "c \<noteq> CHR ''=''" "CHR ''='' \<notin> set (c # cs)"
    using assms by (cases flag) auto
  have sv: "split_value (c # cs @ CHR ''='' # value) = (c # cs, Some value)" "split_value (c # cs) = (c # cs, None)"
    using split_flag_value [OF f(4)] split_flag [OF f(4)] by simp_all
  show ?thesis
    using f sv by (simp add: spell_flag_def Let_def)
qed

lemma parse_spelled:
  assumes "\<And>i. parse_uuid (uuid_string i) = Inr i"
  shows "Parse parse_uuid help_err (spell uuid_string sp c) = Inr (Some c)"
  using assms by (cases c) (simp_all add: Parse_def parse_spelled_flag flag_value_def)

end
