(* ===== verification/Examples.thy ===== *)
theory Examples
  imports Claim_Run Wakeups Allocator Queue Shutdown Peers Routing Command_Line
begin

text \<open>
  A small fleet on which the properties are instantiated: one Chromium worker with one slot, an
  API key, and the options of the default configuration.
\<close>

definition worker_a :: worker where
  "worker_a = \<lparr>wid = UUID 1, waddress = ''ws://a:3000'', wbrowser = ''chromium'', wversion = ''1.50.1'',
     wmax_slots = 1, wstatus = Available, wheartbeat = 1000000, wlifetime = 3, wcreated = 0\<rparr>"

definition worker_b :: worker where
  "worker_b = worker_a\<lparr>wid := UUID 2, waddress := ''ws://b:3000'', wlifetime := 5, wmax_slots := 2\<rparr>"

definition key_a :: api_key where
  "key_a = \<lparr>kid = UUID 9, kname = ''ci'', khash = ''digest'', kprefix = ''pwd_abcd'', kcreated = 0,
     klast_used = None, krevoked = None\<rparr>"

definition fleet_a :: database where
  "fleet_a = \<lparr>workers = [worker_a], sessions = [], api_keys = [key_a], notified = 0\<rparr>"

definition fleet_b :: database where
  "fleet_b = fleet_a\<lparr>workers := [worker_a, worker_b]\<rparr>"

definition options_a :: sched_options where
  "options_a = \<lparr>so_worker_ttl = 30 * second, so_pending_ttl = 30 * second, so_max_lifetime = 50,
     so_max_queue = 100, so_queue_wait = 30 * second, so_polling = second, so_grace = 15 * second\<rparr>"

definition request_a :: claim_request where
  "request_a = \<lparr>cq_browser = ''chromium'', cq_prefix = ''1.50.'', cq_key = Some (UUID 9),
     cq_metadata = None\<rparr>"

definition session_a :: session where
  "session_a = claimed_row (insert_params options_a request_a (UUID 7) worker_a) 2000000"

definition running_a :: session where
  "running_a = start_row 2000000 session_a"

lemmas example_defs = worker_a_def worker_b_def key_a_def fleet_a_def fleet_b_def options_a_def
  request_a_def

lemma session_a_eq: "session_a = \<lparr>sid = UUID 7, sworker = UUID 1, sbrowser = ''chromium'',
   sversion = ''1.50.1'', saddress = ''ws://a:3000'', smode = ModeDefault, sstatus = Pending,
   skey = Some (UUID 9), screated = 2000000, sstarted = None, sexpires = Some 32000000,
   sheartbeat = 2000000, skeep_alive = None, smetadata = ''{}''\<rparr>"
  by (simp add: session_a_def claimed_row_def insert_params_def example_defs microseconds_def go_div_def)

lemma fleet_a_ok: "schema_ok fleet_a" "fleet_ok fleet_a"
  by (simp_all add: schema_ok_def fleet_ok_def example_defs worker_check_def known_browser_def count_active_def)

lemma fleet_b_ok: "schema_ok fleet_b" "fleet_ok fleet_b"
  by (simp_all add: schema_ok_def fleet_ok_def example_defs worker_check_def known_browser_def count_active_def)

lemma claim_a:
  "claimOnce options_a request_a (UUID 7) [] (calm fleet_a 2000000)
    = (Inr session_a, calm (claim_effect worker_a session_a fleet_a) 2000000)"
proof -
  have "insert_possible request_a (UUID 7) w fleet_a" if "w \<in> set (workers fleet_a)" for w
    using that by (simp add: insert_possible_def example_defs)
  moreover have "claim_candidates (select_params options_a request_a []) 2000000 fleet_a = [worker_a]"
    by code_simp
  ultimately show ?thesis
    by (simp add: claimOnce_calm [OF fleet_a_ok(1)] session_a_def Let_def)
qed

text \<open>The same fleet after the claim, and after its session has started.\<close>

definition claimed_a :: database where
  "claimed_a = claim_effect worker_a session_a fleet_a"

lemma claimed_a_eq: "workers claimed_a = [worker_a\<lparr>wlifetime := 4\<rparr>]" "sessions claimed_a = [session_a]"
  "api_keys claimed_a = [key_a]"
  by (simp_all add: claimed_a_def claim_effect_simps example_defs) (simp add: claim_effect_def)

lemma claimed_a_reached:
  "reaches (claim_step options_a) \<lparr>fdb = fleet_a, claims = replicate 1 Idle\<rparr>
    \<lparr>fdb = claimed_a, claims = [Idle]\<rparr>"
proof -
  have "company options_a [] (claim_trace options_a request_a (UUID 7) [] (calm fleet_a 2000000)) []"
    using claim_paced [OF claim_a] by (intro company_quiet) simp_all
  from claim_in_company [OF this claim_a] show ?thesis by (simp add: conf_def claimed_a_def)
qed

text \<open>
  Surroundings in which a rival claims and commits the only slot while a claim's selection is on its
  way, and surroundings in which a capacity notification arrives before each round trip.
\<close>

definition rival_beat :: beat where
  "rival_beat = \<lparr>others = claim_effect worker_a session_a, elapsed = 1, locked = [], fault = None\<rparr>"

definition noisy_beat :: beat where
  "noisy_beat = \<lparr>others = notify, elapsed = 1, locked = [], fault = None\<rparr>"

definition contested :: world where
  "contested = \<lparr>wdb = fleet_a, clock = 2000000, script = [quiet, rival_beat]\<rparr>"

lemma rival_claims:
  assumes "holding pc = None" and "unpublished pc = None"
  shows "reaches (claim_step options_a) \<lparr>fdb = fleet_a, claims = [pc, Idle]\<rparr> \<lparr>fdb = claimed_a, claims = [pc, Idle]\<rparr>"
  using claims_beside [OF claimed_a_reached assms] by simp

lemma claim_contested:
  assumes "paced (([Idle], contested) # tr) [quiet, rival_beat] bs"
    and "tr = ([Selecting req n ex fleet_a now], \<lparr>wdb = fleet_a, clock = 2000000, script = [rival_beat]\<rparr>) # tr'"
  shows "company options_a [Idle] (([Idle], contested) # tr) [Idle]"
proof (rule company_beat)
  show "next_beat contested = (quiet, \<lparr>wdb = fleet_a, clock = 2000000, script = [rival_beat]\<rparr>)"
    by (simp add: next_beat_def contested_def quiet_def)
  have "company options_a [Idle] tr' [Idle]"
    using assms by (intro company_quiet [of _ bs]) simp_all
  with rival_claims [of "Selecting req n ex fleet_a now"] show "company options_a [Idle] tr [Idle]"
    unfolding assms(2)
    by (intro company_beat [where b = rival_beat and ?w1.0 = "\<lparr>wdb = claimed_a, clock = 2000001, script = []\<rparr>"])
      (simp_all add: next_beat_def rival_beat_def claimed_a_def)
qed (simp_all add: contested_def reaches_refl)

lemma exec_noisy:
  "\<exists>d'. snd (exec q \<lparr>wdb = d, clock = t, script = replicate (Suc n) noisy_beat\<rparr>)
    = \<lparr>wdb = d', clock = t + 1, script = replicate n noisy_beat\<rparr>"
  by (cases "q (t + 1) (notify d)") (auto simp: exec_def next_beat_def noisy_beat_def split: prod.splits)

lemma company_noisy:
  assumes "company opts [] tr []"
  shows "company opts [] (([], \<lparr>wdb = d, clock = t, script = replicate (Suc n) noisy_beat\<rparr>) # tr) []"
proof (rule company_beat)
  show "next_beat \<lparr>wdb = d, clock = t, script = replicate (Suc n) noisy_beat\<rparr>
      = (noisy_beat, \<lparr>wdb = notify d, clock = t + 1, script = replicate n noisy_beat\<rparr>)"
    by (simp add: next_beat_def noisy_beat_def)
  have "store_step L d (notify d)" for L
    using ss_notify [of 0 d notify L] by (simp add: NotifyCapacityChanged_def)
  then show "reaches (claim_step opts) \<lparr>fdb = wdb \<lparr>wdb = d, clock = t, script = replicate (Suc n) noisy_beat\<rparr>, claims = [] @ []\<rparr>
      \<lparr>fdb = wdb \<lparr>wdb = notify d, clock = t + 1, script = replicate n noisy_beat\<rparr>, claims = [] @ []\<rparr>"
    using cs_other [of "\<lparr>fdb = d, claims = []\<rparr>" "notify d" opts] by (simp add: reaches_1)
qed (use assms in simp_all)

lemma room_a: "count_active fleet_a (wid worker_a) = 0" "wmax_slots worker_a = 1"
  by (simp_all add: count_active_def fleet_a_def worker_a_def)

lemma increment_a:
  "IncrementWorkerLifetimeSessions (wid worker_a) now (insert_session s fleet_a)
    = Inr (worker_a\<lparr>wlifetime := 4\<rparr>, set_workers [UUID 1] (\<lambda>w. w\<lparr>wlifetime := wlifetime w + 1\<rparr>))"
  by (simp add: IncrementWorkerLifetimeSessions_def update_worker_def fleet_a_def worker_a_def)

text \<open>The same claim stopped right before its commit.\<close>

lemma incremented_a_reached:
  "reaches (claim_step options_a) \<lparr>fdb = fleet_a, claims = replicate 1 Idle\<rparr>
    \<lparr>fdb = fleet_a, claims = [Incremented worker_a session_a]\<rparr>"
proof -
  let ?f = "\<lambda>pc. \<lparr>fdb = fleet_a, claims = [pc]\<rparr>" and ?now = 2000000
  have held [simp]: "held (?f pc) i \<longleftrightarrow> map_option wid (holding pc) = Some i" for pc i
    by (simp add: held_def)
  have set_c: "set_claim 0 pc' (?f pc) = ?f pc'" for pc pc'
    by (simp add: set_claim_def)
  have s1: "claim_step options_a (?f Idle) (?f (Selecting request_a (UUID 7) [] fleet_a ?now))"
    using cs_begin [of 0 "?f Idle" options_a request_a "UUID 7" "[]" ?now] by (simp add: set_c)
  have s2: "claim_step options_a (?f (Selecting request_a (UUID 7) [] fleet_a ?now))
      (?f (Locked request_a (UUID 7) ?now worker_a))"
  proof -
    have "held (?f (Selecting request_a (UUID 7) [] fleet_a ?now)) = (\<lambda>_. False)"
      by (simp add: fun_eq_iff)
    moreover have "claim_candidates (select_params options_a request_a []) ?now fleet_a = [worker_a]"
      by code_simp
    ultimately show ?thesis
      using cs_lock [of 0 "?f (Selecting request_a (UUID 7) [] fleet_a ?now)" request_a "UUID 7" "[]" fleet_a
          ?now "\<lambda>_. False" options_a worker_a id] fleet_a_ok(1)
      by (simp add: set_c select_quiet schema_okD)
  qed
  have s3: "claim_step options_a (?f (Locked request_a (UUID 7) ?now worker_a))
      (?f (Counted request_a (UUID 7) ?now worker_a))"
    using cs_room [of 0 "?f (Locked request_a (UUID 7) ?now worker_a)" request_a "UUID 7" ?now worker_a 0 id options_a]
      room_a by (simp add: set_c CountActiveSessionsByWorker_def)
  have s4: "claim_step options_a (?f (Counted request_a (UUID 7) ?now worker_a))
      (?f (Inserted ?now worker_a session_a))"
    using cs_insert [of 0 "?f (Counted request_a (UUID 7) ?now worker_a)" request_a "UUID 7" ?now worker_a
        options_a session_a "insert_session session_a"]
    by (simp add: set_c InsertClaimedSession_def Let_def session_a_def [symmetric] unpublished_ids_def map_filter_def)
      (simp add: session_a_eq session_check_def known_browser_def fleet_a_def key_a_def)
  have s5: "claim_step options_a (?f (Inserted ?now worker_a session_a))
      (?f (Incremented worker_a session_a))"
    using cs_increment [of 0 "?f (Inserted ?now worker_a session_a)" ?now worker_a session_a
        "worker_a\<lparr>wlifetime := 4\<rparr>" "set_workers [UUID 1] (\<lambda>w. w\<lparr>wlifetime := wlifetime w + 1\<rparr>)" options_a]
      increment_a by (simp add: set_c)
  show ?thesis
    by (simp, rule reaches_step [where step = "claim_step options_a", rotated], rule s5,
        rule reaches_step [where step = "claim_step options_a", rotated], rule s4,
        rule reaches_step [where step = "claim_step options_a", rotated], rule s3,
        rule reaches_step [where step = "claim_step options_a", rotated], rule s2,
        rule reaches_1 [where step = "claim_step options_a"], rule s1)
qed

text \<open>A request that is admitted at once.\<close>

definition admit_a :: admit_env where
  "admit_a = \<lparr>ae_draining_first = False, ae_claim = \<lparr>ce_id = (\<lambda>k. UUID 7), ce_wait = (\<lambda>k. None)\<rparr>,
     ae_draining_second = False, ae_rounds = []\<rparr>"

definition expired_round :: round where
  "expired_round = \<lparr>rd_top = \<lparr>sg_ctx = None, sg_drain = False, sg_wait = Some DeadlineExceeded\<rparr>,
     rd_id = UUID 8, rd_after = \<lparr>sg_ctx = None, sg_drain = False, sg_wait = Some DeadlineExceeded\<rparr>,
     rd_select = PollTimer\<rparr>"

definition running_fleet :: database where
  "running_fleet = \<lparr>workers = [worker_a\<lparr>wlifetime := 4\<rparr>], sessions = [running_a], api_keys = [key_a],
     notified = 0\<rparr>"

lemma running_fleet_ok: "schema_ok running_fleet"
  by (simp add: schema_ok_def running_fleet_def worker_check_def session_check_def known_browser_def
      running_a_def session_a_eq start_row_def worker_a_def key_a_def)

lemma possible_b: "list_all (\<lambda>w. insert_possible request_a (UUID 7) w fleet_b) (workers fleet_b)"
  by (simp add: insert_possible_def example_defs)

lemma candidates_b:
  "claim_candidates (select_params options_a request_a []) 2000000 fleet_b = [worker_b, worker_a]"
  by code_simp

definition session_b :: session where
  "session_b = claimed_row (insert_params options_a request_a (UUID 7) worker_b) 2000000"

lemma claim_b:
  "claimOnce options_a request_a (UUID 7) [] (calm fleet_b 2000000)
    = (Inr session_b, calm (claim_effect worker_b session_b fleet_b) 2000000)"
  using claimOnce_calm [OF fleet_b_ok(1), of request_a "UUID 7"] possible_b
  by (simp add: list_all_iff candidates_b session_b_def Let_def)

definition rescuer_a :: rescuer_options where
  "rescuer_a = \<lparr>ro_worker_ttl = 30 * second, ro_session_ttl = 30 * second, ro_stalled_ttl = 10 * minute,
     ro_interval = 5 * second\<rparr>"

definition refused_round :: listener_round where
  "refused_round = \<lparr>lr_before = False, lr_connection = \<lparr>cn_acquire = Some (Cause (ConnError ''refused'')),
     cn_listen = None, cn_notifications = 0, cn_wait_error = Cause Canceled, cn_close = None\<rparr>,
     lr_after = False, lr_wait = False\<rparr>"

text \<open>Relays: one reservation, one relay after the grace period, and a drained manager.\<close>

definition one_reservation :: relays where
  "one_reservation = \<lparr>manager = NewManager\<lparr>mg_wg := 1\<rparr>, attachments = [Reserved (UUID 7)], phase = Serving\<rparr>"

definition forced_relay :: relays where
  "forced_relay = \<lparr>manager = \<lparr>mg_draining = True, mg_live = [UUID 7 \<mapsto> [shutdown_event]], mg_wg = 1\<rparr>,
     attachments = [Relaying (UUID 7)], phase = Forcing\<rparr>"

definition drained_relays :: relays where
  "drained_relays = \<lparr>manager = \<lparr>mg_draining = True, mg_live = Map.empty, mg_wg = 0\<rparr>,
     attachments = [], phase = Drained\<rparr>"

lemma reservation_reached: "reaches relay_step fresh_relays one_reservation"
  by (rule reaches_1)
    (use rs_begin [of fresh_relays "NewManager\<lparr>mg_wg := 1\<rparr>" "UUID 7"] in
      \<open>simp add: fresh_relays_def one_reservation_def BeginAttach_def NewManager_def\<close>)

lemma forced_reached: "reaches relay_step fresh_relays forced_relay"
proof -
  let ?m = "\<lparr>mg_draining = False, mg_live = [UUID 7 \<mapsto> []], mg_wg = 1\<rparr>"
  let ?r = "\<lparr>manager = ?m, attachments = [Relaying (UUID 7)], phase = Serving\<rparr>"
  let ?w = "\<lparr>manager = ?m\<lparr>mg_draining := True\<rparr>, attachments = [Relaying (UUID 7)], phase = Waiting\<rparr>"
  have s1: "relay_step one_reservation ?r"
    using rs_register [of 0 one_reservation "UUID 7" ?m]
    by (simp add: one_reservation_def register_accepted NewManager_def set_attachment_def)
  have s2: "relay_step ?r ?w"
    using rs_shutdown [of ?r] by (simp add: begin_draining_def)
  have s3: "relay_step ?w forced_relay"
  proof -
    have "stop_all (?m\<lparr>mg_draining := True\<rparr>) = manager forced_relay"
      by (simp add: stop_all_def forced_relay_def fun_eq_iff)
    then show ?thesis using rs_grace_over [of ?w] by (simp add: forced_relay_def)
  qed
  show ?thesis
    using reservation_reached s1 s2 s3 by (meson reaches_step)
qed

lemma drained_reached: "reaches relay_step fresh_relays drained_relays"
proof -
  let ?w = "\<lparr>manager = NewManager\<lparr>mg_draining := True\<rparr>, attachments = [], phase = Waiting\<rparr>"
  have "relay_step fresh_relays ?w"
    using rs_shutdown [of fresh_relays] by (simp add: fresh_relays_def begin_draining_def)
  moreover have "relay_step ?w drained_relays"
    using rs_drained [of ?w] by (simp add: drained_relays_def NewManager_def)
  ultimately show ?thesis by (meson reaches_step reaches_refl)
qed

definition whole_message :: iteration where
  "whole_message = \<lparr>it_read_deadline = None, it_reader = Inr 1, it_write_deadline = None, it_writer = None,
     it_chunks = [\<lparr>ck_data = ''ab'', ck_err = None, ck_read_deadline = None, ck_write_deadline = None,
       ck_written = 2, ck_write_err = None\<rparr>, \<lparr>ck_data = ''c'', ck_err = Some (Cause EndOfFile),
       ck_read_deadline = None, ck_write_deadline = None, ck_written = 1, ck_write_err = None\<rparr>],
     it_final_deadline = None, it_close = None\<rparr>"

definition broken_message :: iteration where
  "broken_message = whole_message\<lparr>it_chunks := [\<lparr>ck_data = ''d'', ck_err = Some (Cause (CloseError 1006 [])),
     ck_read_deadline = None, ck_write_deadline = None, ck_written = 1, ck_write_err = None\<rparr>]\<rparr>"

definition failed_dial :: attach_env where
  "failed_dial = \<lparr>at_begin = None, at_dial = Some (Cause (ConnError ''refused'')), at_upgrade = None,
     at_register = RegisterAccepted, at_event = shutdown_event\<rparr>"

text \<open>Keys: a digest that is easy to compute, a key minted from three bytes, two headers.\<close>

definition digest_a :: "string \<Rightarrow> string" where
  "digest_a token = rev token"

definition command_a :: command_env where
  "command_a = \<lparr>cm_random = Inr [1, 2, 3], cm_id = UUID 10, cm_print = None\<rparr>"

definition key_b :: api_key where
  "key_b = key_a\<lparr>khash := digest_a ''pwd_AQID''\<rparr>"

definition keyed :: database where
  "keyed = fleet_a\<lparr>api_keys := [key_b]\<rparr>"

definition bearer_a :: string where
  "bearer_a = ''Bearer pwd_AQID''"

lemma bearer_a_token: "bearerToken bearer_a = Some ''pwd_AQID''"
  by code_simp

lemma keyed_ok: "schema_ok keyed"
  by (simp add: schema_ok_def keyed_def key_b_def example_defs worker_check_def known_browser_def)

lemma keyed_eq: "api_keys keyed = [key_b]" "khash key_b = digest_a ''pwd_AQID''" "krevoked key_b = None"
  "kid key_b = UUID 9"
  by (simp_all add: keyed_def key_b_def key_a_def)

text \<open>A start of the server with nothing but the database's address in its environment.\<close>

definition main_a :: main_env where
  "main_a = \<lparr>mn_getenv = (\<lambda>n. if n = ''DATABASE_URL'' then ''postgres://db'' else []),
     mn_parse_duration = (\<lambda>_. Inl (Text ''invalid duration'')), mn_parse_uuid = (\<lambda>_. Inl (Text ''invalid UUID'')),
     mn_help_err = None, mn_open = Inr \<lparr>pc_max_conns = 4, pc_jitter = 0\<rparr>, mn_migrate = None\<rparr>"

definition config_a :: config where
  "config_a = \<lparr>WorkerHeartbeatTTL = 30 * second, SessionHeartbeatTTL = 30 * second,
     SessionHeartbeatInterval = 10 * second, PendingSessionTTL = 30 * second, StalledWorkerTTL = 10 * minute,
     RescuerInterval = 5 * second, MaxQueueSize = 100, QueueWaitTimeout = 30 * second,
     MaxLifetimeSessions = 50, DefaultBrowserType = ''chromium'', WorkerDialTimeout = 10 * second,
     RelayWriteTimeout = 30 * second, RelayPingInterval = 20 * second, RelayPongTimeout = 60 * second,
     ShutdownGracePeriod = 20 * second\<rparr>"

lemma Load_defaults: "getenv = (\<lambda>n. if n = ''DATABASE_URL'' then ''postgres://db'' else []) \<Longrightarrow>
    Load parse getenv = Inr config_a"
  by (simp add: Load_def checked_def positiveDuration_def nonNegativeInt_def nonNegativeInt64_def
      browserType_def Let_def config_a_def)

lemma main_a_serves: "run main_a [''serve''] = Serve (plan_of '':8080'' config_a)"
  by (simp add: run_def start_up_def main_a_def Load_defaults [OF refl] validateRuntimeConfig_def
      DefaultReconciliationGrace_def config_a_def)

lemma token_a: "generateToken (cm_random command_a) = Inr ''pwd_AQID''"
  by (simp add: command_a_def generateToken_def token_prefix_def base64_digit_def char_of_def bit_0)

lemma trim_a: "TrimSpace ''ci '' = ''ci''"
  by (simp add: TrimSpace_def trim_left_def space_runes_def upt_rec_numeral eval_nat_numeral char_of_def)

lemma contested_trace:
  "\<exists>tr. Admit_trace options_a request_a admit_a 0 contested =
    ([Idle], contested) #
    ([Selecting request_a (UUID 7) [] fleet_a 2000000], \<lparr>wdb = fleet_a, clock = 2000000, script = [rival_beat]\<rparr>) # tr"
proof -
  have m: "maxClaimAttempts = Suc 7" by (simp add: maxClaimAttempts_def)
  show ?thesis
    unfolding Admit_trace_def m attempts_trace.simps(2) claim_trace_def body_trace_def
    by (simp add: admit_a_def tx_begin_def next_beat_def contested_def quiet_def Let_def id_def)
qed

lemma admit_contested: "company options_a [Idle] (Admit_trace options_a request_a admit_a 0 contested) [Idle]"
proof -
  obtain tr where tr: "Admit_trace options_a request_a admit_a 0 contested =
      ([Idle], contested) #
      ([Selecting request_a (UUID 7) [] fleet_a 2000000], \<lparr>wdb = fleet_a, clock = 2000000, script = [rival_beat]\<rparr>) # tr"
    using contested_trace ..
  obtain out q w where "Admit options_a request_a admit_a 0 contested = (out, q, w)" using prod_cases3 by blast
  from admit_paced [OF this] show ?thesis
    unfolding tr using claim_contested [OF _ refl] by (simp add: contested_def)
qed

text \<open>The queue with one waiting request; the fleet after its session was terminated; a registration.\<close>

definition one_waiting :: queue_state where
  "one_waiting = \<lparr>queued = 1, requests = [InQueue]\<rparr>"

lemma one_waiting_reached: "reaches (queue_step options_a) empty_queue one_waiting"
proof -
  have "queue_step options_a empty_queue \<lparr>queued = 0, requests = [Trying]\<rparr>"
    using qs_arrive [of options_a empty_queue] by (simp add: empty_queue_def)
  moreover have "queue_step options_a \<lparr>queued = 0, requests = [Trying]\<rparr> one_waiting"
    using qs_enter [of 0 "\<lparr>queued = 0, requests = [Trying]\<rparr>" options_a 1]
    by (simp add: one_waiting_def enterQueue_def options_a_def)
  ultimately show ?thesis by (meson reaches_step reaches_refl)
qed

definition freed_fleet :: database where
  "freed_fleet = running_fleet\<lparr>sessions := [running_a\<lparr>sstatus := Completed\<rparr>], notified := 1\<rparr>"

definition open_round :: round where
  "open_round = expired_round\<lparr>rd_top := \<lparr>sg_ctx = None, sg_drain = False, sg_wait = None\<rparr>\<rparr>"

lemma running_fleet_ok': "fleet_ok running_fleet"
  by (simp add: fleet_ok_def running_fleet_def running_a_def session_a_eq start_row_def worker_a_def
      count_active_def active_def routed_def)

lemma freed_fleet_facts:
  "worker_a\<lparr>wlifetime := 4\<rparr> \<in> set (workers running_fleet)"
  "worker_a\<lparr>wlifetime := 4\<rparr> \<in> set (workers freed_fleet)"
  "count_active freed_fleet (wid worker_a) < count_active running_fleet (wid worker_a)"
  "claimable 3000000 (select_params options_a request_a []) 0 (worker_a\<lparr>wlifetime := 4\<rparr>)"
  "list_all (\<lambda>v. insert_possible request_a (rd_id open_round) v freed_fleet) (workers freed_fleet)"
  "queueWaitError (rd_top open_round) = None"
  by (simp_all add: freed_fleet_def running_fleet_def count_active_def active_def running_a_def session_a_eq
      start_row_def worker_a_def claimable_def select_params_def options_a_def request_a_def microseconds_pos
      lifetime_left_def insert_possible_def open_round_def expired_round_def key_a_def queueWaitError_def)

definition settings_a :: "unit api_settings" where
  "settings_a = \<lparr>as_scheduler = Some options_a, as_encode = (\<lambda>_. Inr ''{}''), as_decode = (\<lambda>_. Inr ()),
     as_empty = (), as_hostname = (\<lambda>_. Some ''c'')\<rparr>"

text \<open>A request that would end a session, without any credential, to a server with both endpoints.\<close>

definition server_a :: "unit server" where
  "server_a = \<lparr>sv_options = server_settings [WithScheduler (Some options_a), WithRelayManager True ''chromium'' second],
     sv_auth = TokenAuthenticator digest_a, sv_api = settings_a, sv_parse_uuid = (\<lambda>_. Inr (UUID 7))\<rparr>"

definition bare_request :: relay_request where
  "bare_request = \<lparr>rq_browser = [], rq_token = [], rq_authorization = [], rq_user_agent = [], rq_upgrade = False,
     rq_origins = [], rq_host = ''h'', rq_path_id = [], rq_headers = []\<rparr>"

definition delete_request :: "unit http_request" where
  "delete_request = \<lparr>hr_method = ''DELETE'', hr_path = ''/v1/sessions/7'', hr_authorization = [],
     hr_decoded = (\<lambda>oper. if oper = DeleteSession then Inr (CallDeleteSession (UUID 7)) else Inl (plain_reply 422 [])),
     hr_relay = bare_request\<rparr>"

lemma delete_request_decodes: "decodes delete_request"
  by (auto simp: decodes_def delete_request_def split: if_splits)

lemma delete_request_credential: "credential so delete_request = []"
  by (simp add: credential_def delete_request_def bare_request_def split: option.splits endpoint.splits)

lemma delete_request_served:
  "serve_request server_a st delete_request env w = serve_endpoint server_a st delete_request env
     (ApiEndpoint \<lparr>rt_method = ''DELETE'', rt_path = ''/v1/sessions/{id}'', rt_operation = DeleteSession, rt_auth = True\<rparr>) w"
  by (rule trans [OF served_by [of "\<lparr>pt_method = ''DELETE'', pt_path = ''/v1/sessions/{id}'',
      pt_endpoint = ApiEndpoint \<lparr>rt_method = ''DELETE'', rt_path = ''/v1/sessions/{id}'',
        rt_operation = DeleteSession, rt_auth = True\<rparr>\<rparr>"]])
    (simp_all add: routes_defs delete_request_def pattern_matches_def path_matches_def method_matches_def
      segment_matches_def wild_def)

lemma delete_request_refused:
  "fst (serve_request server_a \<lparr>authRequired = True, warned = False\<rparr> delete_request env w) = Some (auth_failure ErrUnauthorized)"
proof -
  have b: "bearerToken [] = None" by code_simp
  have "TokenAuthenticator digest_a l \<lparr>authRequired = True, warned = False\<rparr> [] w
      = (Inl ErrUnauthorized, \<lparr>authRequired = True, warned = False\<rparr>, w)" for l
    by (simp add: TokenAuthenticator_def requiresAuthentication_def b)
  then show ?thesis
    unfolding delete_request_served
    by (simp add: serve_endpoint_def serve_api_def authMiddleware_def server_a_def delete_request_def)
qed

definition register_a :: register_request where
  "register_a = \<lparr>rr_address = ''ws://c:3000'', rr_browser = ''chromium'', rr_version = ''1.50.2'', rr_max_slots = 2\<rparr>"

text \<open>A peer that answers its first ping after a second and then sends data.\<close>

definition open_peer :: peer where
  "open_peer = \<lparr>pr_open = True, pr_read_deadline = 0, pr_sent = [], pr_pongs = []\<rparr>"

definition prompt_frames :: "(int \<times> incoming) list" where
  "prompt_frames = [(21 * second, PongFrame), (70 * second, DataFrame)]"

lemma prompt_frames_ok:
  "prompt (sp_relay (plan_of '':8080'' config_a)) 0 prompt_frames"
  "list_all (\<lambda>(t, f). harmless f) prompt_frames" "sorted (0 # map fst prompt_frames)"
proof -
  have "rl_ping_interval (sp_relay (plan_of '':8080'' config_a)) = 20 * second"
    "rl_pong_timeout (sp_relay (plan_of '':8080'' config_a)) = 60 * second"
    by (simp_all add: plan_of_def config_a_def)
  then show "prompt (sp_relay (plan_of '':8080'' config_a)) 0 prompt_frames"
    by (auto simp: prompt_def prompt_frames_def nth_Cons less_Suc_eq split: nat.splits) presburger
qed (simp_all add: prompt_frames_def)

end
