(* ===== verification/Handlers.thy ===== *)
theory Handlers
  imports Claim_Protocol Shutdown Relay_Handlers
begin

text \<open>
  The attachments of one server process (\<open>attach\<close> in \<open>internal/httpapi/relay.go\<close> with \<open>Run\<close> in
  \<open>internal/relay/manager.go\<close>) as concurrent handlers over the shared database: the manager's locked
  sections and the statements of each handler are single steps, between which every other handler,
  the shutdown, the claims of all servers and all other statements run. The system projects to the
  manager's protocol (\<open>relay_step\<close>) and to the claim protocol (\<open>claim_step\<close>); on top of both stands what
  happens to the sessions a server has started.
\<close>

section \<open>A statement that may fail\<close>

text \<open>
  One round trip: carried out and answered, refused, carried out with its answer lost, or not
  carried out. The flag says whether the database ran it.
\<close>

inductive sent :: "'a stmt \<Rightarrow> database \<Rightarrow> error + 'a \<Rightarrow> bool \<Rightarrow> database \<Rightarrow> bool" for q d where
  sent_done: "q now d = Inr (x, e) \<Longrightarrow> sent q d (Inr x) True (e d)"
| sent_refused: "q now d = Inl err \<Longrightarrow> sent q d (Inl err) True d"
| sent_lost: "q now d = Inr (x, e) \<Longrightarrow> sent q d (Inl (Cause c)) True (e d)"
| sent_failed: "sent q d (Inl (Cause c)) False d"

text \<open>This is what \<open>exec\<close> does, after what the others did; \<open>arrived\<close> says whether the database ran it.\<close>

definition arrived :: "'a stmt \<Rightarrow> world \<Rightarrow> bool" where
  "arrived q w \<longleftrightarrow> (let (b, w1) = next_beat w in
     case fault b of
       None \<Rightarrow> True
     | Some (c, applied) \<Rightarrow> applied \<and> (case q (clock w1) (wdb w1) of Inl e \<Rightarrow> False | Inr x \<Rightarrow> True))"

lemma exec_sent:
  assumes "exec q w = (r, w')"
  obtains b w1 where "next_beat w = (b, w1)" "sent q (wdb w1) r (arrived q w) (wdb w')"
proof -
  obtain b w1 where b: "next_beat w = (b, w1)" by fastforce
  have "sent q (wdb w1) r (arrived q w) (wdb w')"
  proof (cases "q (clock w1) (wdb w1)")
    case (Inl e)
    with assms b show ?thesis
      by (auto simp: exec_def arrived_def split: option.splits intro: sent.intros)
  next
    case (Inr xe)
    then obtain x e where q: "q (clock w1) (wdb w1) = Inr (x, e)" by (cases xe) auto
    note outcomes = sent_done [where q = q, OF q] sent_lost [where q = q, OF q] sent_failed [of q "wdb w1"]
    from q assms b show ?thesis
      by (auto simp: exec_def arrived_def split: option.splits if_splits intro!: outcomes)
  qed
  with b that show thesis by blast
qed

lemma exec_Inr_arrived: "exec q w = (Inr x, w') \<Longrightarrow> arrived q w"
  by (auto simp: exec_def arrived_def split: prod.splits option.splits)

section \<open>Handlers\<close>

text \<open>
  The program counter of \<open>attach\<close> for one session: before \<open>StartSession\<close>, dialling and upgrading, before
  \<open>failSession\<close>, before \<open>register\<close>, turned away by it with the outcome still to be recorded, and then
  with the reservation to be released; copying, with its event selected and the outcome still to be
  recorded, before \<open>unregister\<close>, before the deferred \<open>Release\<close>, which then does nothing.
\<close>

datatype handler =
    Starting uuid
  | Dialing uuid
  | Failing uuid
  | Registering uuid
  | TurnedAway uuid register_result
  | Dismissed uuid register_result
  | Releasing uuid
  | Copying uuid
  | Stopping uuid relay_event
  | Leaving uuid relay_event
  | Left uuid relay_event
  | Gone

text \<open>
  One server process: the database with the claims in flight of all servers, its manager, its
  handlers and its shutdown. Two sets record history: the sessions whose start this server has
  written, and those whose terminal statement never reached the database.
\<close>

record node =
  nd_fleet :: fleet
  nd_manager :: manager
  nd_handlers :: "handler list"
  nd_phase :: shutdown_phase
  nd_started :: "uuid set"
  nd_lost :: "uuid set"

abbreviation ndb :: "node \<Rightarrow> database" where
  "ndb s \<equiv> fdb (nd_fleet s)"

definition at_handler :: "node \<Rightarrow> nat \<Rightarrow> handler \<Rightarrow> bool" where
  "at_handler s a h \<longleftrightarrow> a < length (nd_handlers s) \<and> nd_handlers s ! a = h"

definition move :: "nat \<Rightarrow> handler \<Rightarrow> node \<Rightarrow> node" where
  "move a h s = s\<lparr>nd_handlers := (nd_handlers s)[a := h]\<rparr>"

definition with_db :: "database \<Rightarrow> node \<Rightarrow> node" where
  "with_db d s = s\<lparr>nd_fleet := (nd_fleet s)\<lparr>fdb := d\<rparr>\<rparr>"

definition with_manager :: "manager \<Rightarrow> node \<Rightarrow> node" where
  "with_manager m s = s\<lparr>nd_manager := m\<rparr>"

text \<open>\<open>note_lost ok i\<close>: the terminal statement of session \<open>i\<close> was sent; \<open>ok\<close> says whether it arrived.\<close>

definition note_lost :: "bool \<Rightarrow> uuid \<Rightarrow> node \<Rightarrow> node" where
  "note_lost ok i s = (if ok then s else s\<lparr>nd_lost := insert i (nd_lost s)\<rparr>)"

definition note_started :: "bool \<Rightarrow> uuid \<Rightarrow> node \<Rightarrow> node" where
  "note_started ok i s = (if ok then s\<lparr>nd_started := insert i (nd_started s)\<rparr> else s)"

definition outcome_stmt :: "bool \<Rightarrow> uuid \<Rightarrow> session stmt" where
  "outcome_stmt normal i = (if normal then CompleteSession i else FailSession i)"

inductive handler_step :: "sched_options \<Rightarrow> node \<Rightarrow> node \<Rightarrow> bool" for opts where
  hs_begin: "BeginAttach (nd_manager s) = Inr m \<Longrightarrow>
    handler_step opts s (with_manager m (s\<lparr>nd_handlers := nd_handlers s @ [Starting i]\<rparr>))"
| hs_started: "at_handler s a (Starting i) \<Longrightarrow> sent (StartSession i) (ndb s) (Inr x) ok d \<Longrightarrow>
    handler_step opts s (move a (Dialing i) (note_started ok i (with_db d s)))"
| hs_rejected: "at_handler s a (Starting i) \<Longrightarrow> sent (StartSession i) (ndb s) (Inl e) ok d \<Longrightarrow> is_no_rows e \<Longrightarrow>
    handler_step opts s (move a (Releasing i) (with_db d s))"
| hs_start_error: "at_handler s a (Starting i) \<Longrightarrow> sent (StartSession i) (ndb s) (Inl e) ok d \<Longrightarrow> \<not> is_no_rows e \<Longrightarrow>
    handler_step opts s (move a (Failing i) (note_started ok i (with_db d s)))"
| hs_dial_failed: "at_handler s a (Dialing i) \<Longrightarrow> handler_step opts s (move a (Failing i) s)"
| hs_upgraded: "at_handler s a (Dialing i) \<Longrightarrow> handler_step opts s (move a (Registering i) s)"
| hs_failed: "at_handler s a (Failing i) \<Longrightarrow> sent (FailSession i) (ndb s) r ok d \<Longrightarrow>
    handler_step opts s (move a (Releasing i) (note_lost ok i (with_db d s)))"
| hs_release: "at_handler s a (Releasing i) \<Longrightarrow> Release False (nd_manager s) = Some m \<Longrightarrow>
    handler_step opts s (move a Gone (with_manager m s))"
| hs_register: "at_handler s a (Registering i) \<Longrightarrow> register i (nd_manager s) = (RegisterAccepted, m) \<Longrightarrow>
    handler_step opts s (move a (Copying i) (with_manager m s))"
| hs_refuse: "at_handler s a (Registering i) \<Longrightarrow> register i (nd_manager s) = (res, m) \<Longrightarrow> res \<noteq> RegisterAccepted \<Longrightarrow>
    handler_step opts s (move a (TurnedAway i res) (with_manager m s))"
| hs_drained_outcome: "at_handler s a (TurnedAway i RegisterDraining) \<Longrightarrow>
    sent (outcome_stmt True i) (ndb s) r ok d \<Longrightarrow>
    handler_step opts s (move a (Dismissed i RegisterDraining) (note_lost ok i (with_db d s)))"
| hs_duplicate: "at_handler s a (TurnedAway i RegisterDuplicate) \<Longrightarrow>
    handler_step opts s (move a (Dismissed i RegisterDuplicate) s)"
| hs_dismissed: "at_handler s a (Dismissed i res) \<Longrightarrow> Release False (nd_manager s) = Some m \<Longrightarrow>
    handler_step opts s (move a Gone (with_manager m s))"
| hs_event: "handler_step opts s (with_manager (stop i e (nd_manager s)) s)"
| hs_select: "at_handler s a (Copying i) \<Longrightarrow> mg_live (nd_manager s) i = Some (e # es) \<Longrightarrow>
    handler_step opts s (move a (Stopping i e)
      (with_manager ((nd_manager s)\<lparr>mg_live := (mg_live (nd_manager s))(i \<mapsto> es)\<rparr>) s))"
| hs_outcome: "at_handler s a (Stopping i e) \<Longrightarrow> sent (outcome_stmt (ev_normal e) i) (ndb s) r ok d \<Longrightarrow>
    handler_step opts s (move a (Leaving i e) (note_lost ok i (with_db d s)))"
| hs_unregister: "at_handler s a (Leaving i e) \<Longrightarrow> unregister i (nd_manager s) = Some m \<Longrightarrow>
    handler_step opts s (move a (Left i e) (with_manager m s))"
| hs_release_consumed: "at_handler s a (Left i e) \<Longrightarrow> Release True (nd_manager s) = Some m \<Longrightarrow>
    handler_step opts s (move a Gone (with_manager m s))"
| hs_shutdown: "nd_phase s = Serving \<Longrightarrow>
    handler_step opts s (with_manager (begin_draining (nd_manager s)) (s\<lparr>nd_phase := Waiting\<rparr>))"
| hs_drained: "nd_phase s = Waiting \<or> nd_phase s = Forcing \<Longrightarrow> mg_wg (nd_manager s) = 0 \<Longrightarrow>
    handler_step opts s (s\<lparr>nd_phase := Drained\<rparr>)"
| hs_grace_over: "nd_phase s = Waiting \<Longrightarrow>
    handler_step opts s (with_manager (stop_all (nd_manager s)) (s\<lparr>nd_phase := Forcing\<rparr>))"
| hs_cancelled: "nd_phase s = Waiting \<or> nd_phase s = Forcing \<Longrightarrow>
    handler_step opts s (s\<lparr>nd_phase := Abandoned\<rparr>)"
| hs_fleet: "claim_step opts (nd_fleet s) f \<Longrightarrow> handler_step opts s (s\<lparr>nd_fleet := f\<rparr>)"

lemma node_simps [simp]:
  "nd_handlers (move a h s) = (nd_handlers s)[a := h]" "nd_manager (move a h s) = nd_manager s"
  "nd_phase (move a h s) = nd_phase s" "nd_fleet (move a h s) = nd_fleet s"
  "nd_started (move a h s) = nd_started s" "nd_lost (move a h s) = nd_lost s"
  "nd_handlers (with_db d s) = nd_handlers s" "nd_manager (with_db d s) = nd_manager s"
  "nd_phase (with_db d s) = nd_phase s" "nd_fleet (with_db d s) = (nd_fleet s)\<lparr>fdb := d\<rparr>"
  "nd_started (with_db d s) = nd_started s" "nd_lost (with_db d s) = nd_lost s"
  "nd_handlers (with_manager m s) = nd_handlers s" "nd_manager (with_manager m s) = m"
  "nd_phase (with_manager m s) = nd_phase s" "nd_fleet (with_manager m s) = nd_fleet s"
  "nd_started (with_manager m s) = nd_started s" "nd_lost (with_manager m s) = nd_lost s"
  "nd_handlers (note_lost ok i s) = nd_handlers s" "nd_manager (note_lost ok i s) = nd_manager s"
  "nd_phase (note_lost ok i s) = nd_phase s" "nd_fleet (note_lost ok i s) = nd_fleet s"
  "nd_started (note_lost ok i s) = nd_started s"
  "nd_lost (note_lost ok i s) = (if ok then nd_lost s else insert i (nd_lost s))"
  "nd_handlers (note_started ok i s) = nd_handlers s" "nd_manager (note_started ok i s) = nd_manager s"
  "nd_phase (note_started ok i s) = nd_phase s" "nd_fleet (note_started ok i s) = nd_fleet s"
  "nd_lost (note_started ok i s) = nd_lost s"
  "nd_started (note_started ok i s) = (if ok then insert i (nd_started s) else nd_started s)"
  by (simp_all add: move_def with_db_def with_manager_def note_lost_def note_started_def)

section \<open>The manager's protocol\<close>

text \<open>What the manager sees of a handler: between its locked sections a handler is in one state.\<close>

fun attachment_of :: "handler \<Rightarrow> attachment" where
  "attachment_of (TurnedAway i res) = Refused i res"
| "attachment_of (Dismissed i res) = Refused i res"
| "attachment_of (Copying i) = Relaying i"
| "attachment_of (Stopping i e) = Closing i e"
| "attachment_of (Leaving i e) = Closing i e"
| "attachment_of (Left i e) = Returned i e"
| "attachment_of Gone = Ended"
| "attachment_of (Starting i) = Reserved i"
| "attachment_of (Dialing i) = Reserved i"
| "attachment_of (Failing i) = Reserved i"
| "attachment_of (Registering i) = Reserved i"
| "attachment_of (Releasing i) = Reserved i"

definition relays_of :: "node \<Rightarrow> relays" where
  "relays_of s = \<lparr>manager = nd_manager s, attachments = map attachment_of (nd_handlers s), phase = nd_phase s\<rparr>"

lemma relays_of_simps [simp]:
  "manager (relays_of s) = nd_manager s" "attachments (relays_of s) = map attachment_of (nd_handlers s)"
  "phase (relays_of s) = nd_phase s"
  by (simp_all add: relays_of_def)

lemma relays_of_move: "relays_of (move a h (with_manager m s)) = set_attachment a (attachment_of h) m (relays_of s)"
  by (simp add: relays_of_def set_attachment_def map_update)

lemma relays_of_same:
  assumes "at_handler s a h" and "attachment_of h' = attachment_of h"
    and "nd_manager s' = nd_manager s" and "nd_handlers s' = nd_handlers s" and "nd_phase s' = nd_phase s"
  shows "relays_of (move a h' s') = relays_of s"
proof -
  have "(map attachment_of (nd_handlers s))[a := attachment_of h'] = map attachment_of (nd_handlers s)"
    using assms(1,2) by (metis at_handler_def length_map list_update_id nth_map)
  with assms(3-5) show ?thesis by (simp add: relays_of_def map_update)
qed

lemma at_attachment:
  "at_handler s a h \<Longrightarrow> a < length (attachments (relays_of s)) \<and> attachments (relays_of s) ! a = attachment_of h"
  by (simp add: at_handler_def)

lemma step_relays:
  assumes "handler_step opts s t"
  shows "relays_of t = relays_of s \<or> relay_step (relays_of s) (relays_of t)"
  using assms
proof (cases rule: handler_step.cases)
  case (hs_begin m i)
  have "relays_of t = (relays_of s)\<lparr>manager := m, attachments := attachments (relays_of s) @ [Reserved i]\<rparr>"
    using hs_begin(1) by (simp add: relays_of_def with_manager_def)
  with rs_begin [of "relays_of s" m i] hs_begin(2) show ?thesis by simp
next
  case (hs_release a i m)
  show ?thesis unfolding hs_release(1) relays_of_move
    using at_attachment [OF hs_release(2)] hs_release(3) by (auto intro!: rs_release)
next
  case (hs_register a i m)
  show ?thesis unfolding hs_register(1) relays_of_move
    using at_attachment [OF hs_register(2)] hs_register(3) by (auto intro!: rs_register)
next
  case (hs_refuse a i res m)
  show ?thesis unfolding hs_refuse(1) relays_of_move
    using at_attachment [OF hs_refuse(2)] hs_refuse(3,4) by (auto intro!: rs_refuse)
next
  case (hs_dismissed a i res m)
  show ?thesis unfolding hs_dismissed(1) relays_of_move
    using at_attachment [OF hs_dismissed(2)] hs_dismissed(3) by (auto intro!: rs_release_refused)
next
  case (hs_event i e)
  have "relays_of t = (relays_of s)\<lparr>manager := stop i e (manager (relays_of s))\<rparr>"
    using hs_event by (simp add: relays_of_def)
  with rs_event [of "relays_of s" i e] show ?thesis by simp
next
  case (hs_select a i e es)
  show ?thesis unfolding hs_select(1) relays_of_move
    using at_attachment [OF hs_select(2)] hs_select(3) rs_select [of a "relays_of s" i e es] by auto
next
  case (hs_unregister a i e m)
  show ?thesis unfolding hs_unregister(1) relays_of_move
    using at_attachment [OF hs_unregister(2)] hs_unregister(3) by (auto intro!: rs_unregister)
next
  case (hs_release_consumed a i e m)
  show ?thesis unfolding hs_release_consumed(1) relays_of_move
    using at_attachment [OF hs_release_consumed(2)] hs_release_consumed(3) by (auto intro!: rs_release_consumed)
next
  case hs_shutdown
  then have "relays_of t = (relays_of s)\<lparr>manager := begin_draining (manager (relays_of s)), phase := Waiting\<rparr>"
    by (simp add: relays_of_def with_manager_def)
  with rs_shutdown [of "relays_of s"] hs_shutdown(2) show ?thesis by simp
next
  case hs_drained
  then have "relays_of t = (relays_of s)\<lparr>phase := Drained\<rparr>" by (simp add: relays_of_def)
  with rs_drained [of "relays_of s"] hs_drained(2,3) show ?thesis by simp
next
  case hs_grace_over
  then have "relays_of t = (relays_of s)\<lparr>manager := stop_all (manager (relays_of s)), phase := Forcing\<rparr>"
    by (simp add: relays_of_def with_manager_def)
  with rs_grace_over [of "relays_of s"] hs_grace_over(2) show ?thesis by simp
next
  case hs_cancelled
  then have "relays_of t = (relays_of s)\<lparr>phase := Abandoned\<rparr>" by (simp add: relays_of_def)
  with rs_cancelled [of "relays_of s"] hs_cancelled(2) show ?thesis by simp
next
  case (hs_fleet f)
  then show ?thesis by (simp add: relays_of_def)
qed (auto intro: relays_of_same)

section \<open>The claim protocol\<close>

text \<open>A statement of the program, seen as a step of the database.\<close>

definition storable :: "(uuid \<Rightarrow> bool) \<Rightarrow> 'a stmt \<Rightarrow> database \<Rightarrow> bool" where
  "storable L q d \<longleftrightarrow> (\<forall>now x e. q now d = Inr (x, e) \<longrightarrow> store_step L d (e d))"

lemma session_stmt_storable:
  "storable L (StartSession i) d" "storable L (FailSession i) d" "storable L (outcome_stmt normal i) d"
  by (auto simp: storable_def outcome_stmt_def intro: store_step.intros split: if_splits)

lemma sent_store: "sent q d r ok d' \<Longrightarrow> storable L q d \<Longrightarrow> d' = d \<or> store_step L d d'"
  by (auto simp: storable_def elim: sent.cases)

lemma sent_fleet:
  "sent q (fdb f) r ok d \<Longrightarrow> storable (held f) q (fdb f) \<Longrightarrow> f\<lparr>fdb := d\<rparr> = f \<or> claim_step opts f (f\<lparr>fdb := d\<rparr>)"
  by (drule (1) sent_store) (auto intro: cs_other)

lemma step_fleet:
  assumes "handler_step opts s t"
  shows "nd_fleet t = nd_fleet s \<or> claim_step opts (nd_fleet s) (nd_fleet t)"
  using assms
proof (cases rule: handler_step.cases)
  case (hs_started a i x ok d)
  then show ?thesis using sent_fleet [OF hs_started(3) session_stmt_storable(1)] by simp
next
  case (hs_rejected a i e ok d)
  then show ?thesis using sent_fleet [OF hs_rejected(3) session_stmt_storable(1)] by simp
next
  case (hs_start_error a i e ok d)
  then show ?thesis using sent_fleet [OF hs_start_error(3) session_stmt_storable(1)] by simp
next
  case (hs_failed a i r ok d)
  then show ?thesis using sent_fleet [OF hs_failed(3) session_stmt_storable(2)] by simp
next
  case (hs_drained_outcome a i r ok d)
  then show ?thesis using sent_fleet [OF hs_drained_outcome(3) session_stmt_storable(3)] by simp
next
  case (hs_outcome a i e r ok d)
  then show ?thesis using sent_fleet [OF hs_outcome(3) session_stmt_storable(3)] by simp
qed simp_all

end
