(* ===== verification/Handler_Sessions.thy ===== *)
theory Handler_Sessions
  imports Handlers
begin

text \<open>
  What happens to the sessions a server starts: no two handlers ever dial for, register, relay or close
  the same one, so \<open>register\<close> never meets a duplicate (another handler may be about to start it, to fail
  it after its start was refused an answer, or to give its reservation back); and a started session is running only while a handler owes its end,
  or after its terminal statement failed to reach the database. \<open>node_inv\<close> is the invariant; the system
  simulates both the manager's protocol and the claim protocol.
\<close>

section \<open>The sessions of a server\<close>

text \<open>
  The session a handler has started and takes to its relay and to its end, and the one whose end it
  still has to write. A handler in \<open>Failing\<close> takes its session nowhere, but still writes its end.
\<close>

fun carried :: "handler \<Rightarrow> uuid option" where
  "carried (Dialing i) = Some i"
| "carried (Registering i) = Some i"
| "carried (TurnedAway i res) = Some i"
| "carried (Dismissed i res) = Some i"
| "carried (Copying i) = Some i"
| "carried (Stopping i e) = Some i"
| "carried (Leaving i e) = Some i"
| "carried _ = None"

fun owes :: "handler \<Rightarrow> uuid option" where
  "owes (Dialing i) = Some i"
| "owes (Failing i) = Some i"
| "owes (Registering i) = Some i"
| "owes (TurnedAway i res) = Some i"
| "owes (Copying i) = Some i"
| "owes (Stopping i e) = Some i"
| "owes _ = None"

fun duplicate :: "handler \<Rightarrow> bool" where
  "duplicate (TurnedAway i res) = (res \<noteq> RegisterDraining)"
| "duplicate (Dismissed i res) = (res \<noteq> RegisterDraining)"
| "duplicate _ = False"

type_synonym statuses = "uuid \<Rightarrow> session_status option"

definition statuses :: "database \<Rightarrow> statuses" where
  "statuses d i = map_option sstatus (lookup_row sid i (sessions d))"

text \<open>Once out of \<open>Pending\<close> a session stays there, and only a running one is running later.\<close>

definition begun :: "statuses \<Rightarrow> uuid \<Rightarrow> bool" where
  "begun st i \<longleftrightarrow> st i \<noteq> None \<and> st i \<noteq> Some Pending"

definition evolves :: "statuses \<Rightarrow> statuses \<Rightarrow> bool" where
  "evolves st st' \<longleftrightarrow> (\<forall>i. begun st i \<longrightarrow> begun st' i \<and> (st' i = Some Running \<longrightarrow> st i = Some Running))"

lemma evolves_refl [simp]: "evolves st st"
  by (simp add: evolves_def)

lemma never_pending_again: "session_next\<^sup>*\<^sup>* a b \<Longrightarrow> a \<noteq> Pending \<Longrightarrow> b \<noteq> Pending"
  by (induction rule: rtranclp_induct) (auto elim: session_next.cases)

lemma history_evolves:
  assumes "session_history d d'"
  shows "evolves (statuses d) (statuses d')"
  unfolding evolves_def
proof (intro allI impI)
  fix i assume "begun (statuses d) i"
  then obtain s where s: "lookup_row sid i (sessions d) = Some s" "sstatus s \<noteq> Pending"
    by (auto simp: begun_def statuses_def)
  with assms obtain t where t: "lookup_row sid i (sessions d') = Some t"
      "session_next\<^sup>*\<^sup>* (sstatus s) (sstatus t)" "terminal (sstatus s) \<longrightarrow> t = s"
    unfolding session_history_def by blast
  have "sstatus t \<noteq> Pending" using t(2) s(2) by (rule never_pending_again)
  moreover have "sstatus s = Running" if "sstatus t = Running"
    using that t(3) s(2) by (cases "sstatus s") (auto simp: terminal_def)
  ultimately show "begun (statuses d') i \<and> (statuses d' i = Some Running \<longrightarrow> statuses d i = Some Running)"
    using s(1) t(1) by (auto simp: begun_def statuses_def)
qed

definition apart :: "handler list \<Rightarrow> bool" where
  "apart hs \<longleftrightarrow> (\<forall>a < length hs. \<forall>b < length hs. \<forall>i. a \<noteq> b \<longrightarrow> carried (hs ! a) = Some i \<longrightarrow> carried (hs ! b) \<noteq> Some i)"

lemma apartD:
  "apart hs \<Longrightarrow> a < length hs \<Longrightarrow> b < length hs \<Longrightarrow> a \<noteq> b \<Longrightarrow> carried (hs ! a) = Some i \<Longrightarrow> carried (hs ! b) \<noteq> Some i"
  by (simp add: apart_def)

lemma apart_update:
  assumes "apart hs" and "\<And>i b. carried h = Some i \<Longrightarrow> b < length hs \<Longrightarrow> b \<noteq> a \<Longrightarrow> carried (hs ! b) \<noteq> Some i"
  shows "apart (hs[a := h])"
  unfolding apart_def
proof (intro allI impI)
  fix b c i
  assume "b < length (hs[a := h])" "c < length (hs[a := h])" "b \<noteq> c" "carried (hs[a := h] ! b) = Some i"
  then show "carried (hs[a := h] ! c) \<noteq> Some i"
    using assms(2) [of i b] assms(2) [of i c] apartD [OF assms(1), of b c i]
    by (cases "b = a"; cases "c = a") auto
qed

definition handlers_ok :: "statuses \<Rightarrow> uuid set \<Rightarrow> uuid set \<Rightarrow> handler list \<Rightarrow> bool" where
  "handlers_ok st started lost hs \<longleftrightarrow>
     apart hs
     \<and> (\<forall>h \<in> set hs. \<forall>i. carried h = Some i \<longrightarrow> i \<in> started)
     \<and> (\<forall>i \<in> started. begun st i)
     \<and> (\<forall>i \<in> started. st i = Some Running \<longrightarrow> i \<in> lost \<or> Some i \<in> owes ` set hs)
     \<and> (\<forall>h \<in> set hs. \<not> duplicate h)"

lemma owes_update:
  assumes "Some i \<in> owes ` set hs" and "a < length hs"
    and "owes (hs ! a) = Some i \<Longrightarrow> owes h = Some i"
  shows "Some i \<in> owes ` set (hs[a := h])"
proof -
  from assms(1) obtain b where b: "b < length hs" "owes (hs ! b) = Some i"
    by (auto simp: in_set_conv_nth)
  then have "hs[a := h] ! b \<in> set (hs[a := h])" by (intro nth_mem) simp
  moreover have "owes (hs[a := h] ! b) = Some i"
    using b assms(2,3) by (cases "a = b") simp_all
  ultimately show ?thesis by force
qed

text \<open>A handler moves on: it keeps the session it works on, or lets it go when nothing is owed any more.\<close>

lemma handlers_move:
  assumes ok: "handlers_ok st started lost hs" and a: "a < length hs"
    and ev: "evolves st st'" and lost: "lost \<subseteq> lost'"
    and carry: "carried h = None \<or> carried h = carried (hs ! a)" and dup: "\<not> duplicate h"
    and owe: "\<And>i. owes (hs ! a) = Some i \<Longrightarrow> owes h = Some i \<or> st' i \<noteq> Some Running \<or> i \<in> lost'"
  shows "handlers_ok st' started lost' (hs[a := h])"
  unfolding handlers_ok_def
proof (intro conjI)
  have ap: "apart hs" using ok by (simp add: handlers_ok_def)
  show "apart (hs[a := h])"
  proof (rule apart_update [OF ap])
    fix i b assume "carried h = Some i" "b < length hs" "b \<noteq> a"
    then show "carried (hs ! b) \<noteq> Some i" using apartD [OF ap a, of b i] carry by auto
  qed
  have "x \<in> set (hs[a := h]) \<Longrightarrow> carried x = Some i \<Longrightarrow> \<exists>y \<in> set hs. carried y = Some i" for x i
    using subsetD [OF set_update_subset_insert, of x hs a h] carry nth_mem [OF a] by (metis insert_iff option.distinct(1))
  then show "\<forall>x \<in> set (hs[a := h]). \<forall>i. carried x = Some i \<longrightarrow> i \<in> started"
    using ok unfolding handlers_ok_def by blast
  show "\<forall>i \<in> started. begun st' i"
    using ok ev unfolding handlers_ok_def evolves_def by blast
  show "\<forall>x \<in> set (hs[a := h]). \<not> duplicate x"
    using ok dup set_update_subset_insert [of hs a h] unfolding handlers_ok_def by blast
  show "\<forall>i \<in> started. st' i = Some Running \<longrightarrow> i \<in> lost' \<or> Some i \<in> owes ` set (hs[a := h])"
  proof (intro ballI impI)
    fix i assume i: "i \<in> started" "st' i = Some Running"
    with ok ev have "i \<in> lost \<or> Some i \<in> owes ` set hs"
      unfolding handlers_ok_def evolves_def by blast
    then show "i \<in> lost' \<or> Some i \<in> owes ` set (hs[a := h])"
      using lost owe [of i] i(2) owes_update [OF _ a] by blast
  qed
qed

text \<open>A handler starts a session, which was pending, so no handler had started it before.\<close>

lemma handlers_start:
  assumes ok: "handlers_ok st started lost hs" and a: "a < length hs" "carried (hs ! a) = None" "owes (hs ! a) = None"
    and ev: "evolves st st'" and new: "st i = Some Pending" "begun st' i" 
    and h: "carried h = None \<or> carried h = Some i" "owes h = Some i" "\<not> duplicate h"
  shows "handlers_ok st' (insert i started) lost (hs[a := h])"
proof -
  have fresh: "i \<notin> started" using ok new(1) by (auto simp: handlers_ok_def begun_def)
  then have none: "\<And>x. x \<in> set hs \<Longrightarrow> carried x \<noteq> Some i" using ok by (auto simp: handlers_ok_def)
  show ?thesis
    unfolding handlers_ok_def
  proof (intro conjI)
    show "apart (hs[a := h])"
    proof (rule apart_update)
      show "apart hs" using ok by (simp add: handlers_ok_def)
      fix j b assume "carried h = Some j" "b < length hs" "b \<noteq> a"
      then show "carried (hs ! b) \<noteq> Some j" using h(1) none nth_mem by auto
    qed
    show "\<forall>x \<in> set (hs[a := h]). \<forall>j. carried x = Some j \<longrightarrow> j \<in> insert i started"
    proof (intro ballI allI impI)
      fix x j assume "x \<in> set (hs[a := h])" "carried x = Some j"
      then have "x = h \<or> x \<in> set hs" "carried x = Some j" using set_update_subset_insert [of hs a h] by auto
      then show "j \<in> insert i started" using ok h(1) unfolding handlers_ok_def by auto
    qed
    show "\<forall>j \<in> insert i started. begun st' j"
      using ok ev new(2) unfolding handlers_ok_def evolves_def by blast
    show "\<forall>x \<in> set (hs[a := h]). \<not> duplicate x"
      using ok h(3) set_update_subset_insert [of hs a h] unfolding handlers_ok_def by blast
    show "\<forall>j \<in> insert i started. st' j = Some Running \<longrightarrow> j \<in> lost \<or> Some j \<in> owes ` set (hs[a := h])"
    proof (intro ballI impI)
      fix j assume j: "j \<in> insert i started" "st' j = Some Running"
      have "h \<in> set (hs[a := h])" using a(1) by (rule set_update_memI)
      then have "j = i \<Longrightarrow> Some j \<in> owes ` set (hs[a := h])" using h(2) by (metis image_eqI)
      moreover have "j \<in> started \<Longrightarrow> j \<in> lost \<or> Some j \<in> owes ` set hs"
        using ok ev j(2) unfolding handlers_ok_def evolves_def by blast
      ultimately show "j \<in> lost \<or> Some j \<in> owes ` set (hs[a := h])"
        using j(1) owes_update [OF _ a(1), of j h] a(3) by auto
    qed
  qed
qed

section \<open>The invariant\<close>

lemma updated_status:
  assumes "update_session g f a i now d = Inr (x, e)" and "\<And>s. sid (f s) = sid s" and "a = id \<or> a = notify"
  shows "\<exists>s. statuses d i = Some (sstatus s) \<and> g s \<and> statuses (e d) i = Some (sstatus (f s))"
proof -
  from assms(1) obtain s where s: "lookup_row sid i (sessions d) = Some s" "g s" "e = a \<circ> set_sessions [i] f"
    by (auto simp: update_session_Inr)
  have "lookup_row sid i (sessions (set_sessions [i] f d)) = Some (f s)"
    using s(1) lookup_row_Some [of sid i "sessions d" s] assms(2) by (simp add: effect_targets lookup_update_where)
  with s assms(3) show ?thesis by (auto simp: statuses_def)
qed

lemma start_sent:
  assumes "sent (StartSession i) d r ok d'"
  shows "(\<not> (\<exists>e. r = Inl e \<and> is_no_rows e) \<and> ok \<longrightarrow> statuses d i = Some Pending \<and> begun (statuses d') i)
    \<and> ((\<exists>x. r = Inr x) \<longrightarrow> ok) \<and> ((\<exists>e. r = Inl e \<and> is_no_rows e) \<or> \<not> ok \<longrightarrow> d' = d)"
proof -
  have "statuses d i = Some Pending \<and> begun (statuses (e d)) i" if "StartSession i now d = Inr (x, e)" for now x e
    using updated_status [OF that [unfolded StartSession_def]] by (auto simp: start_row_def begun_def)
  moreover have "is_no_rows err" if "StartSession i now d = Inl err" for now err
    using session_transition_Inl(1) [OF that] by simp
  ultimately show ?thesis
    by (rule_tac sent.cases [OF assms]) auto
qed

lemma settle_sent:
  "sent (FailSession i) d r ok d' \<Longrightarrow> ok \<Longrightarrow> statuses d' i \<noteq> Some Running"
  "sent (outcome_stmt normal i) d r ok d' \<Longrightarrow> ok \<Longrightarrow> statuses d' i \<noteq> Some Running"
proof -
  have f: "statuses (e d) i \<noteq> Some Running" if "FailSession i now d = Inr (x, e)" for now x e
    using updated_status [OF that [unfolded FailSession_def]] by auto
  have c: "statuses (e d) i \<noteq> Some Running" if "CompleteSession i now d = Inr (x, e)" for now x e
    using updated_status [OF that [unfolded CompleteSession_def]] by auto
  have f': "statuses d i \<noteq> Some Running" if "FailSession i now d = Inl x" for now x
    using that by (auto simp: FailSession_def update_session_Inl statuses_def active_def)
  have c': "statuses d i \<noteq> Some Running" if "CompleteSession i now d = Inl x" for now x
    using that by (auto simp: CompleteSession_def update_session_Inl statuses_def)
  show "sent (FailSession i) d r ok d' \<Longrightarrow> ok \<Longrightarrow> statuses d' i \<noteq> Some Running"
    by (erule sent.cases) (use f f' in auto)
  show "sent (outcome_stmt normal i) d r ok d' \<Longrightarrow> ok \<Longrightarrow> statuses d' i \<noteq> Some Running"
    by (erule sent.cases) (use f f' c c' in \<open>auto simp: outcome_stmt_def split: if_splits\<close>)
qed

definition node_inv :: "node \<Rightarrow> bool" where
  "node_inv s \<longleftrightarrow> claim_inv (nd_fleet s) \<and> relays_inv (relays_of s)
     \<and> handlers_ok (statuses (ndb s)) (nd_started s) (nd_lost s) (nd_handlers s)"

text \<open>\<open>register\<close> never finds its session registered already: the handler that did had started it.\<close>

lemma never_duplicate:
  assumes "node_inv s" and "at_handler s a (Registering i)"
  shows "mg_live (nd_manager s) i = None"
proof (rule ccontr)
  assume "mg_live (nd_manager s) i \<noteq> None"
  with assms(1) have "i \<in> set (registered_ids (map attachment_of (nd_handlers s)))"
    by (auto simp: node_inv_def relays_inv_def)
  then obtain h where h: "h \<in> set (nd_handlers s)" "registered (attachment_of h) = Some i"
    by (auto simp: registered_ids_def map_filter_def)
  from h(2) have c: "carried h = Some i" "h \<noteq> Registering i" by (cases h; simp)+
  from h(1) obtain b where "b < length (nd_handlers s)" "nd_handlers s ! b = h" by (auto simp: in_set_conv_nth)
  with c assms apartD [of "nd_handlers s" b a i] show False
    by (auto simp: node_inv_def handlers_ok_def at_handler_def)
qed

lemma handlers_keep: "handlers_ok st started lost hs \<Longrightarrow> evolves st st' \<Longrightarrow> handlers_ok st' started lost hs"
  unfolding handlers_ok_def evolves_def by blast

lemma handlers_append:
  assumes "handlers_ok st started lost hs" and "carried h = None" and "\<not> duplicate h"
  shows "handlers_ok st started lost (hs @ [h])"
proof -
  have "apart (hs @ [h])"
    unfolding apart_def
  proof (intro allI impI)
    fix a b i
    assume "a < length (hs @ [h])" "b < length (hs @ [h])" "a \<noteq> b" "carried ((hs @ [h]) ! a) = Some i"
    then show "carried ((hs @ [h]) ! b) \<noteq> Some i"
      using assms(1,2) apartD [of hs a b i]
      by (cases "a = length hs"; cases "b = length hs") (auto simp: handlers_ok_def nth_append)
  qed
  with assms show ?thesis unfolding handlers_ok_def by auto
qed

text \<open>What a step does to the sessions of the server.\<close>

lemma step_evolves:
  assumes "node_inv s" and "handler_step opts s t"
  shows "evolves (statuses (ndb s)) (statuses (ndb t))"
proof (cases "nd_fleet t = nd_fleet s")
  case False
  with step_fleet [OF assms(2)] assms(1) have "session_history (ndb s) (ndb t)"
    by (auto simp: node_inv_def intro: claim_step_history)
  then show ?thesis by (rule history_evolves)
qed simp

lemma handler_moves:
  assumes "node_inv s" and "handler_step opts s t" and "at_handler s a h"
    and "nd_handlers t = (nd_handlers s)[a := h']" and "nd_started t = nd_started s" and "nd_lost s \<subseteq> nd_lost t"
    and "carried h' = None \<or> carried h' = carried h" and "\<not> duplicate h'"
    and "\<And>i. owes h = Some i \<Longrightarrow> owes h' = Some i \<or> statuses (ndb t) i \<noteq> Some Running \<or> i \<in> nd_lost t"
  shows "handlers_ok (statuses (ndb t)) (nd_started t) (nd_lost t) (nd_handlers t)"
  unfolding assms(4,5)
  by (rule handlers_move [OF _ _ step_evolves [OF assms(1,2)] assms(6)])
    (use assms in \<open>auto simp: node_inv_def at_handler_def\<close>)

lemma step_handlers_ok:
  assumes inv: "node_inv s" and step: "handler_step opts s t"
  shows "handlers_ok (statuses (ndb t)) (nd_started t) (nd_lost t) (nd_handlers t)"
proof -
  from inv have ok: "handlers_ok (statuses (ndb s)) (nd_started s) (nd_lost s) (nd_handlers s)"
    by (simp add: node_inv_def)
  note ev = step_evolves [OF inv step]
  note moves = handler_moves [OF inv step]
  show ?thesis
    using step
  proof (cases rule: handler_step.cases)
    case (hs_begin m i)
    then show ?thesis using ok by (auto intro: handlers_append)
  next
    case (hs_started a i x ok' d)
    then have "a < length (nd_handlers s)" "nd_handlers s ! a = Starting i" by (simp_all add: at_handler_def)
    with handlers_start [OF ok, of a "statuses d" i "Dialing i"] start_sent [OF hs_started(3)] ev hs_started(1)
    show ?thesis by auto
  next
    case (hs_rejected a i e ok' d)
    show ?thesis by (rule moves [OF hs_rejected(2)]) (use hs_rejected(1) in auto)
  next
    case (hs_start_error a i e ok' d)
    then have "a < length (nd_handlers s)" "nd_handlers s ! a = Starting i" by (simp_all add: at_handler_def)
    with handlers_start [OF ok, of a "statuses d" i "Failing i"] start_sent [OF hs_start_error(3)]
      hs_start_error(1,4) ev moves [OF hs_start_error(2), of "Failing i"]
    show ?thesis by (cases ok') auto
  next
    case (hs_dial_failed a i)
    show ?thesis by (rule moves [OF hs_dial_failed(2)]) (use hs_dial_failed(1) in auto)
  next
    case (hs_upgraded a i)
    show ?thesis by (rule moves [OF hs_upgraded(2)]) (use hs_upgraded(1) in auto)
  next
    case (hs_failed a i r ok' d)
    show ?thesis
      by (rule moves [OF hs_failed(2)]) (use hs_failed(1) settle_sent(1) [OF hs_failed(3)] in auto)
  next
    case (hs_release a i m)
    show ?thesis by (rule moves [OF hs_release(2)]) (use hs_release(1) in auto)
  next
    case (hs_register a i m)
    show ?thesis by (rule moves [OF hs_register(2)]) (use hs_register(1) in auto)
  next
    case (hs_refuse a i res m)
    have "res = RegisterDraining"
      using hs_refuse(3,4) never_duplicate [OF inv hs_refuse(2)] by (auto simp: register_def split: if_splits)
    then show ?thesis by (intro moves [OF hs_refuse(2), of "TurnedAway i res"]) (use hs_refuse(1) in auto)
  next
    case (hs_drained_outcome a i r ok' d)
    show ?thesis
      by (rule moves [OF hs_drained_outcome(2)])
        (use hs_drained_outcome(1) settle_sent(2) [OF hs_drained_outcome(3)] in auto)
  next
    case (hs_duplicate a i)
    then have "TurnedAway i RegisterDuplicate \<in> set (nd_handlers s)"
      unfolding at_handler_def by (metis nth_mem)
    with ok have False by (force simp: handlers_ok_def)
    then show ?thesis ..
  next
    case (hs_dismissed a i res m)
    show ?thesis by (rule moves [OF hs_dismissed(2)]) (use hs_dismissed(1) in auto)
  next
    case (hs_select a i e es)
    show ?thesis by (rule moves [OF hs_select(2)]) (use hs_select(1) in auto)
  next
    case (hs_outcome a i e r ok' d)
    show ?thesis
      by (rule moves [OF hs_outcome(2)]) (use hs_outcome(1) settle_sent(2) [OF hs_outcome(3)] in auto)
  next
    case (hs_unregister a i e m)
    show ?thesis by (rule moves [OF hs_unregister(2)]) (use hs_unregister(1) in auto)
  next
    case (hs_release_consumed a i e m)
    show ?thesis by (rule moves [OF hs_release_consumed(2)]) (use hs_release_consumed(1) in auto)
  qed (use handlers_keep [OF ok ev] in simp_all)
qed

lemma handler_step_inv:
  assumes "node_inv s" and "handler_step opts s t"
  shows "node_inv t"
  unfolding node_inv_def
proof (intro conjI)
  show "claim_inv (nd_fleet t)"
    using assms(1) step_fleet [OF assms(2)] claim_step_inv by (auto simp: node_inv_def)
  show "relays_inv (relays_of t)"
    using assms(1) step_relays [OF assms(2)] relay_step_inv by (auto simp: node_inv_def)
qed (rule step_handlers_ok [OF assms])

interpretation serving: simulation "handler_step opts" node_inv relays_of relay_step
  by unfold_locales (auto intro: handler_step_inv dest: step_relays)

interpretation claiming_node: simulation "handler_step opts" node_inv nd_fleet "claim_step opts"
  by unfold_locales (auto dest: step_fleet)

definition fresh_node :: "database \<Rightarrow> nat \<Rightarrow> node" where
  "fresh_node d n = \<lparr>nd_fleet = \<lparr>fdb = d, claims = replicate n Idle\<rparr>, nd_manager = NewManager, nd_handlers = [],
     nd_phase = Serving, nd_started = {}, nd_lost = {}\<rparr>"

lemma fresh_node_relays: "relays_of (fresh_node d n) = fresh_relays"
  by (simp add: relays_of_def fresh_node_def fresh_relays_def)

lemma fresh_node_inv: "fleet_ok d \<Longrightarrow> node_inv (fresh_node d n)"
  using fresh_relays_inv
  by (simp add: node_inv_def fresh_node_relays handlers_ok_def apart_def)
    (simp add: fresh_node_def start_inv)

section \<open>What the invariant gives\<close>

lemma drained_settled:
  assumes "node_inv s" and "nd_phase s = Drained"
  shows "mg_live (nd_manager s) = Map.empty \<and> list_all (\<lambda>h. owes h = None) (nd_handlers s)
    \<and> (\<forall>i \<in> nd_started s. i \<in> nd_lost s \<or> (\<exists>st. statuses (ndb s) i = Some st \<and> terminal st))"
proof -
  from assms have "relays_inv (relays_of s)" "mg_wg (nd_manager s) = 0"
    by (auto simp: node_inv_def relays_inv_def)
  from nothing_owed_nothing_live [OF this(1)] this(2)
  have gone: "mg_live (nd_manager s) = Map.empty" "list_all (\<lambda>x. \<not> owing x) (map attachment_of (nd_handlers s))"
    by simp_all
  have "owes h = None" if "\<not> owing (attachment_of h)" for h using that by (cases h) auto
  with gone(2) have none: "list_all (\<lambda>h. owes h = None) (nd_handlers s)" by (auto simp: list_all_iff)
  have "i \<in> nd_lost s \<or> (\<exists>st. statuses (ndb s) i = Some st \<and> terminal st)" if "i \<in> nd_started s" for i
  proof -
    from assms(1) that obtain st where st: "statuses (ndb s) i = Some st" "st \<noteq> Pending"
      "st = Running \<longrightarrow> i \<in> nd_lost s \<or> Some i \<in> owes ` set (nd_handlers s)"
      by (auto simp: node_inv_def handlers_ok_def begun_def)
    moreover have "Some i \<notin> owes ` set (nd_handlers s)" using none by (auto simp: list_all_iff)
    ultimately show ?thesis by (cases st) (auto simp: terminal_def)
  qed
  with gone none show ?thesis by blast
qed

end
