(* ===== verification/Attach_Run.thy ===== *)
theory Attach_Run
  imports Handler_Sessions Claim_Run
begin

text \<open>
  The definition of \<open>attach\<close>, with its round trips, failures and lost answers, is a run of the handler
  system: of a server where it is the only attachment, in the company of any claims and statements of
  others. The run's record of what was started and what was lost is that of the round trips themselves,
  so the invariant of the handlers says what became of the session.
\<close>

section \<open>A handler alone on its server\<close>

lemma fleet_run:
  assumes "reaches (claim_step opts) (nd_fleet s) f"
  shows "reaches (handler_step opts) s (s\<lparr>nd_fleet := f\<rparr>)"
  using assms
proof (induction "nd_fleet s" f rule: reaches.induct)
  case reaches_refl
  then show ?case by (simp add: reaches.reaches_refl)
next
  case (reaches_step f g)
  have "handler_step opts (s\<lparr>nd_fleet := f\<rparr>) (s\<lparr>nd_fleet := g\<rparr>)"
    using hs_fleet [of opts "s\<lparr>nd_fleet := f\<rparr>" g] reaches_step by simp
  with reaches_step show ?case by (blast intro: reaches.reaches_step)
qed

definition sole :: "fleet \<Rightarrow> manager \<Rightarrow> handler \<Rightarrow> shutdown_phase \<Rightarrow> uuid set \<Rightarrow> uuid set \<Rightarrow> node" where
  "sole f m h ph started lost = \<lparr>nd_fleet = f, nd_manager = m, nd_handlers = [h], nd_phase = ph,
     nd_started = started, nd_lost = lost\<rparr>"

definition alone :: "database \<Rightarrow> claim_pc list \<Rightarrow> node" where
  "alone d rivals = \<lparr>nd_fleet = \<lparr>fdb = d, claims = rivals\<rparr>, nd_manager = NewManager, nd_handlers = [],
     nd_phase = Serving, nd_started = {}, nd_lost = {}\<rparr>"

definition stage :: "sched_options \<Rightarrow> node \<Rightarrow> world \<Rightarrow> claim_pc list \<Rightarrow> handler \<Rightarrow> manager \<Rightarrow> shutdown_phase
    \<Rightarrow> uuid set \<Rightarrow> uuid set \<Rightarrow> bool" where
  "stage opts n w rivals h m ph started lost \<longleftrightarrow>
     reaches (handler_step opts) n (sole \<lparr>fdb = wdb w, claims = rivals\<rparr> m h ph started lost)"

lemma stage_begin: "stage opts (alone (wdb w) rivals) w rivals (Starting i) (NewManager\<lparr>mg_wg := 1\<rparr>) Serving {} {}"
proof -
  let ?n = "alone (wdb w) rivals"
  have "handler_step opts ?n (sole \<lparr>fdb = wdb w, claims = rivals\<rparr> (NewManager\<lparr>mg_wg := 1\<rparr>) (Starting i) Serving {} {})"
    using hs_begin [of ?n "NewManager\<lparr>mg_wg := 1\<rparr>" opts i]
    by (simp add: alone_def sole_def with_manager_def BeginAttach_def NewManager_def)
  then show ?thesis by (auto simp: stage_def intro: reaches_1)
qed

lemma stage_step:
  assumes "stage opts n w rivals h m ph S L"
    and "\<And>f. handler_step opts (sole f m h ph S L) (sole f m' h' ph' S' L')"
  shows "stage opts n w rivals h' m' ph' S' L'"
  using assms unfolding stage_def by (rule reaches.reaches_step)

lemma stage_beat:
  assumes "stage opts n w rivals h m ph S L" and "next_beat w = (b, w1)"
    and "company opts rivals (([], w) # tr) rivals'"
  obtains r1 where "stage opts n w1 r1 h m ph S L" "company opts r1 tr rivals'"
proof -
  from assms(2,3) obtain r1 where
    r1: "reaches (claim_step opts) \<lparr>fdb = wdb w, claims = rivals\<rparr> \<lparr>fdb = wdb w1, claims = r1\<rparr>"
    "company opts r1 tr rivals'" by (auto elim!: company_ConsE)
  from fleet_run [of opts "sole \<lparr>fdb = wdb w, claims = rivals\<rparr> m h ph S L" "\<lparr>fdb = wdb w1, claims = r1\<rparr>"] r1(1)
  have "reaches (handler_step opts) (sole \<lparr>fdb = wdb w, claims = rivals\<rparr> m h ph S L)
      (sole \<lparr>fdb = wdb w1, claims = r1\<rparr> m h ph S L)" by (simp add: sole_def)
  with assms(1) have "stage opts n w1 r1 h m ph S L" unfolding stage_def by (blast intro: reaches_trans)
  with r1(2) that show thesis by blast
qed

lemma sole_simps [simp]:
  "nd_fleet (sole f m h ph S L) = f" "nd_manager (sole f m h ph S L) = m" "nd_phase (sole f m h ph S L) = ph"
  "at_handler (sole f m h ph S L) 0 h' \<longleftrightarrow> h' = h"
  by (auto simp: sole_def at_handler_def)

lemma sole_updates:
  "move 0 h' (sole f m h ph S L) = sole f m h' ph S L"
  "with_manager m' (sole f m h ph S L) = sole f m' h ph S L"
  "with_db d (sole f m h ph S L) = sole (f\<lparr>fdb := d\<rparr>) m h ph S L"
  "note_lost ok i (sole f m h ph S L) = sole f m h ph S (if ok then L else insert i L)"
  "note_started ok i (sole f m h ph S L) = sole f m h ph (if ok then insert i S else S) L"
  by (simp_all add: sole_def move_def with_manager_def with_db_def note_lost_def note_started_def)

lemma stage_exec:
  assumes "stage opts n w rivals h m ph S L" and "exec q w = (r, w')"
    and "company opts rivals (([], w) # tr) rivals'"
    and step: "\<And>f d'. sent q (fdb f) r (arrived q w) d' \<Longrightarrow>
      handler_step opts (sole f m h ph S L) (sole (f\<lparr>fdb := d'\<rparr>) m h' ph S' L')"
  obtains r1 where "stage opts n w' r1 h' m ph S' L'" "company opts r1 tr rivals'"
proof -
  from exec_sent [OF assms(2)] obtain b w1 where b: "next_beat w = (b, w1)"
      "sent q (wdb w1) r (arrived q w) (wdb w')" .
  from stage_beat [OF assms(1) b(1) assms(3)] obtain r1 where
    r1: "stage opts n w1 r1 h m ph S L" "company opts r1 tr rivals'" .
  from step [of "\<lparr>fdb = wdb w1, claims = r1\<rparr>" "wdb w'"] b(2) have
    "handler_step opts (sole \<lparr>fdb = wdb w1, claims = r1\<rparr> m h ph S L) (sole \<lparr>fdb = wdb w', claims = r1\<rparr> m h' ph S' L')"
    by simp
  with r1(1) have "stage opts n w' r1 h' m ph S' L'" unfolding stage_def by (rule reaches.reaches_step)
  with r1(2) that show thesis by blast
qed

lemma stage_read:
  assumes "stage opts n w rivals h m ph S L" and "exec q w = (r, w')"
    and "company opts rivals (([], w) # tr) rivals'" and "reads_only q"
  obtains r1 where "stage opts n w' r1 h m ph S L" "company opts r1 tr rivals'"
proof -
  from exec_sent [OF assms(2)] obtain b w1 where b: "next_beat w = (b, w1)"
      "sent q (wdb w1) r (arrived q w) (wdb w')" .
  have "e (wdb w1) = wdb w1" if "q now (wdb w1) = Inr (x, e)" for now x e
    using that assms(4) unfolding reads_only_def by (metis id_apply)
  with b(2) have "wdb w' = wdb w1" by (auto elim: sent.cases)
  with stage_beat [OF assms(1) b(1) assms(3)] that show thesis by (auto simp: stage_def)
qed

text \<open>The steps of a handler that is alone on its server.\<close>

lemma sole_stmts:
  "sent (StartSession i) (fdb f) (Inr x) ok d \<Longrightarrow>
    handler_step opts (sole f m (Starting i) ph S L)
      (sole (f\<lparr>fdb := d\<rparr>) m (Dialing i) ph (if ok then insert i S else S) L)"
  "sent (StartSession i) (fdb f) (Inl e) ok d \<Longrightarrow> is_no_rows e \<Longrightarrow>
    handler_step opts (sole f m (Starting i) ph S L) (sole (f\<lparr>fdb := d\<rparr>) m (Releasing i) ph S L)"
  "sent (StartSession i) (fdb f) (Inl e) ok d \<Longrightarrow> \<not> is_no_rows e \<Longrightarrow>
    handler_step opts (sole f m (Starting i) ph S L)
      (sole (f\<lparr>fdb := d\<rparr>) m (Failing i) ph (if ok then insert i S else S) L)"
  "sent (FailSession i) (fdb f) r ok d \<Longrightarrow>
    handler_step opts (sole f m (Failing i) ph S L)
      (sole (f\<lparr>fdb := d\<rparr>) m (Releasing i) ph S (if ok then L else insert i L))"
  "sent (outcome_stmt True i) (fdb f) r ok d \<Longrightarrow>
    handler_step opts (sole f m (TurnedAway i RegisterDraining) ph S L)
      (sole (f\<lparr>fdb := d\<rparr>) m (Dismissed i RegisterDraining) ph S (if ok then L else insert i L))"
  "sent (outcome_stmt (ev_normal ev) i) (fdb f) r ok d \<Longrightarrow>
    handler_step opts (sole f m (Stopping i ev) ph S L)
      (sole (f\<lparr>fdb := d\<rparr>) m (Leaving i ev) ph S (if ok then L else insert i L))"
  using hs_started [of "sole f m (Starting i) ph S L" 0 i x ok d opts]
    hs_rejected [of "sole f m (Starting i) ph S L" 0 i e ok d opts]
    hs_start_error [of "sole f m (Starting i) ph S L" 0 i e ok d opts]
    hs_failed [of "sole f m (Failing i) ph S L" 0 i r ok d opts]
    hs_drained_outcome [of "sole f m (TurnedAway i RegisterDraining) ph S L" 0 i r ok d opts]
    hs_outcome [of "sole f m (Stopping i ev) ph S L" 0 i ev r ok d opts]
  by (auto simp: sole_updates)

lemma sole_moves:
  "handler_step opts (sole f m (Dialing i) ph S L) (sole f m (Failing i) ph S L)"
  "handler_step opts (sole f m (Dialing i) ph S L) (sole f m (Registering i) ph S L)"
  "Release False m = Some m' \<Longrightarrow> handler_step opts (sole f m (Releasing i) ph S L) (sole f m' Gone ph S L)"
  "Release False m = Some m' \<Longrightarrow> handler_step opts (sole f m (Dismissed i res) ph S L) (sole f m' Gone ph S L)"
  "register i m = (RegisterAccepted, m') \<Longrightarrow>
    handler_step opts (sole f m (Registering i) ph S L) (sole f m' (Copying i) ph S L)"
  "register i m = (RegisterDraining, m') \<Longrightarrow>
    handler_step opts (sole f m (Registering i) ph S L) (sole f m' (TurnedAway i RegisterDraining) ph S L)"
  "handler_step opts (sole f m h ph S L) (sole f (stop i e m) h ph S L)"
  "mg_live m i = Some (e # es) \<Longrightarrow>
    handler_step opts (sole f m (Copying i) ph S L)
      (sole f (m\<lparr>mg_live := (mg_live m)(i \<mapsto> es)\<rparr>) (Stopping i e) ph S L)"
  "unregister i m = Some m' \<Longrightarrow> handler_step opts (sole f m (Leaving i e) ph S L) (sole f m' (Left i e) ph S L)"
  "handler_step opts (sole f m (Left i e) ph S L) (sole f m Gone ph S L)"
  "handler_step opts (sole f m h Serving S L) (sole f (begin_draining m) h Waiting S L)"
  using hs_dial_failed [of "sole f m (Dialing i) ph S L" 0 i opts]
    hs_upgraded [of "sole f m (Dialing i) ph S L" 0 i opts]
    hs_release [of "sole f m (Releasing i) ph S L" 0 i m' opts]
    hs_dismissed [of "sole f m (Dismissed i res) ph S L" 0 i res m' opts]
    hs_register [of "sole f m (Registering i) ph S L" 0 i m' opts]
    hs_refuse [of "sole f m (Registering i) ph S L" 0 i RegisterDraining m' opts]
    hs_event [of opts "sole f m h ph S L" i e]
    hs_select [of "sole f m (Copying i) ph S L" 0 i e es opts]
    hs_unregister [of "sole f m (Leaving i e) ph S L" 0 i e m' opts]
    hs_release_consumed [of "sole f m (Left i e) ph S L" 0 i e m opts]
    hs_shutdown [of "sole f m h Serving S L" opts]
  by (simp_all add: sole_updates Release_def) (simp add: sole_def with_manager_def)

section \<open>The ends an attachment can come to\<close>

text \<open>
  What \<open>attach\<close> sends to end the session it has started; the session its \<open>StartSession\<close> has started,
  by its answer or, without one, by what the database did; and the session whose end did not reach the
  database.
\<close>

definition ending_stmt :: "attach_env \<Rightarrow> uuid \<Rightarrow> session stmt" where
  "ending_stmt env i =
    (if at_dial env \<noteq> None \<or> at_upgrade env \<noteq> None then FailSession i
     else if at_register env = RegisterAccepted then outcome_stmt (ev_normal (at_event env)) i
     else outcome_stmt True i)"

definition started_by :: "uuid \<Rightarrow> world \<Rightarrow> uuid set" where
  "started_by i w = (case fst (exec (StartSession i) w) of
     Inr _ \<Rightarrow> {i}
   | Inl e \<Rightarrow> if \<not> is_no_rows e \<and> arrived (StartSession i) w then {i} else {})"

definition lost_by :: "attach_env \<Rightarrow> uuid \<Rightarrow> world \<Rightarrow> uuid set" where
  "lost_by env i w = (case exec (StartSession i) w of
     (Inr _, w1) \<Rightarrow> if arrived (ending_stmt env i) w1 then {} else {i}
   | (Inl e, w1) \<Rightarrow> if is_no_rows e \<or> arrived (FailSession i) w1 then {} else {i})"

definition ended :: "sched_options \<Rightarrow> node \<Rightarrow> world \<Rightarrow> claim_pc list \<Rightarrow> uuid set \<Rightarrow> uuid set \<Rightarrow> bool" where
  "ended opts n w rivals S L \<longleftrightarrow> (\<exists>m ph. stage opts n w rivals Gone m ph S L \<and> mg_wg m = 0)"

definition one_reserved :: manager where
  "one_reserved = NewManager\<lparr>mg_wg := 1\<rparr>"

lemma one_reserved_release: "\<exists>m. Release False one_reserved = Some m \<and> mg_wg m = 0"
  by (simp add: one_reserved_def Release_def wg_Done_def)

lemma ended_releasing: "stage opts n w rivals (Releasing i) one_reserved ph S L \<Longrightarrow> ended opts n w rivals S L"
  using one_reserved_release sole_moves(3) stage_step unfolding ended_def by meson

lemma ended_failing:
  assumes "stage opts n w rivals (Failing i) one_reserved ph S L" and "company opts rivals [([], w)] rivals'"
  shows "ended opts n (failSession i w) rivals' S (if arrived (FailSession i) w then L else insert i L)"
proof -
  obtain r w' where x: "exec (FailSession i) w = (r, w')" by fastforce
  obtain r1 where "stage opts n w' r1 (Releasing i) one_reserved ph S (if arrived (FailSession i) w then L else insert i L)"
    "company opts r1 [] rivals'" by (rule stage_exec [OF assms(1) x assms(2) sole_stmts(4)])
  with x show ?thesis by (simp add: failSession_def ended_releasing)
qed

lemma ended_relay:
  assumes st: "stage opts n w rivals (Registering i) one_reserved Serving S L" and res: "res \<noteq> RegisterDuplicate"
    and cmp: "company opts rivals [([], w)] rivals'"
    and q_def: "q = (if res = RegisterAccepted then outcome_stmt (ev_normal e) i else outcome_stmt True i)"
  shows "ended opts n (snd (snd (Run_relay res i e w))) rivals' S (if arrived q w then L else insert i L)"
proof (cases res)
  case RegisterAccepted
  let ?m = "one_reserved\<lparr>mg_live := [i \<mapsto> []]\<rparr>"
  have reg: "register i one_reserved = (RegisterAccepted, ?m)"
    by (simp add: register_def one_reserved_def NewManager_def)
  have live: "mg_live (stop i e ?m) i = Some [e]" by (simp add: stop_def)
  have q: "q = outcome_stmt (ev_normal e) i" using RegisterAccepted by (simp add: q_def)
  obtain r w' where x: "exec q w = (r, w')" by fastforce
  let ?m' = "(stop i e ?m)\<lparr>mg_live := (mg_live (stop i e ?m))(i \<mapsto> [])\<rparr>"
  obtain m'' where un: "unregister i ?m' = Some m''" "mg_wg m'' = 0"
    by (simp add: unregister_def wg_Done_def stop_facts one_reserved_def NewManager_def)
  have "stage opts n w rivals (Copying i) ?m Serving S L" by (rule stage_step [OF st sole_moves(5) [OF reg]])
  then have "stage opts n w rivals (Copying i) (stop i e ?m) Serving S L" by (rule stage_step [OF _ sole_moves(7)])
  then have "stage opts n w rivals (Stopping i e) ?m' Serving S L" by (rule stage_step [OF _ sole_moves(8) [OF live]])
  from stage_exec [OF this x cmp sole_stmts(6) [where ev = e and i = i, folded q]] obtain r1 where
    r1: "stage opts n w' r1 (Leaving i e) ?m' Serving S (if arrived q w then L else insert i L)"
    "company opts r1 [] rivals'" .
  then have "stage opts n w' rivals' (Left i e) m'' Serving S (if arrived q w then L else insert i L)"
    by (intro stage_step [OF _ sole_moves(9) [OF un(1)]]) simp
  then have "stage opts n w' rivals' Gone m'' Serving S (if arrived q w then L else insert i L)"
    by (rule stage_step [OF _ sole_moves(10)])
  moreover have "snd (snd (Run_relay res i e w)) = w'"
    using RegisterAccepted x q by (simp add: Run_relay_def recordOutcome_def outcome_stmt_def)
  ultimately show ?thesis using un(2) unfolding ended_def by blast
next
  case RegisterDraining
  let ?m = "begin_draining one_reserved"
  have reg: "register i ?m = (RegisterDraining, ?m)" by (simp add: register_def begin_draining_def)
  have q: "q = outcome_stmt True i" using RegisterDraining by (simp add: q_def)
  obtain m' where rel: "Release False ?m = Some m'" "mg_wg m' = 0"
    by (simp add: Release_def wg_Done_def begin_draining_def one_reserved_def)
  obtain r w' where x: "exec q w = (r, w')" by fastforce
  have "stage opts n w rivals (Registering i) ?m Waiting S L" by (rule stage_step [OF st sole_moves(11)])
  then have "stage opts n w rivals (TurnedAway i RegisterDraining) ?m Waiting S L"
    by (rule stage_step [OF _ sole_moves(6) [OF reg]])
  from stage_exec [OF this x cmp sole_stmts(5) [where i = i, folded q]] obtain r1 where
    "stage opts n w' r1 (Dismissed i RegisterDraining) ?m Waiting S (if arrived q w then L else insert i L)"
    "company opts r1 [] rivals'" .
  then have "stage opts n w' rivals' Gone m' Waiting S (if arrived q w then L else insert i L)"
    by (intro stage_step [OF _ sole_moves(4) [OF rel(1)]]) simp
  moreover have "snd (snd (Run_relay res i e w)) = w'"
    using RegisterDraining x q by (simp add: Run_relay_def recordOutcome_def outcome_stmt_def)
  ultimately show ?thesis using rel(2) unfolding ended_def by blast
qed (use res in simp)

lemma get_session_reads: "reads_only (GetSession i)"
  by (auto simp: reads_only_def GetSession_def split: option.splits)

lemma attach_in_company:
  assumes begins: "at_begin env = None" and res: "at_register env \<noteq> RegisterDuplicate"
    and cmp: "company opts rivals [([], w), ([], snd (exec (StartSession (sid s)) w))] rivals'"
  shows "ended opts (alone (wdb w) rivals) (snd (attach env s w)) rivals' (started_by (sid s) w) (lost_by env (sid s) w)"
proof -
  let ?i = "sid s" and ?n = "alone (wdb w) rivals"
  have begun: "stage opts ?n w rivals (Starting ?i) one_reserved Serving {} {}"
    unfolding one_reserved_def by (rule stage_begin)
  obtain r w1 where x: "exec (StartSession ?i) w = (r, w1)" by fastforce
  show ?thesis
  proof (cases r)
    case (Inl e)
    show ?thesis
    proof (cases "is_no_rows e")
      case True
      obtain r1 where r1: "stage opts ?n w1 r1 (Releasing ?i) one_reserved Serving {} {}"
        "company opts r1 [([], w1)] rivals'"
        by (rule stage_exec [OF begun x cmp [unfolded x snd_conv]]) (use sole_stmts(2) True Inl in auto)
      obtain q w2 where y: "exec (GetSession ?i) w1 = (q, w2)" by fastforce
      obtain r2 where "stage opts ?n w2 r2 (Releasing ?i) one_reserved Serving {} {}" "company opts r2 [] rivals'"
        by (rule stage_read [OF r1(1) y r1(2) get_session_reads])
      with x y Inl True begins show ?thesis
        by (auto simp: attach_def writeRejectedStart_def started_by_def lost_by_def dest: ended_releasing split: sum.splits)
    next
      case False
      obtain r1 where "stage opts ?n w1 r1 (Failing ?i) one_reserved Serving (if arrived (StartSession ?i) w then {?i} else {}) {}"
        "company opts r1 [([], w1)] rivals'"
        by (rule stage_exec [OF begun x cmp [unfolded x snd_conv]]) (use sole_stmts(3) False Inl in auto)
      from ended_failing [OF this] show ?thesis
        using x Inl False begins by (simp add: attach_def started_by_def lost_by_def)
    qed
  next
    case (Inr t)
    obtain r1 where r1: "stage opts ?n w1 r1 (Dialing ?i) one_reserved Serving {?i} {}" "company opts r1 [([], w1)] rivals'"
      by (rule stage_exec [OF begun x cmp [unfolded x snd_conv]])
        (use sole_stmts(1) [where S = "{}"] Inr exec_Inr_arrived x in fastforce)
    show ?thesis
    proof (cases "at_dial env = None \<and> at_upgrade env = None")
      case True
      have "stage opts ?n w1 r1 (Registering ?i) one_reserved Serving {?i} {}" by (rule stage_step [OF r1(1) sole_moves(2)])
      from ended_relay [OF this res r1(2) refl, of "at_event env"] show ?thesis
        using x Inr True begins by (simp add: attach_def started_by_def lost_by_def ending_stmt_def)
    next
      case False
      have "stage opts ?n w1 r1 (Failing ?i) one_reserved Serving {?i} {}" by (rule stage_step [OF r1(1) sole_moves(1)])
      from ended_failing [OF this r1(2)] show ?thesis
        using x Inr False begins
        by (auto simp: attach_def started_by_def lost_by_def ending_stmt_def split: option.splits)
    qed
  qed
qed

text \<open>Read off the code itself: the last round trip ends the session, if it arrives.\<close>

lemma attach_last_trip:
  assumes "at_begin env = None" and "at_register env \<noteq> RegisterDuplicate"
    and "exec (StartSession (sid s)) w = (Inr x, w1)"
  shows "snd (attach env s w) = snd (exec (ending_stmt env (sid s)) w1)"
  using assms
  by (cases "at_register env")
    (auto simp: attach_def ending_stmt_def failSession_def Run_relay_def recordOutcome_def outcome_stmt_def
      split: option.splits)

lemma ending_arrived:
  assumes "arrived (ending_stmt env i) w"
  shows "statuses (wdb (snd (exec (ending_stmt env i) w))) i \<noteq> Some Running"
proof -
  obtain r w' where x: "exec (ending_stmt env i) w = (r, w')" by fastforce
  from exec_sent [OF x] obtain b w1 where "next_beat w = (b, w1)"
    "sent (ending_stmt env i) (wdb w1) r (arrived (ending_stmt env i) w) (wdb w')" .
  with assms have "sent (ending_stmt env i) (wdb w1) r True (wdb w')" by simp
  with x show ?thesis by (auto simp: ending_stmt_def dest: settle_sent split: if_splits)
qed

end
