(* ===== verification/Cancelled_Start.thy ===== *)
theory Cancelled_Start
  imports Handler_Sessions
begin

text \<open>
  Two clients for one session. The explicit endpoint lets every client pass that reads the session
  while it is pending. When the first has started it, a failure of the second's \<open>StartSession\<close> before it
  reaches the database (a cancelled request, a lost connection) makes \<open>attach\<close> fail the session it never
  started, under the relay of the first.
\<close>

text \<open>A server with no claim in flight that has started session \<open>i\<close> and lost no statement.\<close>

definition node_at :: "uuid \<Rightarrow> database \<Rightarrow> manager \<Rightarrow> handler list \<Rightarrow> shutdown_phase \<Rightarrow> node" where
  "node_at i d m hs ph = \<lparr>nd_fleet = \<lparr>fdb = d, claims = []\<rparr>, nd_manager = m, nd_handlers = hs, nd_phase = ph,
     nd_started = {i}, nd_lost = {}\<rparr>"

lemma node_at_simps:
  "nd_fleet (node_at i d m hs ph) = \<lparr>fdb = d, claims = []\<rparr>" "nd_manager (node_at i d m hs ph) = m"
  "nd_handlers (node_at i d m hs ph) = hs" "nd_phase (node_at i d m hs ph) = ph"
  "nd_started (node_at i d m hs ph) = {i}" "nd_lost (node_at i d m hs ph) = {}"
  "at_handler (node_at i d m hs ph) a h \<longleftrightarrow> a < length hs \<and> hs ! a = h"
  "move a h (node_at i d m hs ph) = node_at i d m (hs[a := h]) ph"
  "with_manager m' (node_at i d m hs ph) = node_at i d m' hs ph"
  "with_db d' (node_at i d m hs ph) = node_at i d' m hs ph"
  "note_lost True j (node_at i d m hs ph) = node_at i d m hs ph"
  "note_started False j (node_at i d m hs ph) = node_at i d m hs ph"
  "(node_at i d m hs ph)\<lparr>nd_phase := ph'\<rparr> = node_at i d m hs ph'"
  "(node_at i d m hs ph)\<lparr>nd_handlers := hs'\<rparr> = node_at i d m hs' ph"
  by (simp_all add: node_at_def at_handler_def move_def with_manager_def with_db_def note_lost_def note_started_def)

abbreviation one_attached :: manager where
  "one_attached \<equiv> NewManager\<lparr>mg_wg := 1\<rparr>"

text \<open>The handler of the first client up to its dial, which succeeds.\<close>

lemma first_client:
  assumes "sent (StartSession i) d (Inr x) True d1"
  shows "reaches (handler_step opts) (fresh_node d 0) (node_at i d1 one_attached [Dialing i] Serving)"
    and "reaches (handler_step opts) (fresh_node d 0) (node_at i d1 one_attached [Registering i] Serving)"
proof -
  let ?s = "(fresh_node d 0)\<lparr>nd_handlers := [Starting i], nd_manager := one_attached\<rparr>"
  have "handler_step opts (fresh_node d 0) ?s"
    using hs_begin [of "fresh_node d 0" one_attached opts i]
    by (simp add: fresh_node_def BeginAttach_def NewManager_def with_manager_def)
  moreover have "handler_step opts ?s (node_at i d1 one_attached [Dialing i] Serving)"
    using hs_started [of ?s 0 i x True d1 opts] assms
    by (simp add: fresh_node_def at_handler_def move_def note_started_def with_db_def node_at_def)
  ultimately show dialing: "reaches (handler_step opts) (fresh_node d 0) (node_at i d1 one_attached [Dialing i] Serving)"
    by (meson reaches_step reaches_refl)
  show "reaches (handler_step opts) (fresh_node d 0) (node_at i d1 one_attached [Registering i] Serving)"
    using hs_upgraded [of "node_at i d1 one_attached [Dialing i] Serving" 0 i opts]
    by (intro reaches_step [OF dialing]) (simp add: node_at_simps)
qed

lemma first_relayed:
  assumes "sent (StartSession i) d (Inr x) True d1"
  shows "reaches (handler_step opts) (fresh_node d 0)
    (node_at i d1 (one_attached\<lparr>mg_live := [i \<mapsto> []]\<rparr>) [Copying i] Serving)"
proof -
  let ?n = "node_at i d1 one_attached [Registering i] Serving"
  have "handler_step opts ?n (node_at i d1 (one_attached\<lparr>mg_live := [i \<mapsto> []]\<rparr>) [Copying i] Serving)"
    using hs_register [of ?n 0 i "one_attached\<lparr>mg_live := [i \<mapsto> []]\<rparr>" opts]
    by (simp add: node_at_simps register_def NewManager_def)
  with first_client(2) [OF assms] show ?thesis by (rule reaches_step)
qed

text \<open>A second client of the session comes, its start fails on the way, and it fails the session.\<close>

lemma second_client:
  assumes "sent (FailSession i) d1 r True d2"
  shows "reaches (handler_step opts) (node_at i d1 (one_attached\<lparr>mg_live := [i \<mapsto> []]\<rparr>) [Copying i] Serving)
    (node_at i d2 (NewManager\<lparr>mg_wg := 2, mg_live := [i \<mapsto> []]\<rparr>) [Copying i, Releasing i] Serving)"
proof -
  let ?n = "\<lambda>d m hs. node_at i d m hs Serving"
  let ?one = "one_attached\<lparr>mg_live := [i \<mapsto> []]\<rparr>" and ?two = "NewManager\<lparr>mg_wg := 2, mg_live := [i \<mapsto> []]\<rparr>"
  have s1: "handler_step opts (?n d1 ?one [Copying i]) (?n d1 ?two [Copying i, Starting i])"
    using hs_begin [of "?n d1 ?one [Copying i]" ?two opts i]
    by (simp add: node_at_simps BeginAttach_def NewManager_def)
  have s2: "handler_step opts (?n d1 ?two [Copying i, Starting i]) (?n d1 ?two [Copying i, Failing i])"
    using hs_start_error [of "?n d1 ?two [Copying i, Starting i]" 1 i "Cause Canceled" False d1 opts]
      sent_failed [of "StartSession i" d1 Canceled]
    by (simp add: node_at_simps)
  have s3: "handler_step opts (?n d1 ?two [Copying i, Failing i]) (?n d2 ?two [Copying i, Releasing i])"
    using hs_failed [of "?n d1 ?two [Copying i, Failing i]" 1 i r True d2 opts] assms
    by (simp add: node_at_simps)
  from s1 s2 s3 show ?thesis by (meson reaches_step reaches_refl)
qed

text \<open>This is what \<open>attach\<close> does for the second client.\<close>

definition cut_off :: "cause \<Rightarrow> beat" where
  "cut_off c = \<lparr>others = id, elapsed = 0, locked = [], fault = Some (c, False)\<rparr>"

lemma attach_cut_off:
  assumes "at_begin env = None" and "statuses d (sid s) = Some Running"
    and w_def: "w = \<lparr>wdb = d, clock = t, script = [cut_off c]\<rparr>"
  shows "fst (attach env s w) = Some (plain_reply 500 ''internal server error'')
    \<and> (\<exists>y. sent (FailSession (sid s)) d (Inr y) True (wdb (snd (attach env s w))))
    \<and> statuses (wdb (snd (attach env s w))) (sid s) = Some Failed"
proof -
  let ?w1 = "\<lparr>wdb = d, clock = t, script = []\<rparr>"
  have "exec (StartSession (sid s)) w = (Inl (Cause c), ?w1)"
    by (auto simp: exec_def next_beat_def w_def cut_off_def split: sum.splits)
  then have a: "attach env s w = (Some (plain_reply 500 ''internal server error''), failSession (sid s) ?w1)"
    using assms(1) by (simp add: attach_def)
  from assms(2) obtain x where "lookup_row sid (sid s) (sessions d) = Some x" "sstatus x = Running"
    by (auto simp: statuses_def)
  then obtain y e where q: "FailSession (sid s) t d = Inr (y, e)"
    by (simp add: FailSession_def update_session_def active_def)
  then have "failSession (sid s) ?w1 = \<lparr>wdb = e d, clock = t, script = []\<rparr>"
    by (simp add: failSession_def exec_def next_beat_def)
  with a q updated_status [OF q [unfolded FailSession_def]] sent_done [where q = "FailSession (sid s)", OF q]
  show ?thesis by auto
qed

lemma pending_starts:
  assumes "statuses d i = Some Pending"
  obtains x d1 where "sent (StartSession i) d (Inr x) True d1" "statuses d1 i = Some Running"
proof -
  from assms obtain s where "lookup_row sid i (sessions d) = Some s" "sstatus s = Pending"
    by (auto simp: statuses_def)
  then obtain x e where x: "StartSession i 0 d = Inr (x, e)" by (simp add: StartSession_def update_session_def)
  from updated_status [OF this [unfolded StartSession_def]] have "statuses (e d) i = Some Running"
    by (auto simp: start_row_def)
  with sent_done [where q = "StartSession i", OF x] that show thesis by blast
qed

end
