(* ===== verification/Lost_Sessions.thy ===== *)
theory Lost_Sessions
  imports Handler_Sessions Rescuer
begin

text \<open>
  The sweep ends what a server could not: a session whose terminal statement was lost, or whose server
  is gone, expires once its last heartbeat is old enough.
\<close>

definition stale_at :: "rescuer_options \<Rightarrow> int \<Rightarrow> database \<Rightarrow> uuid \<Rightarrow> bool" where
  "stale_at o' t d i \<longleftrightarrow>
     (\<forall>x \<in> set (sessions d). sid x = i \<longrightarrow> sheartbeat x < t - microseconds (ro_session_ttl o'))"

lemma sweep_statuses:
  "statuses (sweep_effect o' t d) i =
    map_option (\<lambda>x. if dead_session (microseconds (ro_session_ttl o')) t x then Expired else sstatus x)
      (lookup_row sid i (sessions d))"
  by (simp add: statuses_def sweep_effect_def stall_effect_def expire_effect_def remove_effect_def Let_def
      lookup_update_where option.map_comp comp_def if_distrib [of sstatus] cong: if_cong)

lemma swept_sessions_end:
  assumes "fleet_ok d" and "begun (statuses d) i" and "statuses d i = Some Running \<longrightarrow> stale_at o' t d i"
  shows "\<exists>st. statuses (wdb (snd (Sweep o' (calm d t)))) i = Some st \<and> terminal st"
proof -
  from assms(2) obtain x where x: "lookup_row sid i (sessions d) = Some x" "sstatus x \<noteq> Pending"
    by (auto simp: begun_def statuses_def)
  have "dead_session (microseconds (ro_session_ttl o')) t x" if "sstatus x = Running"
    using that x assms(3) lookup_row_Some [OF x(1)]
    by (auto simp: statuses_def stale_at_def dead_session_def active_def)
  moreover have "wdb (snd (Sweep o' (calm d t))) = sweep_effect o' t d"
    using assms(1) by (simp add: Sweep_calm(1) fleet_ok_def)
  ultimately show ?thesis
    using x by (cases "sstatus x") (auto simp: sweep_statuses terminal_def)
qed

text \<open>Whatever state a server is in when it disappears, the next sweep ends every session it had started.\<close>

lemma sweep_ends_started:
  assumes "node_inv s" and "\<forall>i \<in> nd_started s. statuses (ndb s) i = Some Running \<longrightarrow> stale_at o' t (ndb s) i"
  shows "\<forall>i \<in> nd_started s. \<exists>st. statuses (wdb (snd (Sweep o' (calm (ndb s) t)))) i = Some st \<and> terminal st"
proof
  fix i assume i: "i \<in> nd_started s"
  from assms(1) have "fleet_ok (ndb s)" "\<forall>i \<in> nd_started s. begun (statuses (ndb s)) i"
    by (simp_all add: node_inv_def claim_inv_def handlers_ok_def)
  with i assms(2) show "\<exists>st. statuses (wdb (snd (Sweep o' (calm (ndb s) t)))) i = Some st \<and> terminal st"
    by (intro swept_sessions_end) auto
qed

end
