(* ===== verification/Input_Checks.thy ===== *)
theory Input_Checks
  imports Routing
begin

text \<open>
  The declared inputs of the API's operations (\<open>internal/httpapi/server.go\<close>): the struct tags \<open>enum\<close>,
  \<open>pattern\<close>, \<open>minLength\<close>, \<open>maxLength\<close>, \<open>minimum\<close>, \<open>maximum\<close>, \<open>default\<close> and \<open>omitempty\<close> as the checks the
  framework makes of them before it calls the handler, and the calls that come out. They start from a
  body the framework could read: a field that the body leaves out is \<open>None\<close>. What the framework answers
  to a body that is missing, malformed, too large or of another media type is its own, and a parameter
  of the definitions that serve a request (\<open>hr_decoded\<close>). \<open>uuid.Parse\<close> and the framework's \<open>uri\<close> format are parameters.
\<close>

section \<open>Patterns and lengths\<close>

text \<open>\<open>^wss?://[^\s/?#]+\<close>: a scheme, then one character of a host at least.\<close>

definition regex_space :: "char \<Rightarrow> bool" where
  "regex_space c \<longleftrightarrow> c \<in> {CHR '' '', CHR 0x09, CHR 0x0A, CHR 0x0C, CHR 0x0D}"

definition host_char :: "char \<Rightarrow> bool" where
  "host_char c \<longleftrightarrow> \<not> regex_space c \<and> c \<notin> {CHR ''/'', CHR ''?'', CHR ''#''}"

definition host_start :: "string \<Rightarrow> bool" where
  "host_start s \<longleftrightarrow> (case s of [] \<Rightarrow> False | c # _ \<Rightarrow> host_char c)"

definition address_pattern :: "string \<Rightarrow> bool" where
  "address_pattern a \<longleftrightarrow>
     (prefix ''ws://'' a \<and> host_start (drop 5 a)) \<or> (prefix ''wss://'' a \<and> host_start (drop 6 a))"

text \<open>\<open>^[0-9]+\.[0-9]+\.[0-9]+\<close>: what follows the third number is free.\<close>

definition worker_version_pattern :: "string \<Rightarrow> bool" where
  "worker_version_pattern s =
    (case munch digit s of (major, r1) \<Rightarrow>
       major \<noteq> [] \<and> r1 \<noteq> [] \<and> hd r1 = CHR ''.'' \<and>
       (case munch digit (tl r1) of (minor, r2) \<Rightarrow>
          minor \<noteq> [] \<and> r2 \<noteq> [] \<and> hd r2 = CHR ''.'' \<and> fst (munch digit (tl r2)) \<noteq> []))"

text \<open>The expression of the session's version is the one of \<open>relay.VersionPrefix\<close>.\<close>

definition session_version_pattern :: "string \<Rightarrow> bool" where
  "session_version_pattern s \<longleftrightarrow> match_version s \<noteq> None"

text \<open>Lengths count characters of UTF-8: every byte that does not continue one.\<close>

definition rune_count :: "string \<Rightarrow> nat" where
  "rune_count s = length (filter (\<lambda>c. \<not> (CHR 0x80 \<le> c \<and> c \<le> CHR 0xBF)) s)"

section \<open>Bodies\<close>

record 'm create_body =
  cb_browser :: "string option"
  cb_mode :: "string option"
  cb_version :: "string option"
  cb_metadata :: "'m option"

definition decode_mode :: "string option \<Rightarrow> session_mode option" where
  "decode_mode m =
    (case m of
       None \<Rightarrow> Some ModeDefault
     | Some t \<Rightarrow> if t = ''default'' then Some ModeDefault else if t = ''dedicated'' then Some ModeDedicated else None)"

definition check_create :: "'m create_body \<Rightarrow> 'm create_request option" where
  "check_create b =
    (case (cb_browser b, decode_mode (cb_mode b)) of
       (Some browser, Some mode) \<Rightarrow>
         (if validBrowser browser \<and> (case cb_version b of None \<Rightarrow> True | Some v \<Rightarrow> session_version_pattern v)
          then Some \<lparr>cr_mode = mode, cr_browser_type = browser,
                 cr_playwright_version = (case cb_version b of None \<Rightarrow> [] | Some v \<Rightarrow> v),
                 cr_metadata = cb_metadata b\<rparr>
          else None)
     | _ \<Rightarrow> None)"

record registration_body =
  rb_address :: "string option"
  rb_browser :: "string option"
  rb_version :: "string option"
  rb_max_slots :: "int option"

definition check_register :: "(string \<Rightarrow> bool) \<Rightarrow> registration_body \<Rightarrow> register_request option" where
  "check_register uri b =
    (case (rb_address b, rb_browser b, rb_version b, rb_max_slots b) of
       (Some address, Some browser, Some version, Some slots) \<Rightarrow>
         (if uri address \<and> address_pattern address \<and> rune_count address \<le> 512
             \<and> validBrowser browser
             \<and> worker_version_pattern version \<and> 1 \<le> rune_count version \<and> rune_count version \<le> 64
             \<and> 1 \<le> slots \<and> slots \<le> 1024
          then Some \<lparr>rr_address = address, rr_browser = browser, rr_version = version, rr_max_slots = slots\<rparr>
          else None)
     | _ \<Rightarrow> None)"

text \<open>The statuses a worker may ask for.\<close>

definition check_status :: "string option \<Rightarrow> worker_status option" where
  "check_status t =
    (if t = Some ''draining'' then Some Draining
     else if t = Some ''shutting_down'' then Some ShuttingDown else None)"

section \<open>From requests to calls\<close>

text \<open>
  What an operation reads of a request: the identifier in the path and its body; with it, what the
  handler draws from its surroundings (a new identifier, the admission's environment, the depth of
  the queue).
\<close>

record 'm api_input =
  in_id :: string
  in_create :: "'m create_body"
  in_register :: registration_body
  in_status :: "string option"
  in_reported :: "string list option"
  in_new_id :: uuid
  in_admit :: admit_env
  in_depth :: int

fun parse_ids :: "(string \<Rightarrow> error + uuid) \<Rightarrow> string list \<Rightarrow> uuid list option" where
  "parse_ids parse [] = Some []"
| "parse_ids parse (t # ts) =
    (case (parse t, parse_ids parse ts) of (Inr i, Some is) \<Rightarrow> Some (i # is) | _ \<Rightarrow> None)"

abbreviation invalid_input :: reply where
  "invalid_input \<equiv> plain_reply 422 ''validation failed''"

definition or_invalid :: "'a option \<Rightarrow> reply + 'a" where
  "or_invalid x = (case x of None \<Rightarrow> Inl invalid_input | Some y \<Rightarrow> Inr y)"

definition path_id :: "(string \<Rightarrow> error + uuid) \<Rightarrow> string \<Rightarrow> uuid option" where
  "path_id parse t = (case parse t of Inl e \<Rightarrow> None | Inr i \<Rightarrow> Some i)"

fun decode_call :: "(string \<Rightarrow> error + uuid) \<Rightarrow> (string \<Rightarrow> bool) \<Rightarrow> 'm api_input \<Rightarrow> operation
    \<Rightarrow> reply + 'm api_call" where
  "decode_call parse uri inp CreateSession =
     or_invalid (map_option (CallCreateSession (in_admit inp) (in_depth inp)) (check_create (in_create inp)))"
| "decode_call parse uri inp GetSessionOp = or_invalid (map_option CallGetSession (path_id parse (in_id inp)))"
| "decode_call parse uri inp DeleteSession = or_invalid (map_option CallDeleteSession (path_id parse (in_id inp)))"
| "decode_call parse uri inp ListWorkersOp = Inr CallListWorkers"
| "decode_call parse uri inp GetCapacity = Inr (CallGetCapacity (in_depth inp))"
| "decode_call parse uri inp RegisterWorkerOp =
     or_invalid (map_option (CallRegisterWorker (in_new_id inp)) (check_register uri (in_register inp)))"
| "decode_call parse uri inp HeartbeatWorker =
     (case (path_id parse (in_id inp), in_reported inp) of
        (Some i, Some ts) \<Rightarrow> or_invalid (map_option (CallHeartbeat i) (parse_ids parse ts))
      | _ \<Rightarrow> Inl invalid_input)"
| "decode_call parse uri inp SetStatusOp =
     (case (path_id parse (in_id inp), check_status (in_status inp)) of
        (Some i, Some target) \<Rightarrow> Inr (CallSetStatus i target)
      | _ \<Rightarrow> Inl invalid_input)"
| "decode_call parse uri inp Health = Inr CallHealth"
| "decode_call parse uri inp Readiness = Inr CallReadiness"

section \<open>What the checks guarantee\<close>

lemma or_invalid_Inr: "or_invalid x = Inr y \<longleftrightarrow> x = Some y"
  by (simp add: or_invalid_def split: option.splits)

text \<open>The call is always one of the operation the route names.\<close>

lemma decode_call_operation: "decode_call parse uri inp oper = Inr c \<Longrightarrow> call_operation c = oper"
  by (cases oper) (auto simp: or_invalid_Inr split: option.splits)

definition decoding :: "(string \<Rightarrow> error + uuid) \<Rightarrow> (string \<Rightarrow> bool) \<Rightarrow> 'm api_input \<Rightarrow> 'm http_request \<Rightarrow> bool" where
  "decoding parse uri inp rq \<longleftrightarrow> hr_decoded rq = decode_call parse uri inp"

lemma decoding_decodes: "decoding parse uri inp rq \<Longrightarrow> decodes rq"
  by (auto simp: decoding_def decodes_def intro: decode_call_operation)

lemma checked_register:
  "check_register uri b = Some rq \<Longrightarrow>
    known_browser (rr_browser rq) \<and> 1 \<le> rr_max_slots rq \<and> rr_max_slots rq \<le> 1024
    \<and> address_pattern (rr_address rq) \<and> worker_version_pattern (rr_version rq)"
  by (auto simp: check_register_def validBrowser_def known_browser_def split: option.splits if_splits)

text \<open>The handler's own check of the version can never fail after the pattern.\<close>

lemma checked_create:
  "check_create b = Some rq \<Longrightarrow>
    known_browser (cr_browser_type rq)
    \<and> (cr_playwright_version rq = [] \<or> VersionPrefix (cr_playwright_version rq) \<noteq> None)"
  by (auto simp: check_create_def validBrowser_def known_browser_def session_version_pattern_def
      VersionPrefix_def split: option.splits if_splits prod.splits)

lemma checked_status: "check_status t = Some s \<Longrightarrow> s = Draining \<or> s = ShuttingDown"
  by (auto simp: check_status_def split: if_splits)

section \<open>A version the two endpoints disagree about\<close>

text \<open>
  The pattern of a worker's version is open at its end, so a version may pass it that \<open>VersionPrefix\<close>
  does not accept. A claim with a client's prefix selects such a worker; on its session the explicit
  endpoint then refuses every client that names a version, the one it was claimed for included.
\<close>

lemma loose_version:
  "worker_version_pattern ''1.62.0_x'' \<and> VersionPrefix ''1.62.0_x'' = None \<and> prefix ''1.62.'' ''1.62.0_x''"
  by code_simp

lemma loose_version_registers:
  "uri a \<Longrightarrow> address_pattern a \<Longrightarrow> rune_count a \<le> 512 \<Longrightarrow>
    check_register uri \<lparr>rb_address = Some a, rb_browser = Some ''chromium'', rb_version = Some ''1.62.0_x'',
      rb_max_slots = Some 1\<rparr> = Some \<lparr>rr_address = a, rr_browser = ''chromium'', rr_version = ''1.62.0_x'', rr_max_slots = 1\<rparr>"
  using loose_version by (simp add: check_register_def validBrowser_def rune_count_def)

lemma loose_version_shuts_out:
  assumes "VersionPrefix (sversion s) = None" and "UserAgentVersion (rq_user_agent rq) = Some (v, p)"
    and "preflight (re_parse_host env) (re_accepting env) rq = None"
    and "authenticateRelay auth (re_latched env) st (rq_authorization rq) (rq_token rq) w = (Inr who, st1, calm d t)"
    and "parse (rq_path_id rq) = Inr (sid s)" and "lookup_row sid (sid s) (sessions d) = Some s"
    and "sstatus s = Pending"
  shows "\<exists>m. explicit auth parse env rq st w = (Some (plain_reply 409 m), st1, calm d t)"
proof -
  have "p \<noteq> []" using agent_numbers [OF assms(2)] by auto
  with assms show ?thesis by (simp add: explicit_def GetSession_def)
qed

end
