(* ===== verification/Replies.thy ===== *)
theory Replies
  imports Input_Checks
begin

text \<open>
  What the API answers: each handler's statuses on all its branches, and that a request to an operation
  gets only the statuses the published document names for it, or no answer when its client has gone.
\<close>

section \<open>The handlers\<close>

text \<open>The status of an outcome, none when the client has gone.\<close>

definition answered :: "nat list \<Rightarrow> 'b outcome \<Rightarrow> bool" where
  "answered sts out = (case out of
     Answer st _ \<Rightarrow> st \<in> set sts
   | Refusal None \<Rightarrow> True
   | Refusal (Some rp) \<Rightarrow> rp_status rp \<in> set sts)"

lemma answered_simps [simp]:
  "answered sts (Answer st x) \<longleftrightarrow> st \<in> set sts" "answered sts (Refusal None)"
  "answered sts (Refusal (Some rp)) \<longleftrightarrow> rp_status rp \<in> set sts"
  by (simp_all add: answered_def)

lemma answered_if:
  "answered sts (if b then x else y) \<longleftrightarrow> (if b then answered sts x else answered sts y)"
  by simp

definition proper :: "operation \<Rightarrow> reply \<Rightarrow> bool" where
  "proper oper rp \<longleftrightarrow> rp_status rp = 0 \<or> rp_status rp \<in> set (documented oper)"

lemma proper_reply: "answered (documented oper) out \<Longrightarrow> proper oper (reply_of out)"
  by (auto simp: proper_def reply_of_def answered_def split: outcome.splits option.splits)

lemma proper_replied: "answered (documented oper) (fst r) \<Longrightarrow> proper oper (fst (replied r))"
  by (cases r) (simp add: replied_def proper_reply)

lemma admission_refusal_answers: "answered (documented CreateSession) (admission_refusal e)"
  by (simp add: admission_refusal_def)

lemma create_session_answers:
  "(case fst (create_session enc dec emp sched env depth who rq w) of
      None \<Rightarrow> True | Some out \<Rightarrow> answered (documented CreateSession) out)"
  unfolding create_session_def
  by (simp add: admission_refusal_answers [simplified] split: sum.split option.split prod.split)

lemma handler_answers:
  "answered (documented GetSessionOp) (fst (get_session dec i w))"
  "answered (documented DeleteSession) (fst (delete_session i w))"
  "answered (documented ListWorkersOp) (fst (list_workers w))"
  "answered (documented GetCapacity) (fst (get_capacity sched depth w))"
  "answered (documented RegisterWorkerOp) (fst (register_worker host i reg w))"
  "answered (documented HeartbeatWorker) (fst (heartbeat_worker sched i ids w))"
  "answered (documented SetStatusOp) (fst (set_worker_status i target w))"
  "answered (documented Health) health"
  "answered (documented Readiness) (fst (readiness w))"
  by (simp_all add: get_session_def delete_session_def list_workers_def get_capacity_def register_worker_def
      heartbeat_worker_def set_worker_status_def health_def readiness_def Let_def
      split: sum.split option.split prod.split)

lemma run_call_proper: "proper (call_operation c) (fst (run_call s c who w))"
proof (cases c)
  case (CallCreateSession env depth rq)
  obtain out w' where o: "create_session (as_encode s) (as_decode s) (as_empty s) (as_scheduler s) env depth who rq w
      = (out, w')" by fastforce
  with create_session_answers [of "as_encode s" "as_decode s" "as_empty s" "as_scheduler s" env depth who rq w]
  have "proper CreateSession (reply_of x)" if "out = Some x" for x
    using that by (intro proper_reply) simp
  then show ?thesis unfolding CallCreateSession using o by (cases out) (simp_all add: proper_def)
qed (simp_all only: run_call.simps call_operation.simps fst_conv proper_replied proper_reply handler_answers)

section \<open>A request\<close>

text \<open>
  What the framework makes of a request before the handler: the call of the operation, or an answer of
  its own. The answers it gives to the declared checks (\<open>decode_call\<close>) are documented; those it gives
  to a body it cannot read at all are its own and no part of this program.
\<close>

lemma invalid_input_proper: "decode_call parse uri inp oper = Inl rp \<Longrightarrow> has_inputs oper \<and> rp_status rp = 422"
  by (cases oper) (auto simp: has_inputs_def or_invalid_def split: option.splits)

lemma auth_failure_status: "rp_status (auth_failure e) = 401 \<or> rp_status (auth_failure e) = 503"
  by (simp add: auth_failure_def)

lemma api_replies_documented:
  assumes "r \<in> set api_routes" and "\<And>c. decoded = Inr c \<Longrightarrow> call_operation c = rt_operation r"
  shows "proper (rt_operation r) (fst (serve_api s auth l st a r decoded w))
    \<or> decoded = Inl (fst (serve_api s auth l st a r decoded w))"
proof -
  let ?oper = "rt_operation r"
  have op: "proper ?oper (fst (run_call s c who w1))" if "decoded = Inr c" for c who w1
    using run_call_proper [of c s who w1] assms(2) [OF that] by simp
  have refused: "proper ?oper (auth_failure e)" if "rt_auth r" for e
    using that assms(1) auth_failure_status [of e]
    by (auto simp: proper_def api_routes_def group_routes_def public_routes_def worker_routes_def
        infrastructure_routes_def)
  show ?thesis
  proof (cases decoded)
    case (Inl rp)
    with refused show ?thesis
      by (auto simp: serve_api_def Let_def authMiddleware_def split: prod.split sum.split)
  next
    case (Inr c)
    with op [OF Inr] refused have "proper ?oper (fst (serve_api s auth l st a r decoded w))"
      by (auto simp: serve_api_def Let_def authMiddleware_def split: prod.split sum.split)
        (metis fst_conv)+
    then show ?thesis ..
  qed
qed

lemma checks_documented:
  "case decode_call parse uri inp oper of
     Inl rp \<Rightarrow> rp_status rp = 422 \<and> rp_status rp \<in> set (documented oper)
   | Inr c \<Rightarrow> call_operation c = oper"
proof (cases "decode_call parse uri inp oper")
  case (Inl rp)
  with invalid_input_proper [OF Inl] show ?thesis by (cases oper) (simp_all add: has_inputs_def)
next
  case (Inr c)
  with decode_call_operation [OF Inr] show ?thesis by simp
qed

end
