(* ===== verification/Token_Encoding.thy ===== *)
theory Token_Encoding
  imports Api_Key_Command
begin

text \<open>
  The token spells its random bytes: a decoder for \<open>base64.RawURLEncoding\<close> gives them back, so tokens
  from different bytes are different and none of the randomness is lost.
\<close>

section \<open>Decoding\<close>

definition base64_value :: "char \<Rightarrow> nat option" where
  "base64_value ch =
    (let n = of_char ch :: nat in
     if 65 \<le> n \<and> n < 91 then Some (n - 65)
     else if 97 \<le> n \<and> n < 123 then Some (n - 97 + 26)
     else if 48 \<le> n \<and> n < 58 then Some (n - 48 + 52)
     else if ch = CHR ''-'' then Some 62 else if ch = CHR ''_'' then Some 63 else None)"

fun base64_values :: "string \<Rightarrow> nat list option" where
  "base64_values [] = Some []"
| "base64_values (ch # cs) =
    (case (base64_value ch, base64_values cs) of (Some v, Some vs) \<Rightarrow> Some (v # vs) | _ \<Rightarrow> None)"

fun bytes_of_values :: "nat list \<Rightarrow> 8 word list option" where
  "bytes_of_values [] = Some []"
| "bytes_of_values [x] = None"
| "bytes_of_values [x, y] = (let n = x * 64 + y in Some [word_of_nat (n div 16)])"
| "bytes_of_values [x, y, z] =
    (let n = x * 4096 + y * 64 + z in Some [word_of_nat (n div 1024), word_of_nat (n div 4 mod 256)])"
| "bytes_of_values (x # y # z # u # vs) =
    (let n = x * 262144 + y * 4096 + z * 64 + u
     in map_option (\<lambda>bs. word_of_nat (n div 65536) # word_of_nat (n div 256 mod 256) # word_of_nat (n mod 256) # bs)
          (bytes_of_values vs))"

definition base64url_decode :: "string \<Rightarrow> 8 word list option" where
  "base64url_decode s = Option.bind (base64_values s) bytes_of_values"

section \<open>The round trip\<close>

lemma base64_value_digit: "n < 64 \<Longrightarrow> base64_value (base64_digit n) = Some n"
  by (auto simp: base64_value_def base64_digit_def Let_def)

text \<open>The digits of a number to the base 64, and the bytes of one to the base 256.\<close>

lemma base_64_digits:
  "(n :: nat) div 64 * 64 + n mod 64 = n"
  "n div 4096 * 4096 + n div 64 mod 64 * 64 + n mod 64 = n"
  "n div 262144 * 262144 + n div 4096 mod 64 * 4096 + n div 64 mod 64 * 64 + n mod 64 = n"
proof -
  have two: "m div 64 * 64 + m mod 64 = m" for m :: nat by (rule div_mult_mod_eq)
  have d: "n div 4096 = n div 64 div 64" "n div 262144 = n div 64 div 64 div 64"
    using div_mult2_eq [of n 64 64] div_mult2_eq [of n 4096 64] by simp_all
  define q r where "q = n div 64" and "r = q div 64"
  have n: "q * 64 + n mod 64 = n" and q: "r * 64 + q mod 64 = q" and r: "r div 64 * 64 + r mod 64 = r"
    using two [of n] two [of q] two [of r] by (simp_all only: q_def r_def)
  show "n div 64 * 64 + n mod 64 = n" by (rule two)
  from n q have "r * 4096 + q mod 64 * 64 + n mod 64 = n" by linarith
  then show "n div 4096 * 4096 + n div 64 mod 64 * 64 + n mod 64 = n" by (simp only: d q_def r_def)
  from n q r have "r div 64 * 262144 + r mod 64 * 4096 + q mod 64 * 64 + n mod 64 = n" by linarith
  then show "n div 262144 * 262144 + n div 4096 mod 64 * 4096 + n div 64 mod 64 * 64 + n mod 64 = n"
    by (simp only: d q_def r_def)
qed

lemma base_256_digits:
  assumes "b < 256" and "c < 256"
  shows "((a :: nat) * 16) div 16 = a" "(a * 1024 + b * 4) div 1024 = a" "(a * 1024 + b * 4) div 4 mod 256 = b"
    "(a * 65536 + b * 256 + c) div 65536 = a" "(a * 65536 + b * 256 + c) div 256 mod 256 = b"
    "(a * 65536 + b * 256 + c) mod 256 = c"
proof -
  have q: "(x * m + y) div m = x" "(x * m + y) mod m = y" if "y < m" for x y m :: nat
    using that by simp_all
  show "(a * 16) div 16 = a" by simp
  show "(a * 1024 + b * 4) div 1024 = a" using assms(1) by (intro q(1)) simp
  have "(a * 1024 + b * 4) div 4 = a * 256 + b"
    using q(1) [of 0 4 "a * 256 + b"] by (simp add: algebra_simps)
  then show "(a * 1024 + b * 4) div 4 mod 256 = b" using q(2) [OF assms(1)] by simp
  show "(a * 65536 + b * 256 + c) div 65536 = a"
    using q(1) [of "b * 256 + c" 65536 a] assms by (simp add: add.assoc)
  have e: "a * 65536 + b * 256 + c = (a * 256 + b) * 256 + c" by simp
  show "(a * 65536 + b * 256 + c) mod 256 = c" unfolding e by (rule q(2) [OF assms(2)])
  show "(a * 65536 + b * 256 + c) div 256 mod 256 = b"
    unfolding e q(1) [OF assms(2)] by (rule q(2) [OF assms(1)])
qed

lemma byte_bound: "unat (b :: 8 word) < 256"
  using unsigned_less [of b] by simp

lemma byte_back: "word_of_nat (unat b) = (b :: 8 word)"
  by simp

lemma digit_quotient: "(n :: nat) < m * 64 \<Longrightarrow> n div m < 64"
  by (simp add: less_mult_imp_div_less mult.commute)

lemma decode_groups:
  "n < 4096 \<Longrightarrow> base64url_decode [base64_digit (n div 64), base64_digit (n mod 64)] = Some [word_of_nat (n div 16)]"
  "n < 262144 \<Longrightarrow>
    base64url_decode [base64_digit (n div 4096), base64_digit (n div 64 mod 64), base64_digit (n mod 64)]
      = Some [word_of_nat (n div 1024), word_of_nat (n div 4 mod 256)]"
  "n < 16777216 \<Longrightarrow>
    base64url_decode (base64_digit (n div 262144) # base64_digit (n div 4096 mod 64)
        # base64_digit (n div 64 mod 64) # base64_digit (n mod 64) # s)
      = map_option (\<lambda>bs. word_of_nat (n div 65536) # word_of_nat (n div 256 mod 256) # word_of_nat (n mod 256) # bs)
          (base64url_decode s)"
proof -
  assume n: "n < 4096"
  then have "n div 64 < 64" using digit_quotient [of n 64] by simp
  then show "base64url_decode [base64_digit (n div 64), base64_digit (n mod 64)] = Some [word_of_nat (n div 16)]"
    by (simp add: base64url_decode_def base64_value_digit base_64_digits(1))
next
  assume n: "n < 262144"
  then have "n div 4096 < 64" using digit_quotient [of n 4096] by simp
  then show "base64url_decode [base64_digit (n div 4096), base64_digit (n div 64 mod 64), base64_digit (n mod 64)]
      = Some [word_of_nat (n div 1024), word_of_nat (n div 4 mod 256)]"
    by (simp add: base64url_decode_def base64_value_digit base_64_digits(2))
next
  assume n: "n < 16777216"
  then have "n div 262144 < 64" using digit_quotient [of n 262144] by simp
  then show "base64url_decode (base64_digit (n div 262144) # base64_digit (n div 4096 mod 64)
        # base64_digit (n div 64 mod 64) # base64_digit (n mod 64) # s)
      = map_option (\<lambda>bs. word_of_nat (n div 65536) # word_of_nat (n div 256 mod 256) # word_of_nat (n mod 256) # bs)
          (base64url_decode s)"
    by (cases "base64_values s") (simp_all add: base64url_decode_def base64_value_digit base_64_digits(3))
qed

lemma base64url_round_trip: "base64url_decode (base64url bs) = Some bs"
proof (induction bs rule: base64url.induct)
  case 1
  show ?case by (simp add: base64url_decode_def)
next
  case (2 a)
  have "unat a * 16 < 4096" using byte_bound [of a] by simp
  from decode_groups(1) [OF this] show ?case unfolding base64url.simps Let_def by simp
next
  case (3 a b)
  have "unat a * 1024 + unat b * 4 < 262144" using byte_bound [of a] byte_bound [of b] by simp
  from decode_groups(2) [OF this] show ?case unfolding base64url.simps Let_def
    by (simp only: base_256_digits(2,3) [OF byte_bound byte_bound] byte_back)
next
  case (4 a b c cs)
  have "unat a * 65536 + unat b * 256 + unat c < 16777216"
    using byte_bound [of a] byte_bound [of b] byte_bound [of c] by simp
  from decode_groups(3) [OF this, of "base64url cs"] 4 [OF refl] show ?case unfolding base64url.simps Let_def
    by (simp only: base_256_digits(4-6) [OF byte_bound byte_bound] byte_back option.map)
qed

lemma token_determines_bytes:
  assumes "generateToken (Inr bs) = Inr token" and "generateToken (Inr cs) = Inr token"
  shows "cs = bs"
proof -
  have "token_prefix @ base64url bs = token_prefix @ base64url cs" using assms by (simp add: generateToken_def)
  then have "base64url bs = base64url cs" by (rule same_append_eq [THEN iffD1])
  then have "Some bs = Some cs" using base64url_round_trip by metis
  then show ?thesis by simp
qed

end
