(* ===== verification/Enum_Columns.thy ===== *)
theory Enum_Columns
  imports Store
begin

text \<open>
  How the enum columns travel (\<open>internal/db/data/models.go\<close>): the strings of the constants, \<open>Scan\<close> from
  what the driver delivers and \<open>Value\<close> back, for the types and for their nullable companions. The three
  types have the same code but for the name in the error; \<open>Scan\<close> accepts every string, and it is the
  enum type of the column that keeps others out.
\<close>

section \<open>Constants\<close>

fun session_mode_text :: "session_mode \<Rightarrow> string" where
  "session_mode_text ModeDefault = ''default''"
| "session_mode_text ModeDedicated = ''dedicated''"

fun session_status_text :: "session_status \<Rightarrow> string" where
  "session_status_text Pending = ''pending''"
| "session_status_text Running = ''running''"
| "session_status_text Completed = ''completed''"
| "session_status_text Failed = ''failed''"
| "session_status_text Expired = ''expired''"

fun worker_status_text :: "worker_status \<Rightarrow> string" where
  "worker_status_text Available = ''available''"
| "worker_status_text Draining = ''draining''"
| "worker_status_text Stalled = ''stalled''"
| "worker_status_text ShuttingDown = ''shutting_down''"

section \<open>Scan and Value\<close>

text \<open>What the driver delivers; \<open>DriverOther\<close> is a value of any other type, with the type's name.\<close>

datatype driver_value = DriverNull | DriverBytes string | DriverString string | DriverOther string

fun type_name :: "driver_value \<Rightarrow> string" where
  "type_name DriverNull = ''<nil>''"
| "type_name (DriverBytes s) = ''[]uint8''"
| "type_name (DriverString s) = ''string''"
| "type_name (DriverOther t) = t"

text \<open>The error, if any, and the value left in the receiver.\<close>

definition scan_enum :: "string \<Rightarrow> driver_value \<Rightarrow> string \<Rightarrow> error option \<times> string" where
  "scan_enum name src old =
    (case src of
       DriverBytes s \<Rightarrow> (None, s)
     | DriverString s \<Rightarrow> (None, s)
     | _ \<Rightarrow> (Some (Text (''unsupported scan type for '' @ name @ '': '' @ type_name src)), old))"

record null_enum =
  ne_value :: string
  ne_valid :: bool

definition scan_null :: "string \<Rightarrow> driver_value \<Rightarrow> null_enum \<Rightarrow> error option \<times> null_enum" where
  "scan_null name src ns =
    (if src = DriverNull then (None, \<lparr>ne_value = [], ne_valid = False\<rparr>)
     else (case scan_enum name src (ne_value ns) of (e, v) \<Rightarrow> (e, \<lparr>ne_value = v, ne_valid = True\<rparr>)))"

definition null_value :: "null_enum \<Rightarrow> driver_value" where
  "null_value ns = (if \<not> ne_valid ns then DriverNull else DriverString (ne_value ns))"

definition SessionMode_Scan :: "driver_value \<Rightarrow> string \<Rightarrow> error option \<times> string" where
  "SessionMode_Scan = scan_enum ''SessionMode''"

definition SessionStatus_Scan :: "driver_value \<Rightarrow> string \<Rightarrow> error option \<times> string" where
  "SessionStatus_Scan = scan_enum ''SessionStatus''"

definition WorkerStatus_Scan :: "driver_value \<Rightarrow> string \<Rightarrow> error option \<times> string" where
  "WorkerStatus_Scan = scan_enum ''WorkerStatus''"

definition NullSessionMode_Scan :: "driver_value \<Rightarrow> null_enum \<Rightarrow> error option \<times> null_enum" where
  "NullSessionMode_Scan = scan_null ''SessionMode''"

definition NullSessionStatus_Scan :: "driver_value \<Rightarrow> null_enum \<Rightarrow> error option \<times> null_enum" where
  "NullSessionStatus_Scan = scan_null ''SessionStatus''"

definition NullWorkerStatus_Scan :: "driver_value \<Rightarrow> null_enum \<Rightarrow> error option \<times> null_enum" where
  "NullWorkerStatus_Scan = scan_null ''WorkerStatus''"

definition NullSessionMode_Value :: "null_enum \<Rightarrow> driver_value" where
  "NullSessionMode_Value = null_value"

definition NullSessionStatus_Value :: "null_enum \<Rightarrow> driver_value" where
  "NullSessionStatus_Value = null_value"

definition NullWorkerStatus_Value :: "null_enum \<Rightarrow> driver_value" where
  "NullWorkerStatus_Value = null_value"

section \<open>Round trips\<close>

lemma enum_texts_differ:
  "session_mode_text m = session_mode_text m' \<longleftrightarrow> m = m'"
  "session_status_text s = session_status_text s' \<longleftrightarrow> s = s'"
  "worker_status_text w = worker_status_text w' \<longleftrightarrow> w = w'"
proof -
  show "session_mode_text m = session_mode_text m' \<longleftrightarrow> m = m'" by (cases m; cases m') simp_all
  show "session_status_text s = session_status_text s' \<longleftrightarrow> s = s'" by (cases s; cases s') simp_all
  show "worker_status_text w = worker_status_text w' \<longleftrightarrow> w = w'" by (cases w; cases w') simp_all
qed

lemma scan_string [simp]:
  "scan_enum name (DriverString s) old = (None, s)" "scan_enum name (DriverBytes s) old = (None, s)"
  by (simp_all add: scan_enum_def)

text \<open>
  What \<open>Value\<close> writes \<open>Scan\<close> reads back, whatever the receiver held; an invalid value loses only a
  string it should not have.
\<close>

lemma null_round_trip:
  "scan_null name (null_value ns) old = (None, if ne_valid ns then ns else \<lparr>ne_value = [], ne_valid = False\<rparr>)"
  by (simp add: scan_null_def null_value_def)

text \<open>A failed scan marks the companion valid all the same, with the receiver's old string.\<close>

lemma failed_scan_is_valid:
  "scan_null name (DriverOther t) ns =
    (Some (Text (''unsupported scan type for '' @ name @ '': '' @ t)), ns\<lparr>ne_valid := True\<rparr>)"
  by (simp add: scan_null_def scan_enum_def)

end
