(* ===== verification/Handler_Examples.thy ===== *)
theory Handler_Examples
  imports Examples Attach_Run Cancelled_Start Lost_Sessions Replies Token_Encoding Enum_Columns
begin

text \<open>
  Runs of one server's handlers on the claimed session of \<open>Examples\<close>: a dial that succeeds, and a
  dial that fails on a server that then drains; and a registration as it comes in.
\<close>

section \<open>Databases and nodes\<close>

definition started_a :: database where
  "started_a = set_sessions [UUID 7] (start_row 3000000) claimed_a"

definition failed_a :: database where
  "failed_a = (notify \<circ> set_sessions [UUID 7] (\<lambda>s. s\<lparr>sstatus := Failed\<rparr>)) started_a"

lemma sessions_after:
  "sessions started_a = [start_row 3000000 session_a]"
  "sessions failed_a = [(start_row 3000000 session_a)\<lparr>sstatus := Failed\<rparr>]"
  by (simp_all add: started_a_def failed_a_def claimed_a_eq effect_targets update_where_def session_a_eq start_row_def)

lemma claimed_a_fine: "fleet_ok claimed_a"
proof -
  have "claim_inv \<lparr>fdb = claimed_a, claims = [Idle]\<rparr>"
    by (rule claiming.reaches_inv [OF claimed_a_reached]) (simp only: start_inv fleet_a_ok)
  then show ?thesis by (simp add: claim_inv_def)
qed

lemma starts_a: "sent (StartSession (UUID 7)) claimed_a (Inr (start_row 3000000 session_a)) True started_a"
proof -
  have "StartSession (UUID 7) 3000000 claimed_a
      = Inr (start_row 3000000 session_a, id \<circ> set_sessions [UUID 7] (start_row 3000000))"
    by (simp add: StartSession_def update_session_Inr claimed_a_eq session_a_eq)
  from sent_done [where q = "StartSession (UUID 7)", OF this] show ?thesis by (simp add: started_a_def)
qed

lemma fails_a: "sent (FailSession (UUID 7)) started_a (Inr ((start_row 3000000 session_a)\<lparr>sstatus := Failed\<rparr>)) True failed_a"
proof -
  have "FailSession (UUID 7) 3000000 started_a
      = Inr ((start_row 3000000 session_a)\<lparr>sstatus := Failed\<rparr>,
          notify \<circ> set_sessions [UUID 7] (\<lambda>s. s\<lparr>sstatus := Failed\<rparr>))"
    by (simp add: FailSession_def update_session_Inr sessions_after session_a_eq start_row_def active_def)
  from sent_done [where q = "FailSession (UUID 7)", OF this] show ?thesis by (simp add: failed_a_def)
qed

section \<open>A server with one client\<close>

lemmas registering_reached = first_client(2) [OF starts_a]

definition drained_node :: node where
  "drained_node = node_at (UUID 7) failed_a (begin_draining NewManager) [Gone] Drained"

lemma drained_node_reached: "reaches (handler_step opts) (fresh_node claimed_a 0) drained_node"
proof -
  let ?n = "\<lambda>d m h. node_at (UUID 7) d m [h]"
  have s1: "handler_step opts (?n started_a one_attached (Dialing (UUID 7)) Serving)
      (?n started_a one_attached (Failing (UUID 7)) Serving)"
    using hs_dial_failed [of "?n started_a one_attached (Dialing (UUID 7)) Serving" 0 "UUID 7" opts]
    by (simp add: node_at_simps)
  have s2: "handler_step opts (?n started_a one_attached (Failing (UUID 7)) Serving)
      (?n failed_a one_attached (Releasing (UUID 7)) Serving)"
    using hs_failed [of "?n started_a one_attached (Failing (UUID 7)) Serving" 0 "UUID 7" _ True failed_a opts] fails_a
    by (simp add: node_at_simps)
  have s3: "handler_step opts (?n failed_a one_attached (Releasing (UUID 7)) Serving) (?n failed_a NewManager Gone Serving)"
    using hs_release [of "?n failed_a one_attached (Releasing (UUID 7)) Serving" 0 "UUID 7" NewManager opts]
    by (simp add: node_at_simps Release_def wg_Done_def NewManager_def)
  have s4: "handler_step opts (?n failed_a NewManager Gone Serving) (?n failed_a (begin_draining NewManager) Gone Waiting)"
    using hs_shutdown [of "?n failed_a NewManager Gone Serving" opts] by (simp add: node_at_simps)
  have s5: "handler_step opts (?n failed_a (begin_draining NewManager) Gone Waiting) drained_node"
    using hs_drained [of "?n failed_a (begin_draining NewManager) Gone Waiting" opts]
    by (simp add: node_at_simps drained_node_def begin_draining_def NewManager_def)
  from first_client(1) [OF starts_a, of opts] s1 s2 s3 s4 s5 show ?thesis by (meson reaches_step)
qed

section \<open>A registration\<close>

text \<open>The body of the registration of \<open>Examples\<close>, as it passes its checks.\<close>

definition register_input :: "unit api_input" where
  "register_input = \<lparr>in_id = [],
     in_create = \<lparr>cb_browser = None, cb_mode = None, cb_version = None, cb_metadata = None\<rparr>,
     in_register = \<lparr>rb_address = Some ''ws://c:3000'', rb_browser = Some ''chromium'', rb_version = Some ''1.50.2'',
       rb_max_slots = Some 2\<rparr>,
     in_status = None, in_reported = None, in_new_id = UUID 3, in_admit = admit_a, in_depth = 0\<rparr>"

lemma register_input_decodes:
  "decode_call (\<lambda>_. Inl (Text ''invalid UUID'')) (\<lambda>_. True) register_input RegisterWorkerOp
    = Inr (CallRegisterWorker (UUID 3) register_a)"
proof -
  have "address_pattern ''ws://c:3000'' \<and> rune_count ''ws://c:3000'' = 11
      \<and> worker_version_pattern ''1.50.2'' \<and> rune_count ''1.50.2'' = 6" by code_simp
  then show ?thesis
    by (simp add: register_input_def check_register_def validBrowser_def or_invalid_def register_a_def)
qed

definition register_route :: route where
  "register_route = \<lparr>rt_method = ''POST'', rt_path = ''/internal/workers'', rt_operation = RegisterWorkerOp,
     rt_auth = True\<rparr>"

lemma register_route_declared: "register_route \<in> set api_routes"
  by (simp add: register_route_def api_routes_def group_routes_def worker_routes_def)

end
