(* ===== verification/Key_Table.thy ===== *)
theory Key_Table
  imports Key_Lifecycle
begin

text \<open>
  The table that \<open>apikey list\<close> writes (\<open>List\<close> and \<open>formatTime\<close> in \<open>internal/apikey/command.go\<close>), as the
  lines it hands to the table writer, which aligns their cells. \<open>UUID.String\<close> and the UTC text of a
  time in \<open>time.RFC3339Nano\<close> are parameters.
\<close>

definition formatTime :: "(int \<Rightarrow> string) \<Rightarrow> int option \<Rightarrow> string" where
  "formatTime rfc3339 value = (case value of None \<Rightarrow> ''-'' | Some t \<Rightarrow> rfc3339 t)"

definition table_header :: "string list" where
  "table_header = [''ID'', ''NAME'', ''PREFIX'', ''CREATED_AT'', ''LAST_USED_AT'', ''REVOKED_AT'']"

definition key_cells :: "(uuid \<Rightarrow> string) \<Rightarrow> (int \<Rightarrow> string) \<Rightarrow> api_key \<Rightarrow> string list" where
  "key_cells uuid_string rfc3339 k =
     [uuid_string (kid k), kname k, kprefix k, formatTime rfc3339 (Some (kcreated k)),
      formatTime rfc3339 (klast_used k), formatTime rfc3339 (krevoked k)]"

fun tabbed :: "string list \<Rightarrow> string" where
  "tabbed [] = [CHR 0x0A]"
| "tabbed [c] = c @ [CHR 0x0A]"
| "tabbed (c # cs) = c @ CHR 0x09 # tabbed cs"

definition List_lines :: "(uuid \<Rightarrow> string) \<Rightarrow> (int \<Rightarrow> string) \<Rightarrow> command_env \<Rightarrow> world
    \<Rightarrow> (error option \<times> string list) \<times> world" where
  "List_lines uuid_string rfc3339 env w =
    (case List_keys env w of
       ((Some e, _), w1) \<Rightarrow> ((Some e, []), w1)
     | ((None, ks), w1) \<Rightarrow> ((None, map tabbed (table_header # map (key_cells uuid_string rfc3339) ks)), w1))"

text \<open>The table shows nothing of the digests: two databases that differ only in them give the same lines.\<close>

definition without_hash :: "api_key \<Rightarrow> api_key" where
  "without_hash k = k\<lparr>khash := []\<rparr>"

lemma cells_hide_hash: "key_cells u r (without_hash k) = key_cells u r k"
  by (simp add: key_cells_def without_hash_def)

lemma map_sort_key:
  assumes "\<And>x. key (f x) = key x"
  shows "map f (sort_key key xs) = sort_key key (map f xs)"
proof -
  have "map f (insort_key key x ys) = insort_key key (f x) (map f ys)" for x ys
    by (induction ys) (simp_all add: assms)
  then show ?thesis by (induction xs) simp_all
qed

lemma list_lines_calm:
  "List_lines u r env (calm d t) =
    ((case cm_print env of
        Some p \<Rightarrow> (Some (Wrap ''flushing api key list'' p), [])
      | None \<Rightarrow> (None, map tabbed (table_header #
          map (key_cells u r) (sort_key (\<lambda>k. (kcreated k, kid k)) (map without_hash (api_keys d)))))), calm d t)"
proof -
  let ?key = "\<lambda>k. (kcreated k, kid k)"
  have "map (key_cells u r) (sort_key ?key ks) = map (key_cells u r) (map without_hash (sort_key ?key ks))" for ks
    by (simp add: cells_hide_hash)
  also have "\<dots> ks = map (key_cells u r) (sort_key ?key (map without_hash ks))" for ks
    by (subst map_sort_key) (simp_all add: without_hash_def)
  finally show ?thesis
    by (simp add: List_lines_def List_keys_def ListAPIKeys_def split: option.split)
qed

lemma table_hides_digests:
  "map without_hash (api_keys d) = map without_hash (api_keys d') \<Longrightarrow>
    fst (List_lines u r env (calm d t)) = fst (List_lines u r env (calm d' t))"
  by (simp only: list_lines_calm fst_conv)

text \<open>A cell of a time is \<open>-\<close> exactly when there is none: the last column tells the revoked keys.\<close>

lemma revoked_shows:
  "\<forall>t. r t \<noteq> ''-'' \<Longrightarrow> last (key_cells u r k) = ''-'' \<longleftrightarrow> krevoked k = None"
  by (simp add: key_cells_def formatTime_def split: option.split)

end
