(* ===== verification/Spec2Isabelle.thy ===== *)
theory Spec2Isabelle
  imports Handler_Examples Key_Table
begin

text \<open>
  The control plane of playwright-distributed (\<open>src/server\<close>, Go): it hands browser sessions to
  registered Playwright workers, relays WebSocket traffic between clients and workers, and recovers
  from lost machines. Any number of server processes share one PostgreSQL database.

  \<^bold>\<open>Parts and theories.\<close>
  \<^item> \<open>Prelude\<close>: identifiers, Go's error values (\<open>errors.Is\<close>, \<open>As\<close>, \<open>Join\<close>), 64-bit durations, tables
    as lists of rows, runs of a step relation and the locales \<open>invariant_system\<close>,
    \<open>monotone_system\<close> and \<open>simulation\<close> for them.
  \<^item> \<open>Store\<close>: rows and enums (\<open>internal/db/data/models.go\<close> and the schema's constraints), statements,
    transactions, and the surroundings of a round trip: what others commit before it, the time that
    passes, the rows others hold locked, and whether it fails with its effect applied or not.
    \<open>Enum_Columns\<close>: the texts of the enums, \<open>Scan\<close> and \<open>Value\<close>.
  \<^item> \<open>Worker_Queries\<close>, \<open>Session_Queries\<close>, \<open>Key_Queries\<close>: the SQL statements of \<open>internal/db/data\<close>,
    one definition per query, named as in the code. \<open>Schema_Facts\<close>: each of them keeps the schema.
  \<^item> \<open>Scheduler\<close>: \<open>internal/scheduler/scheduler.go\<close>: claims, admission, the waiting queue, heartbeats.
    \<open>Claim_Facts\<close> and \<open>Admission\<close>: what a claim and an admission did to the database, on every branch.
  \<^item> \<open>Fleet\<close>: all statements of the program as one step relation \<open>store_step\<close>. \<open>Claim_Protocol\<close>: claims
    of many servers, statement by statement, between steps of everything else; the invariant
    \<open>claim_inv\<close>; and the proof that \<open>Admit\<close> follows this protocol. \<open>Worker_Life\<close>: what a step does to a
    worker. \<open>Allocator\<close>: the abstract slot allocator that the protocol implements.
  \<^item> \<open>Waker\<close>: \<open>waker.go\<close> and \<open>listener.go\<close>. \<open>Wakeups\<close>: how freed capacity reaches a waiting request.
    \<open>Queue\<close>: the waiting queue under concurrent requests.
  \<^item> \<open>Rescuer\<close>: \<open>internal/rescuer/rescuer.go\<close>. \<open>Heartbeat_Facts\<close>: the exact effect of a heartbeat and
    the atomicity of transactions.
  \<^item> \<open>Version\<close>: \<open>internal/relay/version.go\<close>. \<open>Relay_Manager\<close> and \<open>Relay_Run\<close>: \<open>manager.go\<close>, the shared
    state with its shutdown, and one relay. \<open>Shutdown\<close>: that a forced shutdown comes to its end.
    \<open>Peers\<close>: the handlers and read deadlines of the two connections, and their closing.
  \<^item> \<open>Handlers\<close>: the attachments of one server (\<open>attach\<close> of \<open>relay.go\<close> with \<open>Run\<close> of \<open>manager.go\<close>) as
    concurrent handlers over the shared database, a step relation that simulates both the manager's
    protocol \<open>relay_step\<close> and the claim protocol \<open>claim_step\<close>. \<open>Handler_Sessions\<close>: its invariant, that no
    two handlers work on one session and that a running session has a handler that owes its end.
    \<open>Lost_Sessions\<close>: the sweep ends what a server could not.
    \<open>Attach_Run\<close>: the function \<open>attach\<close> is a run of it. \<open>Cancelled_Start\<close>: the run in which a cancelled
    \<open>StartSession\<close> fails the session of another client.
  \<^item> \<open>Auth\<close>, \<open>Relay_Handlers\<close>, \<open>Api_Handlers\<close>, \<open>Http_Server\<close>: \<open>internal/httpapi\<close>: authenticators and
    middleware, WebSocket endpoints, the REST handlers, the API's routes, which come from the
    declarations of \<open>Operations\<close>. \<open>Routing\<close>: the options and patterns of the whole handler, and the
    dispatch of a request of any method and path. \<open>Input_Checks\<close>: the checks of the inputs' tags and the
    calls that pass them. \<open>Replies\<close>: every status the API answers with. The locale \<open>authenticator\<close> is what
    the callers of an authenticator rely on; both of the program's satisfy it.
  \<^item> \<open>Api_Key_Command\<close>: \<open>internal/apikey/command.go\<close>. \<open>Token_Encoding\<close>: that a token spells
    its random bytes. \<open>Command_Line\<close>: that every spelling of a command parses.
    \<open>Key_Table\<close>: the table of \<open>apikey list\<close>. \<open>Key_Lifecycle\<close>: the life of a key across the command line
    and the authenticator.
  \<^item> \<open>Config\<close>, \<open>Server_Main\<close>: \<open>internal/config/config.go\<close>, \<open>cmd/server/main.go\<close>, \<open>internal/db/db.go\<close> and
    \<open>migrate.go\<close>.
  \<^item> \<open>Examples\<close>, \<open>Handler_Examples\<close>: a small fleet and its runs, on which the properties below are
    instantiated.

  \<^bold>\<open>How the model corresponds to the code.\<close> A function that talks to the database takes and returns a
  \<open>world\<close>: the committed database, the clock, and a script with one \<open>beat\<close> for each round trip; an
  empty script means undisturbed execution (\<open>calm\<close>). Each Go error is a value; \<open>fmt.Errorf\<close> with \<open>%w\<close>
  is \<open>Wrap\<close> or \<open>Pair\<close>. A loop that waits for events takes the list of what happens to it and returns
  \<open>None\<close> when the list ends while it is still waiting; nothing is proved only for the runs that
  return. Inside the manager and the waker every section under the mutex is one operation. Durations
  are integers wrapped to 64 bits where the code computes with them; a panic of \<open>rand.Int64N\<close> or of a
  wait group is \<open>None\<close>.

  \<^bold>\<open>Bounds and fuel.\<close> \<open>claim_attempts\<close> recurses on the number of attempts left, at most
  \<open>maxClaimAttempts\<close>, as the code's loop; \<open>trim_fuel\<close> removes at least one character per step and is
  started with the length of the string. The two deadlines of a close and the query that follows fit
  the budget the shutdown reserves (\<open>closeConnections_ends\<close>). All other recursions are structural.

  \<^bold>\<open>Parameters.\<close> SHA-256 (\<open>digest\<close>), \<open>time.ParseDuration\<close>, the format \<open>uri\<close>, \<open>uuid.Parse\<close> and
  \<open>UUID.String\<close>, the text of a time, \<open>url.Parse\<close>, the random source, and the results of pgxpool, goose,
  net/http, huma and gorilla/websocket calls are arguments of the definitions.

  \<^bold>\<open>Not modelled.\<close> \<open>cmd/openapi\<close> (prints the framework's document), \<open>db/data/db.go\<close> (generated
  plumbing), \<open>migrations.go\<close> (an embed directive), log lines, the text of HTTP problem details, and the
  worker program, which is written in TypeScript.
\<close>

section \<open>Claims of many servers against one database\<close>

text \<open>
  C1: no interleaving of claims from any number of servers with every other statement of the
  program gives a worker more active sessions than it has slots.
\<close>

theorem no_overbooking:
  assumes "fleet_ok d" and "reaches (claim_step opts) \<lparr>fdb = d, claims = replicate n Idle\<rparr> f"
    and "w \<in> set (workers (fdb f))"
  shows "count_active (fdb f) (wid w) \<le> wmax_slots w"
proof -
  have "claim_inv f"
    using claiming.reaches_inv [OF assms(2)] assms(1) by (simp add: start_inv)
  with assms(3) show ?thesis by (simp add: claim_inv_def fleet_ok_def)
qed

theorem no_overbooking_witness:
  "count_active claimed_a (UUID 1) \<le> 1"
  using no_overbooking [OF fleet_a_ok(2) claimed_a_reached, of "worker_a\<lparr>wlifetime := 4\<rparr>"]
  by (simp add: claimed_a_eq worker_a_def)

text \<open>
  C2: the fleet implements an allocator of slots: seen through the workers' slots and counts of
  active sessions, every run of the claim protocol, with its transactions, locks and stale
  snapshots, is a run of a machine that gives a slot only while one is free, gives slots back,
  admits new workers with room, and lets only idle workers go.
\<close>

theorem fleet_implements_allocator:
  assumes "fleet_ok d" and "reaches (claim_step opts) \<lparr>fdb = d, claims = replicate n Idle\<rparr> f"
  shows "pool_ok (pool_of d) \<and> reaches alloc_step (pool_of d) (pool_of (fdb f))"
proof -
  have "claim_inv \<lparr>fdb = d, claims = replicate n Idle\<rparr>" using assms(1) by (simp add: start_inv)
  from allocation.reaches_abs [OF assms(2) this] fleet_pool_ok [OF assms(1)] show ?thesis by simp
qed

theorem fleet_implements_allocator_witness:
  "reaches alloc_step (pool_of fleet_a) (pool_of claimed_a)"
  using fleet_implements_allocator [OF fleet_a_ok(2) claimed_a_reached] by simp

text \<open>
  C3: a claim that is about to commit holds a worker whose row is unchanged since it was locked:
  still available, with room for the session; the session carries its address, browser and version
  and an identifier nobody has.
\<close>

theorem claim_commits_on_available_worker:
  assumes "fleet_ok d" and "reaches (claim_step opts) \<lparr>fdb = d, claims = replicate n Idle\<rparr> f"
    and "Incremented w s \<in> set (claims f)"
  shows "w \<in> set (workers (fdb f)) \<and> wstatus w = Available
    \<and> count_active (fdb f) (wid w) < wmax_slots w
    \<and> sworker s = wid w \<and> saddress s = waddress w \<and> sbrowser s = wbrowser w \<and> sversion s = wversion w
    \<and> sid s \<notin> set (map sid (sessions (fdb f)))"
proof -
  have "claim_inv f"
    using claiming.reaches_inv [OF assms(2)] assms(1) by (simp add: start_inv)
  with assms(3) have "pc_ok (fdb f) (Incremented w s)"
    by (auto simp: claim_inv_def list_all_iff)
  then show ?thesis by (simp add: routed_def)
qed

theorem claim_commits_on_available_worker_witness:
  "wstatus worker_a = Available \<and> count_active fleet_a (wid worker_a) < wmax_slots worker_a"
  using claim_commits_on_available_worker [OF fleet_a_ok(2) incremented_a_reached, of worker_a session_a]
  by simp

text \<open>
  C4: in every reachable state an active session has a worker row with the address the relay dials,
  so no sweep, drain or deletion of workers orphans a live session.
\<close>

theorem active_sessions_have_their_worker:
  assumes "fleet_ok d" and "reaches (claim_step opts) \<lparr>fdb = d, claims = replicate n Idle\<rparr> f"
    and "s \<in> set (sessions (fdb f))" and "active s"
  shows "\<exists>w \<in> set (workers (fdb f)). wid w = sworker s \<and> waddress w = saddress s
    \<and> wbrowser w = sbrowser s \<and> wversion w = sversion s"
proof -
  have "claim_inv f"
    using claiming.reaches_inv [OF assms(2)] assms(1) by (simp add: start_inv)
  then have "fleet_ok (fdb f)" by (simp add: claim_inv_def)
  with assms(3,4) obtain w where "w \<in> set (workers (fdb f))" "routed s w"
    unfolding fleet_ok_def by blast
  then show ?thesis by (auto simp: routed_def)
qed

theorem active_sessions_have_their_worker_witness:
  "\<exists>w \<in> set (workers claimed_a). waddress w = ''ws://a:3000''"
  using active_sessions_have_their_worker [OF fleet_a_ok(2) claimed_a_reached, of session_a]
  by (auto simp: claimed_a_eq session_a_eq active_def)

text \<open>
  C5: along every run a session row survives, keeps the fields it was created with, moves only
  along the session state machine, and is frozen once it is completed, failed or expired.
\<close>

theorem sessions_move_forward:
  assumes "fleet_ok d" and "reaches (claim_step opts) \<lparr>fdb = d, claims = replicate n Idle\<rparr> f"
    and "reaches (claim_step opts) f g" and "lookup_row sid i (sessions (fdb f)) = Some s"
  shows "\<exists>t. lookup_row sid i (sessions (fdb g)) = Some t \<and> same_session s t
    \<and> session_next\<^sup>*\<^sup>* (sstatus s) (sstatus t) \<and> (terminal (sstatus s) \<longrightarrow> t = s)"
proof -
  have "claim_inv f"
    using claiming.reaches_inv [OF assms(2)] assms(1) by (simp add: start_inv)
  then have "session_history (fdb f) (fdb g)"
    by (rule histories.reaches_rel [OF assms(3)])
  with assms(4) show ?thesis unfolding session_history_def by blast
qed

theorem sessions_move_forward_witness:
  "\<exists>t. lookup_row sid (UUID 7) (sessions claimed_a) = Some t
    \<and> session_next\<^sup>*\<^sup>* Pending (sstatus t)"
  using sessions_move_forward [OF fleet_a_ok(2) claimed_a_reached reaches_refl, of "UUID 7" session_a]
  by (auto simp: claimed_a_eq session_a_eq)

text \<open>
  C6: the admission path of the code, with all its retries, failed round trips and lost answers, is a run
  of the claim protocol beside its rivals. Before each of its round trips, as its trace lists them, the
  rival claims and all other statements take any steps of the protocol that are open while this claim is
  where it is; assumed of the surroundings is only that the selection finds the rivals' rows locked (and
  maybe more) and that no rival has inserted the random identifier drawn here and not yet committed it.
  The trace has one entry for each round trip.
\<close>

theorem admission_follows_protocol:
  assumes "company opts rivals (Admit_trace opts req env depth w) rivals'"
    and "Admit opts req env depth w = (out, depth', w')"
  shows "reaches (claim_step opts) \<lparr>fdb = wdb w, claims = Idle # rivals\<rparr> \<lparr>fdb = wdb w', claims = Idle # rivals'\<rparr>
    \<and> paced (Admit_trace opts req env depth w) (script w) (script w')"
  using admit_in_company [OF assms] admit_paced [OF assms(2)] by (simp add: conf_def)

theorem admission_follows_protocol_witness:
  "reaches (claim_step options_a) \<lparr>fdb = fleet_a, claims = [Idle, Idle]\<rparr>
    \<lparr>fdb = wdb (snd (snd (Admit options_a request_a admit_a 0
        \<lparr>wdb = fleet_a, clock = 2000000, script = [quiet, rival_beat]\<rparr>))), claims = [Idle, Idle]\<rparr>"
  using admission_follows_protocol [OF admit_contested] unfolding contested_def
  by (simp add: prod_eq_iff)

text \<open>
  C7: a request commits at most one session. If \<open>Admit\<close> returns a session, exactly that claim was
  committed; if it returns an error, nothing was, unless the answer to a commit was lost, and then
  the error says so and the claim is not repeated.
\<close>

theorem admits_at_most_one_session:
  "case Admit opts req env q w of
     (None, _, w') \<Rightarrow> disturbed w w'
   | (Some (Inr s), _, w') \<Rightarrow> one_claim opts req w w' s
   | (Some (Inl e), _, w') \<Rightarrow> disturbed w w'
       \<or> (errors_Is e ErrUncertainCommit \<and> (\<exists>s. one_claim opts req w w' s))"
proof -
  obtain out q' w' where "Admit opts req env q w = (out, q', w')" by (cases "Admit opts req env q w") auto
  with Admit_once [OF this] show ?thesis
    by (simp add: claims_once_def split: option.splits sum.splits)
qed

section \<open>One claim and the queue\<close>

text \<open>
  C8: in an undisturbed database a claim succeeds exactly when a claimable worker exists, and its
  result and its write are those of the first candidate: the session is inserted as pending on that
  worker and the worker's lifetime counter goes up by one. Restarts are staggered: the first candidate
  has the largest lifetime counter among all workers the claim could take, and among those the
  fewest active sessions.
\<close>

theorem claim_takes_first_candidate:
  assumes "schema_ok d" and "list_all (\<lambda>w. insert_possible req n w d) (workers d)"
  shows "claimOnce opts req n ex (calm d t) =
    (case claim_candidates (select_params opts req ex) t d of
       [] \<Rightarrow> (Inl (ErrNoCapacity, None), calm d t)
     | w # _ \<Rightarrow> (let s = claimed_row (insert_params opts req n w) t in
         (Inr s, calm (set_workers [wid w] (\<lambda>w. w\<lparr>wlifetime := wlifetime w + 1\<rparr>) (insert_session s d)) t)))
   \<and> (\<forall>w ws. claim_candidates (select_params opts req ex) t d = w # ws \<longrightarrow>
       (\<forall>v \<in> set (workers d). claimable t (select_params opts req ex) (count_active d (wid v)) v \<longrightarrow>
          wlifetime v < wlifetime w
          \<or> wlifetime v = wlifetime w \<and> count_active d (wid w) \<le> count_active d (wid v)))"
proof
  have "claimOnce opts req n ex (calm d t) =
    (case claim_candidates (select_params opts req ex) t d of
       [] \<Rightarrow> (Inl (ErrNoCapacity, None), calm d t)
     | w # _ \<Rightarrow> (let s = claimed_row (insert_params opts req n w) t in
         (Inr s, calm (claim_effect w s d) t)))"
    using assms by (intro claimOnce_calm) (auto simp: list_all_iff)
  then show "claimOnce opts req n ex (calm d t) =
    (case claim_candidates (select_params opts req ex) t d of
       [] \<Rightarrow> (Inl (ErrNoCapacity, None), calm d t)
     | w # _ \<Rightarrow> (let s = claimed_row (insert_params opts req n w) t in
         (Inr s, calm (set_workers [wid w] (\<lambda>w. w\<lparr>wlifetime := wlifetime w + 1\<rparr>) (insert_session s d)) t)))"
    by (simp add: claim_effect_def Let_def split: list.split)
next
  show "\<forall>w ws. claim_candidates (select_params opts req ex) t d = w # ws \<longrightarrow>
       (\<forall>v \<in> set (workers d). claimable t (select_params opts req ex) (count_active d (wid v)) v \<longrightarrow>
          wlifetime v < wlifetime w
          \<or> wlifetime v = wlifetime w \<and> count_active d (wid w) \<le> count_active d (wid v))"
    by (auto dest!: first_candidate_least simp: claim_key_def less_eq_prod_def)
qed

theorem claim_takes_first_candidate_witness:
  "fst (claimOnce options_a request_a (UUID 7) [] (calm fleet_b 2000000))
    = Inr (claimed_row (insert_params options_a request_a (UUID 7) worker_b) 2000000)"
  using claim_takes_first_candidate [OF fleet_b_ok(1) possible_b, of options_a "[]" 2000000]
  by (simp add: candidates_b Let_def)

text \<open>
  C9: the capacity report is honest: it has exactly one row for each browser with a worker that takes
  claims, busy or idle, or with an active session; and the row of a browser shows a free slot exactly
  when the selection of a claim for that browser, without a version, finds a worker.
\<close>

theorem capacity_report_is_claimable:
  assumes "schema_ok d"
  shows "\<exists>rows. Capacity opts depth (calm d t)
      = (Inr \<lparr>cap_browsers = rows, cap_queued = depth, cap_max_queue = so_max_queue opts\<rparr>, calm d t)
    \<and> distinct (map cr_browser rows)
    \<and> (\<forall>b. b \<in> cr_browser ` set rows \<longleftrightarrow>
        (\<exists>w \<in> set (workers d). wbrowser w = b \<and> wstatus w = Available
           \<and> t - microseconds (so_worker_ttl opts) < wheartbeat w
           \<and> (so_max_lifetime opts = 0 \<or> wlifetime w < so_max_lifetime opts))
        \<or> (\<exists>s \<in> set (sessions d). sbrowser s = b \<and> active s))
    \<and> (\<forall>b key meta. (\<exists>row \<in> set rows. cr_browser row = b \<and> 0 < cr_available_slots row) \<longleftrightarrow>
        (\<exists>w e. SelectClaimableWorker
           (select_params opts \<lparr>cq_browser = b, cq_prefix = [], cq_key = key, cq_metadata = meta\<rparr> [])
           (\<lambda>_. False) d t d = Inr (w, e)))"
proof -
  let ?ttl = "microseconds (so_worker_ttl opts)" and ?limit = "so_max_lifetime opts"
  let ?row = "capacity_row_of ?ttl ?limit t d" and ?bs = "capacity_browsers ?ttl ?limit t d"
  have row [simp]: "cr_browser (?row b) = b" for b by (simp add: capacity_row_of_def Let_def)
  have "distinct (map cr_browser (map ?row ?bs))" by (simp add: comp_def capacity_browsers_def)
  moreover have "cr_browser ` set (map ?row ?bs) = set ?bs" by (simp add: image_image)
  moreover have "(\<exists>r \<in> set (map ?row ?bs). cr_browser r = b \<and> 0 < cr_available_slots r) \<longleftrightarrow>
      (\<exists>w e. SelectClaimableWorker
         (select_params opts \<lparr>cq_browser = b, cq_prefix = [], cq_key = key, cq_metadata = meta\<rparr> [])
         (\<lambda>_. False) d t d = Inr (w, e))" for b key meta
    using capacity_shown [where b = b and ttl = ?ttl and limit = ?limit and now = t and d = d] select_quiet [OF schema_okD(1) [OF assms]]
    by (auto simp: select_params_def split: list.splits)
  ultimately show ?thesis
    by (intro exI [of _ "map ?row ?bs"])
      (auto simp: Capacity_def GetCapacityByBrowser_def set_capacity_browsers eligible_def lifetime_left_def)
qed

theorem capacity_report_is_claimable_witness:
  "\<exists>rows. fst (Capacity options_a 0 (calm fleet_b 2000000))
      = Inr \<lparr>cap_browsers = rows, cap_queued = 0, cap_max_queue = 100\<rparr>
    \<and> ''chromium'' \<in> cr_browser ` set rows"
proof -
  have "so_max_queue options_a = 100" by (simp add: options_a_def)
  with capacity_report_is_claimable [OF fleet_b_ok(1), of options_a 0 2000000] obtain rows where
    r: "fst (Capacity options_a 0 (calm fleet_b 2000000))
        = Inr \<lparr>cap_browsers = rows, cap_queued = 0, cap_max_queue = 100\<rparr>"
    "\<And>b. (\<exists>w \<in> set (workers fleet_b). wbrowser w = b \<and> wstatus w = Available
           \<and> 2000000 - microseconds (so_worker_ttl options_a) < wheartbeat w
           \<and> (so_max_lifetime options_a = 0 \<or> wlifetime w < so_max_lifetime options_a)) \<Longrightarrow> b \<in> cr_browser ` set rows"
    by (metis fst_conv)
  moreover have "\<exists>w \<in> set (workers fleet_b). wbrowser w = ''chromium'' \<and> wstatus w = Available
      \<and> 2000000 - microseconds (so_worker_ttl options_a) < wheartbeat w
      \<and> (so_max_lifetime options_a = 0 \<or> wlifetime w < so_max_lifetime options_a)"
    by (simp add: example_defs microseconds_pos)
  ultimately show ?thesis by blast
qed

text \<open>
  C10: the queue depth is exact: however the requests of a server interleave, the depth is the number
  of requests that wait, never negative and never above the configured maximum; and \<open>Admit\<close>
  gives its place back on every way out.
\<close>

theorem queue_depth_is_exact:
  assumes "reaches (queue_step opts) empty_queue s"
  shows "queued s = waiting (requests s) \<and> 0 \<le> queued s \<and> queued s \<le> max 0 (so_max_queue opts)
    \<and> (case Admit opts req env (queued s) w of
         (Some r, q', w') \<Rightarrow> q' = queued s
       | (None, q', w') \<Rightarrow> q' = queued s + 1 \<and> queued s < so_max_queue opts)"
proof -
  have "queue_inv opts s" using queueing.reaches_inv [OF assms empty_queue_inv] .
  moreover obtain out q' w' where "Admit opts req env (queued s) w = (out, q', w')"
    by (cases "Admit opts req env (queued s) w") auto
  moreover note Admit_depth [OF calculation(2)]
  ultimately show ?thesis by (simp add: queue_inv_def split: option.splits)
qed

theorem queue_depth_is_exact_witness:
  "queued one_waiting = waiting (requests one_waiting)"
  using queue_depth_is_exact [OF one_waiting_reached] by blast

text \<open>
  C11: a queued request never waits past its deadline, a drain or its client's departure: as soon as
  an iteration of its loop finds the request's context ended, the scheduler draining or the wait over,
  \<open>Admit\<close> has an answer; and that iteration, if the loop gets to it, claims nothing and answers with
  the context's cause, else with the drain, else with the timeout.
\<close>

theorem queued_request_returns:
  assumes "r \<in> set (ae_rounds env)"
    and "sg_ctx (rd_top r) \<noteq> None \<or> sg_drain (rd_top r) \<or> sg_wait (rd_top r) \<noteq> None"
  shows "fst (Admit opts req env depth w) \<noteq> None
    \<and> (\<exists>e. (\<forall>rs ex w1. admit_loop opts req (r # rs) ex w1 = (Some (Inl e), w1))
        \<and> (\<forall>c. sg_ctx (rd_top r) = Some c \<longrightarrow> e = Cause c)
        \<and> (sg_ctx (rd_top r) = None \<and> sg_drain (rd_top r) \<longrightarrow> e = ErrSchedulerDraining)
        \<and> (sg_ctx (rd_top r) = None \<and> \<not> sg_drain (rd_top r) \<and> sg_wait (rd_top r) = Some DeadlineExceeded
             \<longrightarrow> e = ErrWaitTimeout))"
proof -
  have q: "queueWaitError (rd_top r) \<noteq> None" using assms(2) by (auto simp: queueWaitError_def split: option.splits)
  then have "fst (admit_loop opts req (ae_rounds env) [] w1) \<noteq> None" for w1
    using assms(1) by (intro admit_loop_returns)
  then have "fst (Admit opts req env depth w) \<noteq> None"
    by (auto simp: Admit_def split: sum.splits prod.splits option.splits) (metis fst_conv option.distinct(1))
  with q show ?thesis
    by (auto simp: queueWaitError_def split: option.splits)
qed

theorem queued_request_returns_witness:
  "fst (Admit options_a request_a (admit_a\<lparr>ae_rounds := [expired_round]\<rparr>) 0
    (calm (fleet_a\<lparr>workers := []\<rparr>) 2000000)) \<noteq> None"
  using queued_request_returns [of expired_round "admit_a\<lparr>ae_rounds := [expired_round]\<rparr>"]
  by (simp add: expired_round_def)

section \<open>Heartbeats and sweeps\<close>

text \<open>
  C12: the exact effect of a heartbeat, undisturbed: for an unknown worker nothing; else the worker's
  beat is the present, a stalled worker is available again, an available one that has served its
  lifetime drains, the running sessions of the worker that it does not report fail once they are past
  the grace period, waiting requests are told if there are any, nothing else changes, and the reply
  lists those sessions and, in order, the identifiers reported in vain.
\<close>

theorem heartbeat_does:
  assumes "schema_ok d"
  shows "case lookup_row wid i (workers d) of
      None \<Rightarrow> Heartbeat opts i reported (calm d t) = (Inl (Wrap ''updating worker heartbeat'' ErrNoRows), calm d t)
    | Some w \<Rightarrow>
       (let w' = w\<lparr>wheartbeat := t,
              wstatus := (if wstatus w = Available \<or> wstatus w = Stalled
                 then (if 0 < so_max_lifetime opts \<and> so_max_lifetime opts \<le> wlifetime w then Draining else Available)
                 else wstatus w)\<rparr>;
            gone = (\<lambda>s. sworker s = i \<and> sstatus s = Running
              \<and> (\<exists>started. sstarted s = Some started \<and> started + microseconds (so_grace opts) < t)
              \<and> sid s \<notin> set reported)
        in \<exists>stale d'. Heartbeat opts i reported (calm d t)
              = (Inr (w', stale, map sid (filter gone (sessions d))), calm d' t)
           \<and> workers d' = map (\<lambda>v. if wid v = i then w' else v) (workers d)
           \<and> sessions d' = map (\<lambda>s. if gone s then s\<lparr>sstatus := Failed\<rparr> else s) (sessions d)
           \<and> api_keys d' = api_keys d
           \<and> notified d' = notified d + (if filter gone (sessions d) = [] then 0 else 1)
           \<and> sorted stale \<and> distinct stale
           \<and> set stale = {x \<in> set reported. \<forall>s \<in> set (sessions d').
                sid s = x \<and> sworker s = i \<longrightarrow> sstatus s \<noteq> Pending \<and> sstatus s \<noteq> Running})"
proof (cases "lookup_row wid i (workers d)")
  case None
  then show ?thesis using heartbeat_calm [OF assms, of opts i reported t] by simp
next
  case (Some w)
  let ?d = "heartbeat_effect opts i reported t d"
  have w: "w \<in> set (workers d)" "wid w = i" using lookup_row_Some [OF Some] by auto
  then have only: "v = w" if "v \<in> set (workers d)" "wid v = i" for v
    using that schema_okD(1) [OF assms] by (auto simp: distinct_map inj_on_def)
  have gone: "overdue opts i reported t = (\<lambda>s. sworker s = i \<and> sstatus s = Running
      \<and> (\<exists>started. sstarted s = Some started \<and> started + microseconds (so_grace opts) < t)
      \<and> sid s \<notin> set reported)"
    by (simp add: fun_eq_iff overdue_def)
  have "workers ?d = map (\<lambda>v. if wid v = i then beaten opts t w else v) (workers d)"
    using only by (auto simp: heartbeat_effect_def update_where_def)
  moreover have "sessions ?d = map (\<lambda>s. if overdue opts i reported t s then s\<lparr>sstatus := Failed\<rparr> else s) (sessions d)"
    by (simp add: heartbeat_effect_def update_where_def)
  moreover have "api_keys ?d = api_keys d"
    "notified ?d = notified d + (if filter (overdue opts i reported t) (sessions d) = [] then 0 else 1)"
    by (simp_all add: heartbeat_effect_def lost_def)
  moreover have "sorted (stale_ids opts i reported t d)" "distinct (stale_ids opts i reported t d)"
    "set (stale_ids opts i reported t d) = {x \<in> set reported. \<forall>s \<in> set (sessions ?d).
        sid s = x \<and> sworker s = i \<longrightarrow> sstatus s \<noteq> Pending \<and> sstatus s \<noteq> Running}"
    by (auto simp: stale_ids_def active_def)
  moreover have "Heartbeat opts i reported (calm d t)
      = (Inr (beaten opts t w, stale_ids opts i reported t d, map sid (filter (overdue opts i reported t) (sessions d))),
         calm ?d t)"
    using heartbeat_calm [OF assms, of opts i reported t] Some by (simp add: lost_def)
  ultimately show ?thesis
    unfolding Some option.case Let_def gone [symmetric] beaten_def [symmetric]
    by (intro exI [of _ "stale_ids opts i reported t d"] exI [of _ ?d] conjI)
qed

theorem heartbeat_does_witness:
  "\<exists>stale. fst (Heartbeat options_a (UUID 1) [UUID 8] (calm running_fleet 60000000))
    = Inr (worker_a\<lparr>wlifetime := 4, wheartbeat := 60000000\<rparr>, stale, [UUID 7])"
proof -
  have look: "lookup_row wid (UUID 1) (workers running_fleet) = Some (worker_a\<lparr>wlifetime := 4\<rparr>)"
    by (simp add: running_fleet_def worker_a_def)
  show ?thesis
    using heartbeat_does [OF running_fleet_ok, where i = "UUID 1" and opts = options_a and reported = "[UUID 8]" and t = 60000000]
    unfolding look
    by (auto simp: Let_def running_fleet_def running_a_def session_a_eq start_row_def worker_a_def options_a_def
        microseconds_pos)
qed

text \<open>
  C13: a heartbeat, a registration and an expiry sweep are all or nothing in any surroundings: on
  success all their writes were committed once, on an error none was, unless the answer to the
  commit itself was lost.
\<close>

theorem transactions_are_atomic:
  "tx_once (heartbeat_body opts i reported) ''committing worker heartbeat'' w (Heartbeat opts i reported w)
    \<and> tx_once (expire_body o') ''committing session expiry sweep'' w (expireDeadSessions o' w)
    \<and> tx_once (register_body p) ''committing worker registration'' w (registerWorker p w)"
  unfolding Heartbeat_def expireDeadSessions_def registerWorker_def
  by (intro conjI in_tx_once heartbeat_tx_body expire_tx_body register_tx_body)

text \<open>
  C14: one sweep settles the fleet, and a second one at the same time is harmless: after a sweep no
  available worker is silent, no dead session is active, no dead worker without sessions is left, and
  sweeping again changes nothing and reports nothing. A worker that has been silent beyond both
  limits, whose active sessions are all dead by then, is gone.
\<close>

theorem sweep_settles_the_fleet:
  assumes "schema_ok d"
  shows "let d' = wdb (snd (Sweep o' (calm d t))) in
    swept o' t d' \<and> Sweep o' (calm d' t) = ((\<lparr>sm_stalled = 0, sm_expired = 0, sm_removed = 0\<rparr>, None), calm d' t)
    \<and> (\<forall>w \<in> set (workers d).
        silent t (microseconds (ro_worker_ttl o')) w \<and> silent t (microseconds (ro_stalled_ttl o')) w
        \<and> (\<forall>s \<in> set (sessions d). sworker s = wid w \<and> active s \<longrightarrow>
             dead_session (microseconds (ro_session_ttl o')) t s)
      \<longrightarrow> wid w \<notin> wid ` set (workers d'))"
  using Sweep_calm(1) [OF schema_okD(1,2) [OF assms]] sweep_effect_swept
    lost_worker_removed [OF _ schema_okD(1) [OF assms]]
  by (simp add: Let_def Sweep_swept sweep_effect_distinct schema_okD [OF assms])

theorem sweep_settles_the_fleet_witness:
  "swept rescuer_a 700000000 (wdb (snd (Sweep rescuer_a (calm running_fleet 700000000))))
    \<and> UUID 1 \<notin> wid ` set (workers (wdb (snd (Sweep rescuer_a (calm running_fleet 700000000)))))"
  using sweep_settles_the_fleet [OF running_fleet_ok, of rescuer_a 700000000]
  by (simp add: Let_def)
    (simp add: running_fleet_def silent_def rescuer_a_def microseconds_pos worker_a_def dead_session_def
      running_a_def session_a_eq start_row_def active_def)



text \<open>
  C16: no wake-up is lost: after a request has subscribed, a broadcast leaves a token in its channel
  that stays, whatever other requests subscribe, unsubscribe or receive, until it takes it. The
  waiters' identifiers are unique as long as fewer than \<open>2^64\<close> subscriptions were made.
\<close>

theorem no_wakeup_is_lost:
  assumes "w = fold waker_step before NewWaker" and "Subscribe w = (i, w1)"
    and "subscriptions before + subscriptions after < 2 ^ 64"
    and "list_all (leaves_alone i) after" and "OpWake \<in> set after"
  shows "receive i (fold waker_step after w1) \<noteq> None"
proof -
  let ?n = "subscriptions before"
  have w: "issued ?n w" using issued_run [OF issued_new, of before] assms(1) by simp
  have i: "i = nextID w" "w1 = waker_step OpSubscribe w" using assms(2) by (auto simp: Subscribe_def)
  have "waiters (fold waker_step after w1) i = Some (False \<or> OpWake \<in> set after)"
  proof (rule token_kept)
    show "issued (?n + subscriptions [OpSubscribe]) w1" unfolding i(2) using w by (rule issued_step)
    show "?n + subscriptions [OpSubscribe] + subscriptions after \<le> 2 ^ 64" using assms(3) by simp
    show "i \<in> of_nat ` {..<?n + subscriptions [OpSubscribe]}"
      using w i(1) by (auto simp: issued_def)
    show "\<forall>op \<in> set after. leaves_alone i op" using assms(4) by (simp add: list_all_iff)
    show "waiters w1 i = Some False" by (simp add: i Subscribe_def)
  qed
  with assms(5) show ?thesis by (simp add: receive_def)
qed

theorem no_wakeup_is_lost_witness:
  "receive 1 (fold waker_step [OpSubscribe, OpWake, OpReceive 0, OpUnsubscribe 2]
    (snd (Subscribe (fold waker_step [OpSubscribe] NewWaker)))) \<noteq> None"
  using no_wakeup_is_lost [OF refl, of "[OpSubscribe]" 1 "snd (Subscribe (fold waker_step [OpSubscribe] NewWaker))"
      "[OpSubscribe, OpWake, OpReceive 0, OpUnsubscribe 2]"]
  by (simp add: Subscribe_def NewWaker_def)

text \<open>
  C17: while connections keep failing, the listener's waits double from 100 ms up to 5 s and never
  leave these bounds.
\<close>

theorem listener_backs_off:
  assumes "list_all (\<lambda>r. \<not> lr_before r \<and> \<not> lr_after r \<and> \<not> lr_wait r
      \<and> \<not> fst (fst (listen (lr_connection r) NewWaker))) rs" and "k < length rs"
  shows "fst (RunListener rs w) ! k = min (100 * millisecond * 2 ^ k) (5 * second)
    \<and> list_all backoff_ok (fst (RunListener rs w))"
  using failed_connections_backoff [OF assms backoff_initial, of w]
    RunListener_waits [OF backoff_initial, of rs w]
  by (simp add: RunListener_def listenerInitialBackoff_def listenerMaxBackoff_def)

theorem listener_backs_off_witness:
  "fst (RunListener (replicate 8 refused_round) NewWaker) ! 7 = 5 * second"
proof -
  have "list_all (\<lambda>r. \<not> lr_before r \<and> \<not> lr_after r \<and> \<not> lr_wait r
      \<and> \<not> fst (fst (listen (lr_connection r) NewWaker))) (replicate 8 refused_round)"
    by (simp add: list_all_iff refused_round_def listen_def)
  then show ?thesis using listener_backs_off [of "replicate 8 refused_round" 7 NewWaker] by simp
qed

text \<open>
  C18: the polling interval of the queue and the rescuer's wait lie between four and six fifths of
  the configured one, for every draw and every interval below \<open>2^61\<close> nanoseconds; from \<open>2^62\<close>
  nanoseconds (about 146 years) on, the configuration still accepts the rescuer's interval, but the
  first wait of the sweep loop panics.
\<close>

theorem jitter_close_or_panics:
  assumes "0 < i" and "i \<le> 2 ^ 63 - 5" and "parse_duration raw = Inr i" and "raw \<noteq> []"
  shows "(i < 2 ^ 61 \<longrightarrow> (\<exists>r. jitteredPollingInterval i roll = Some r \<and> jitter i roll = Some r
            \<and> i * 4 div 5 \<le> r \<and> r \<le> i * 4 div 5 + i * 2 div 5))
    \<and> (2 ^ 62 \<le> i \<longrightarrow> positiveDuration parse_duration (\<lambda>_. raw) ''RESCUER_INTERVAL'' (5 * second) = Inr i
         \<and> Run \<lparr>ro_worker_ttl = a, ro_session_ttl = b, ro_stalled_ttl = c, ro_interval = i\<rparr> (k # ks) w = None)"
proof (intro conjI impI)
  assume "i < 2 ^ 61"
  from jitter_bounds [OF assms(1) this, of roll] show "\<exists>r. jitteredPollingInterval i roll = Some r
      \<and> jitter i roll = Some r \<and> i * 4 div 5 \<le> r \<and> r \<le> i * 4 div 5 + i * 2 div 5"
    by (auto simp: jitter_eq)
next
  assume i: "2 ^ 62 \<le> i"
  then have "microseconds i \<noteq> 0" by (simp add: microseconds_pos)
  with i assms show "positiveDuration parse_duration (\<lambda>_. raw) ''RESCUER_INTERVAL'' (5 * second) = Inr i"
    by (simp add: positiveDuration_def)
  show "Run \<lparr>ro_worker_ttl = a, ro_session_ttl = b, ro_stalled_ttl = c, ro_interval = i\<rparr> (k # ks) w = None"
    using jitter_overflow [OF i assms(2)] by simp
qed

theorem jitter_close_or_panics_witness:
  "(\<exists>r. jitter (5 * second) 12345678901 = Some r \<and> 4 * second \<le> r \<and> r \<le> 6 * second)
   \<and> Run \<lparr>ro_worker_ttl = 1, ro_session_ttl = 1, ro_stalled_ttl = 1, ro_interval = 5400000000000000000\<rparr>
      [\<lparr>tk_roll = 0, tk_done = False\<rparr>] (calm fleet_a 0) = None"
proof
  show "\<exists>r. jitter (5 * second) 12345678901 = Some r \<and> 4 * second \<le> r \<and> r \<le> 6 * second"
    using jitter_close_or_panics [of "5 * second" "\<lambda>_. Inr (5 * second)" "''5s''" 12345678901] by auto
  show "Run \<lparr>ro_worker_ttl = 1, ro_session_ttl = 1, ro_stalled_ttl = 1, ro_interval = 5400000000000000000\<rparr>
      [\<lparr>tk_roll = 0, tk_done = False\<rparr>] (calm fleet_a 0) = None"
    by (rule jitter_close_or_panics [where parse_duration = "\<lambda>_. Inr 5400000000000000000"
          and raw = "''1500000h''", THEN conjunct2, THEN mp, THEN conjunct2]) simp_all
qed

section \<open>Relays and their shutdown\<close>

text \<open>
  C19: a server leaves no session behind: in every run of its attachments, of its shutdown, and of the
  claims and statements of all servers, once the shutdown reports that the relays have drained, no
  session is registered, no handler has an end to record, and every session this server ever started
  is completed, failed or expired, unless the statement that ends it never reached the database; and
  the next sweep after the last heartbeats of those few have become too old ends them too.
\<close>

theorem drained_server_leaves_no_session:
  assumes "fleet_ok d" and "reaches (handler_step opts) (fresh_node d n) s" and "nd_phase s = Drained"
  shows "mg_live (nd_manager s) = Map.empty \<and> list_all (\<lambda>h. owes h = None) (nd_handlers s)
    \<and> (\<forall>i \<in> nd_started s. i \<in> nd_lost s \<or> (\<exists>st. statuses (ndb s) i = Some st \<and> terminal st))
    \<and> ((\<forall>i \<in> nd_lost s. stale_at o' t (ndb s) i) \<longrightarrow>
        (\<forall>i \<in> nd_started s. \<exists>st. statuses (wdb (snd (Sweep o' (calm (ndb s) t)))) i = Some st \<and> terminal st))"
proof -
  have inv: "node_inv s" using serving.reaches_inv [OF assms(2) fresh_node_inv [OF assms(1)]] .
  note settled = drained_settled [OF this assms(3)]
  then have "i \<in> nd_lost s" if "i \<in> nd_started s" "statuses (ndb s) i = Some Running" for i
    using that by (auto simp: terminal_def)
  then show ?thesis using settled sweep_ends_started [OF inv] by blast
qed

theorem drained_server_leaves_no_session_witness:
  "\<exists>st. statuses failed_a (UUID 7) = Some st \<and> terminal st"
  using drained_server_leaves_no_session [OF claimed_a_fine drained_node_reached]
  by (simp add: drained_node_def node_at_simps)

text \<open>
  C20: relays come to their end: in every reachable state an attachment that is not over has a step of
  its own to a stage nearer to its end, except a relay to which no event has been sent yet, which waits
  for its peers; the \<open>Done\<close> of the wait group it still owes does not panic. From the end of the grace
  period on no relay waits for its peers, every reachable state leads to the drained one with all
  attachments over, and no step puts the end off: it leaves the attachments alone or lowers the work
  that is left.
\<close>

theorem relays_come_to_their_end:
  assumes "reaches relay_step fresh_relays r"
  shows "(\<forall>a < length (attachments r).
        (attachments r ! a \<noteq> Ended \<and> (\<nexists>i. attachments r ! a = Relaying i \<and> mg_live (manager r) i = Some [])
          \<longrightarrow> (\<exists>r' x. relay_step r r' \<and> phase r' = phase r \<and> attachments r' = (attachments r)[a := x]
                 \<and> weight x < weight (attachments r ! a)))
        \<and> (case attachments r ! a of
             Reserved i \<Rightarrow> Release False (manager r) \<noteq> None
           | Refused i res \<Rightarrow> Release False (manager r) \<noteq> None
           | Relaying i \<Rightarrow> unregister i (manager r) \<noteq> None
           | Closing i e \<Rightarrow> unregister i (manager r) \<noteq> None
           | Returned i e \<Rightarrow> Release True (manager r) \<noteq> None
           | Ended \<Rightarrow> True))
    \<and> (phase r = Forcing \<longrightarrow>
        (\<forall>a < length (attachments r). \<nexists>i. attachments r ! a = Relaying i \<and> mg_live (manager r) i = Some [])
        \<and> (\<exists>r'. reaches relay_step r r' \<and> phase r' = Drained \<and> list_all (\<lambda>x. x = Ended) (attachments r'))
        \<and> (\<forall>r'. relay_step r r' \<longrightarrow> attachments r' = attachments r \<or> work r' < work r))"
proof -
  have inv: "relays_inv r" using relaying.reaches_inv [OF assms fresh_relays_inv] .
  have "mg_draining (manager r)" if "phase r = Forcing" using inv that by (simp add: relays_inv_def)
  moreover have "case attachments r ! a of
             Reserved i \<Rightarrow> Release False (manager r) \<noteq> None
           | Refused i res \<Rightarrow> Release False (manager r) \<noteq> None
           | Relaying i \<Rightarrow> unregister i (manager r) \<noteq> None
           | Closing i e \<Rightarrow> unregister i (manager r) \<noteq> None
           | Returned i e \<Rightarrow> Release True (manager r) \<noteq> None
           | Ended \<Rightarrow> True" if "a < length (attachments r)" for a
    using done_never_panics [OF inv that] by (cases "attachments r ! a") simp_all
  ultimately show ?thesis
    using forced_shutdown_drains [OF inv] draining_work attachment_progress [OF inv]
      forcing_waits_for_nobody [OF inv] unfolding waits_for_peers_def by blast
qed

theorem relays_come_to_their_end_witness:
  "(\<exists>r' x. relay_step one_reservation r' \<and> attachments r' = [x] \<and> weight x < 4)
    \<and> (\<exists>r'. reaches relay_step forced_relay r' \<and> phase r' = Drained)"
proof
  show "\<exists>r' x. relay_step one_reservation r' \<and> attachments r' = [x] \<and> weight x < 4"
    using relays_come_to_their_end [OF reservation_reached] by (auto simp: one_reservation_def)
  show "\<exists>r'. reaches relay_step forced_relay r' \<and> phase r' = Drained"
    using relays_come_to_their_end [OF forced_reached] by (auto simp: forced_relay_def)
qed

text \<open>
  C21: two relays never meet on one session: whenever a handler is about to register its session, no
  other handler of the server dials for that session, is about to register it, was turned away with it,
  relays it or is closing its relay. So \<open>register\<close> accepts it or reports the drain, and the defensive case
  of a duplicate, which would leave the session running, cannot happen.
\<close>

theorem relays_are_never_duplicates:
  assumes "fleet_ok d" and "reaches (handler_step opts) (fresh_node d n) s" and "at_handler s a (Registering i)"
  shows "register i (nd_manager s) =
      (if mg_draining (nd_manager s) then (RegisterDraining, nd_manager s)
       else (RegisterAccepted, (nd_manager s)\<lparr>mg_live := (mg_live (nd_manager s))(i \<mapsto> [])\<rparr>))
    \<and> (\<forall>b h. b \<noteq> a \<and> at_handler s b h \<longrightarrow>
        h \<notin> {Dialing i, Registering i, Copying i} \<and> (\<forall>res. h \<noteq> TurnedAway i res \<and> h \<noteq> Dismissed i res)
        \<and> (\<forall>e. h \<noteq> Stopping i e \<and> h \<noteq> Leaving i e))"
proof -
  have inv: "node_inv s" using serving.reaches_inv [OF assms(2) fresh_node_inv [OF assms(1)]] .
  then have "apart (nd_handlers s)" by (simp add: node_inv_def handlers_ok_def)
  then have other: "carried h \<noteq> Some i" if "b \<noteq> a" "at_handler s b h" for b h
    using that assms(3) apartD [of "nd_handlers s" a b i] by (auto simp: at_handler_def)
  have "h \<notin> {Dialing i, Registering i, Copying i} \<and> (\<forall>res. h \<noteq> TurnedAway i res \<and> h \<noteq> Dismissed i res)
      \<and> (\<forall>e. h \<noteq> Stopping i e \<and> h \<noteq> Leaving i e)" if "b \<noteq> a" "at_handler s b h" for b h
    using other [OF that] by (cases h) auto
  with never_duplicate [OF inv assms(3)] show ?thesis by (auto simp: register_def)
qed

theorem relays_are_never_duplicates_witness:
  "fst (register (UUID 7) one_attached) = RegisterAccepted"
  using relays_are_never_duplicates [OF claimed_a_fine registering_reached, of 0 "UUID 7"]
  by (simp add: node_at_simps NewManager_def)

text \<open>
  C22: a relay can lose its session to another client. From every database with a pending session, which
  two clients have both read, the first is relayed by a serving server, its session running. When the
  second one's \<open>StartSession\<close> then fails before it reaches the database (a cancelled request), \<open>attach\<close>
  answers 500 and leaves the session failed, while the first client is still relayed and no event has
  ended its relay.
\<close>

theorem cancelled_start_fails_running_relay:
  assumes "lookup_row sid (sid s) (sessions d) = Some s" and "sstatus s = Pending" and "at_begin env = None"
  shows "\<exists>n. reaches (handler_step opts) (fresh_node d 0) n \<and> nd_phase n = Serving
    \<and> at_handler n 0 (Copying (sid s)) \<and> mg_live (nd_manager n) (sid s) = Some []
    \<and> statuses (ndb n) (sid s) = Some Running
    \<and> (\<forall>t c. let (rp, w') = attach env s \<lparr>wdb = ndb n, clock = t, script = [cut_off c]\<rparr> in
        rp = Some (plain_reply 500 ''internal server error'') \<and> statuses (wdb w') (sid s) = Some Failed
        \<and> (\<exists>n'. reaches (handler_step opts) n n' \<and> nd_phase n' = Serving \<and> ndb n' = wdb w'
            \<and> at_handler n' 0 (Copying (sid s)) \<and> at_handler n' 1 (Releasing (sid s))
            \<and> mg_live (nd_manager n') (sid s) = Some []))"
proof -
  let ?i = "sid s"
  from assms(1,2) have "statuses d ?i = Some Pending" by (simp add: statuses_def)
  then obtain x d1 where x: "sent (StartSession ?i) d (Inr x) True d1" "statuses d1 ?i = Some Running"
    by (rule pending_starts)
  let ?n = "node_at ?i d1 (one_attached\<lparr>mg_live := [?i \<mapsto> []]\<rparr>) [Copying ?i] Serving"
  have "let (rp, w') = attach env s \<lparr>wdb = d1, clock = t, script = [cut_off c]\<rparr> in
        rp = Some (plain_reply 500 ''internal server error'') \<and> statuses (wdb w') ?i = Some Failed
        \<and> (\<exists>n'. reaches (handler_step opts) ?n n' \<and> nd_phase n' = Serving \<and> ndb n' = wdb w'
            \<and> at_handler n' 0 (Copying ?i) \<and> at_handler n' 1 (Releasing ?i) \<and> mg_live (nd_manager n') ?i = Some [])"
    for t c
  proof -
    obtain rp w' where a: "attach env s \<lparr>wdb = d1, clock = t, script = [cut_off c]\<rparr> = (rp, w')" by fastforce
    from attach_cut_off [OF assms(3) x(2) refl, of t c] a obtain y where
      y: "rp = Some (plain_reply 500 ''internal server error'')" "sent (FailSession ?i) d1 (Inr y) True (wdb w')"
        "statuses (wdb w') ?i = Some Failed" by auto
    let ?n' = "node_at ?i (wdb w') (NewManager\<lparr>mg_wg := 2, mg_live := [?i \<mapsto> []]\<rparr>) [Copying ?i, Releasing ?i] Serving"
    have "reaches (handler_step opts) ?n ?n'" by (rule second_client [OF y(2)])
    with a y(1,3) show ?thesis by (auto simp: node_at_simps intro!: exI [of _ ?n'])
  qed
  with first_relayed [OF x(1)] x(2) show ?thesis
    by (intro exI [of _ ?n]) (simp add: node_at_simps)
qed

theorem cancelled_start_fails_running_relay_witness:
  "\<exists>n. reaches (handler_step options_a) (fresh_node claimed_a 0) n \<and> at_handler n 0 (Copying (UUID 7))
    \<and> statuses (wdb (snd (attach failed_dial session_a \<lparr>wdb = ndb n, clock = 3000000, script = [cut_off Canceled]\<rparr>)))
        (UUID 7) = Some Failed"
proof -
  have "sid session_a = UUID 7" "lookup_row sid (sid session_a) (sessions claimed_a) = Some session_a"
    "sstatus session_a = Pending" "at_begin failed_dial = None"
    by (simp_all add: claimed_a_eq session_a_eq failed_dial_def)
  with cancelled_start_fails_running_relay [of session_a claimed_a failed_dial options_a] show ?thesis
    by (auto simp: Let_def case_prod_beta)
qed

text \<open>
  C23: the first event decides. \<open>Run\<close> waits until an event is sent to its relay, takes the one that came
  first, whatever else the copy loops, the pings, the heartbeat or the shutdown send before it is taken
  or after, sends its code and reason to both peers and records its outcome: 1001 and success for a
  shutdown or a terminated session; for a broken connection success exactly when the peer closed with
  1000, 1001 or without a status, and a code that an endpoint may send or the absence of a status.
\<close>

theorem first_event_decides:
  assumes "\<not> mg_draining m" and "mg_live m i = None" and "0 < mg_wg m"
  shows "(filter (\<lambda>(j, x). j = i) evs = [] \<longrightarrow> Run_session i evs later m w = None)
    \<and> (filter (\<lambda>(j, x). j = i) evs = (i, e) # rest \<longrightarrow>
        (\<exists>m'. Run_session i evs later m w
            = Some ((None, [(ev_code e, ev_reason e), (ev_code e, ev_reason e)], recordOutcome i (ev_normal e) w), Some m')
          \<and> mg_live m' i = None))
    \<and> (e = shutdown_event \<longrightarrow> ev_code e = 1001 \<and> ev_reason e = ''server shutting down'' \<and> ev_normal e)
    \<and> (e = terminated_event \<longrightarrow> ev_code e = 1001 \<and> ev_reason e = ''session terminated'' \<and> ev_normal e)
    \<and> (e = errorEvent err \<longrightarrow>
        (ev_normal e \<longleftrightarrow> (\<exists>c t. errors_As_close err = Some (c, t) \<and> (c = 1000 \<or> c = 1001 \<or> c = 1005)))
        \<and> (ev_code e = 1005 \<or> isValidReceivedCloseCode (ev_code e)))"
proof -
  obtain m1 where r: "register i m = (RegisterAccepted, m1)" using assms by (simp add: register_def)
  have "Run_session i evs later m w = None" if "filter (\<lambda>(j, x). j = i) evs = []"
    using none_received [OF r that] r by (simp add: Run_session_def)
  moreover have "\<exists>m'. Run_session i evs later m w
        = Some ((None, [(ev_code e, ev_reason e), (ev_code e, ev_reason e)], recordOutcome i (ev_normal e) w), Some m')
      \<and> mg_live m' i = None" if f: "filter (\<lambda>(j, x). j = i) evs = (i, e) # rest"
  proof -
    obtain m2 where m2: "receive_event i (arrive evs m1) = Some (e, m2)" using first_received [OF r f] ..
    have "0 < mg_wg (arrive later m2)" using received_wg [OF r m2] assms(3) by simp
    with r m2 show ?thesis by (simp add: Run_session_def Run_relay_def unregister_def wg_Done_def numeral_2_eq_2)
  qed
  ultimately show ?thesis
    using errorEvent_normal [of err] errorEvent_code [of err]
    by (auto simp: shutdown_event_def terminated_event_def isNormalCloseCode_def CloseNormalClosure_def
        CloseGoingAway_def CloseNoStatusReceived_def)
qed

theorem first_event_decides_witness:
  "fst (fst (the (Run_session (UUID 7) [(UUID 8, shutdown_event), (UUID 7, terminated_event), (UUID 7, shutdown_event)]
      [] (NewManager\<lparr>mg_wg := 2\<rparr>) (calm running_fleet 0)))) = None
    \<and> fst (snd (fst (the (Run_session (UUID 7) [(UUID 8, shutdown_event), (UUID 7, terminated_event), (UUID 7, shutdown_event)]
      [] (NewManager\<lparr>mg_wg := 2\<rparr>) (calm running_fleet 0)))))
    = [(1001, ''session terminated''), (1001, ''session terminated'')]"
  using first_event_decides [of "NewManager\<lparr>mg_wg := 2\<rparr>" "UUID 7"
      "[(UUID 8, shutdown_event), (UUID 7, terminated_event), (UUID 7, shutdown_event)]" "[]"
      "calm running_fleet 0" terminated_event "[(UUID 7, shutdown_event)]" "Cause EndOfFile"]
  by (auto simp: NewManager_def)

text \<open>
  C24: the relay is transparent: the messages completed at the destination are, in order and with
  type and content unchanged, the first messages of the source; at most one more is begun, with a
  prefix of the next one's content.
\<close>

theorem relay_is_transparent:
  assumes "copyMessages its = (ms, part, ev)" and "list_all (\<lambda>it. deadlines_ok (it_chunks it)) its"
  shows "\<exists>k \<le> length its. ms = map source_message (take k its)
    \<and> (\<forall>ty out. part = Some (ty, out) \<longrightarrow>
         k < length its \<and> ty = fst (source_message (its ! k)) \<and> prefix out (snd (source_message (its ! k))))"
  using assms by (rule copyMessages_faithful)

theorem relay_is_transparent_witness:
  "\<exists>k \<le> 2. fst (copyMessages [whole_message, broken_message]) = map source_message (take k [whole_message, broken_message])"
proof -
  obtain ms part ev where c: "copyMessages [whole_message, broken_message] = (ms, part, ev)"
    by (cases "copyMessages [whole_message, broken_message]") auto
  have "list_all (\<lambda>it. deadlines_ok (it_chunks it)) [whole_message, broken_message]"
    by (simp add: deadlines_ok_def whole_message_def broken_message_def)
  from relay_is_transparent [OF c this] show ?thesis
    unfolding c by (simp only: fst_conv length_Cons list.size numeral_2_eq_2) blast
qed

text \<open>
  C25: a server that runs was configured with pings more frequent than the pong timeout, and then a
  peer that answers every ping within the difference keeps its connection, whatever else it sends; a
  peer of which nothing is read past its deadline is given up, and its session fails with 1011 sent
  to both peers.
\<close>

theorem prompt_peers_are_kept:
  assumes "run env args = Serve pl" and "prompt (sp_relay pl) start fs"
    and "list_all (\<lambda>(t, f). harmless f) fs" and "sorted (start # map fst fs)"
  shows "rl_ping_interval (sp_relay pl) < rl_pong_timeout (sp_relay pl)
    \<and> (\<exists>q. read_frames (sp_relay pl) fs (configurePeer (sp_relay pl) start p) = Reads q
        \<and> (\<forall>now f rest. pr_read_deadline q < now \<longrightarrow>
             read_frames (sp_relay pl) (fs @ (now, f) # rest) (configurePeer (sp_relay pl) start p) = Lost read_timeout))
    \<and> Run_relay RegisterAccepted i (errorEvent read_timeout) w
        = (None, [(1011, ''relay error''), (1011, ''relay error'')], recordOutcome i False w)"
proof -
  have t: "0 < rl_ping_interval (sp_relay pl)" "rl_ping_interval (sp_relay pl) < rl_pong_timeout (sp_relay pl)"
    by (rule run_ping_settings [OF assms(1)])+
  obtain q where q: "read_frames (sp_relay pl) fs (configurePeer (sp_relay pl) start p) = Reads q"
    using prompt_peer_kept [OF t(1) assms(2-4), of p] by blast
  have "Run_relay RegisterAccepted i (errorEvent read_timeout) w
      = (None, [(1011, ''relay error''), (1011, ''relay error'')], recordOutcome i False w)"
    by (simp add: Run_relay_def errorEvent_def CloseInternalServerErr_def numeral_2_eq_2)
  with t(2) q show ?thesis
    by (intro conjI exI [of _ q]) (auto simp: read_frames_append silent_peer_lost)
qed

theorem prompt_peers_are_kept_witness:
  "\<exists>q. read_frames (sp_relay (plan_of '':8080'' config_a)) prompt_frames
     (configurePeer (sp_relay (plan_of '':8080'' config_a)) 0 open_peer) = Reads q"
  using prompt_peers_are_kept [OF main_a_serves prompt_frames_ok, of open_peer] by blast

text \<open>
  C26: an attachment does not leak its session. Undisturbed, whether the dial, the upgrade, the drain or
  the relay ends it, the session it started is completed or failed when the handler returns, and the
  waiting requests are told. In any surroundings the last thing the handler of a started session does is to
  send the statement that ends it, and if that reaches the database the session is not running any more
  (if it does not, the code only logs it, and the sweep ends the session, C19). Only the answer
  \<open>RegisterDuplicate\<close> is excluded, which never comes (C21).
\<close>

theorem attachment_ends_its_session:
  assumes "at_begin env = None" and "at_register env \<noteq> RegisterDuplicate"
    and "lookup_row sid (sid s) (sessions d) = Some s" and "sstatus s = Pending"
  shows "(\<exists>st. (st = Completed \<or> st = Failed)
    \<and> lookup_row sid (sid s) (sessions (wdb (snd (attach env s (calm d t)))))
        = Some ((start_row t s)\<lparr>sstatus := st\<rparr>)
    \<and> notified d < notified (wdb (snd (attach env s (calm d t)))))
    \<and> (\<forall>w x w1. exec (StartSession (sid s)) w = (Inr x, w1) \<longrightarrow>
        snd (attach env s w) = snd (exec (ending_stmt env (sid s)) w1)
        \<and> (arrived (ending_stmt env (sid s)) w1 \<longrightarrow> statuses (wdb (snd (attach env s w))) (sid s) \<noteq> Some Running))"
proof -
  let ?d1 = "set_sessions [sid s] (start_row t) d"
  have "\<exists>st. attach_status env = Some st \<and> (st = Completed \<or> st = Failed)"
    using assms(2) by (cases "at_register env") (auto simp: attach_status_def)
  then obtain st where st: "attach_status env = Some st" "st = Completed \<or> st = Failed" by blast
  have "wdb (snd (attach env s (calm d t))) = finish st (sid s) ?d1"
    using attach_calm_started [OF assms(1,3,4)] st(1) by (simp add: Let_def)
  moreover have "lookup_row sid (sid s) (sessions (finish st (sid s) ?d1)) = Some ((start_row t s)\<lparr>sstatus := st\<rparr>)"
    by (rule finish_lookup [OF started_lookup [OF assms(3)]])
  moreover have "notified d < notified (finish st (sid s) ?d1)"
    by (simp add: finish_notifies)
  moreover have b: "snd (attach env s w) = snd (exec (ending_stmt env (sid s)) w1)
      \<and> (arrived (ending_stmt env (sid s)) w1 \<longrightarrow> statuses (wdb (snd (attach env s w))) (sid s) \<noteq> Some Running)"
    if "exec (StartSession (sid s)) w = (Inr x, w1)" for w x w1
    using attach_last_trip [OF assms(1,2) that] ending_arrived [of env "sid s" w1] by simp
  ultimately show ?thesis using st(2) by (intro conjI exI [of _ st] allI impI b) simp_all
qed

theorem attachment_ends_its_session_witness:
  "notified claimed_a < notified (wdb (snd (attach failed_dial session_a (calm claimed_a 3000000))))"
proof -
  have "lookup_row sid (sid session_a) (sessions claimed_a) = Some session_a" "sstatus session_a = Pending"
    by (simp_all add: claimed_a_eq session_a_eq)
  from attachment_ends_its_session [OF _ _ this, of failed_dial 3000000] show ?thesis
    by (auto simp: failed_dial_def)
qed

text \<open>
  C27: \<open>attach\<close> refines the handler system: with every round trip that fails, is refused or loses its
  answer, and whatever steps rival claims and other statements take before its two round trips, what it
  does to the database is a run of a server with this one attachment from its first to its last step, at
  whose end the reservation is given back. The run's record is that of the round trips: the session
  counts as started when the database ran \<open>StartSession\<close>, and as lost only when the statement that ends
  it did not arrive; so the invariant of the handlers (C19) says what became of it. (\<open>RegisterDuplicate\<close>
  is excluded: C21.)
\<close>

theorem attachment_follows_handlers:
  assumes "company opts rivals [([], w), ([], snd (exec (StartSession (sid s)) w))] rivals'"
    and "at_begin env = None" and "at_register env \<noteq> RegisterDuplicate"
  shows "\<exists>m ph. mg_wg m = 0 \<and>
    reaches (handler_step opts)
      \<lparr>nd_fleet = \<lparr>fdb = wdb w, claims = rivals\<rparr>, nd_manager = NewManager, nd_handlers = [], nd_phase = Serving,
       nd_started = {}, nd_lost = {}\<rparr>
      \<lparr>nd_fleet = \<lparr>fdb = wdb (snd (attach env s w)), claims = rivals'\<rparr>, nd_manager = m, nd_handlers = [Gone],
       nd_phase = ph, nd_started = started_by (sid s) w, nd_lost = lost_by env (sid s) w\<rparr>"
  using attach_in_company [OF assms(2,3,1)] unfolding ended_def stage_def sole_def alone_def by blast

theorem attachment_follows_handlers_witness:
  "\<exists>m ph started lost. reaches (handler_step options_a) (fresh_node claimed_a 0)
      \<lparr>nd_fleet = \<lparr>fdb = wdb (snd (attach failed_dial session_a
         \<lparr>wdb = claimed_a, clock = 3000000, script = replicate 2 noisy_beat\<rparr>)), claims = []\<rparr>, nd_manager = m,
       nd_handlers = [Gone], nd_phase = ph, nd_started = started, nd_lost = lost\<rparr>"
proof -
  let ?w = "\<lparr>wdb = claimed_a, clock = 3000000, script = replicate 2 noisy_beat\<rparr>"
  obtain d where d: "snd (exec (StartSession (sid session_a)) ?w)
      = \<lparr>wdb = d, clock = 3000001, script = replicate (Suc 0) noisy_beat\<rparr>"
    using exec_noisy [of "StartSession (sid session_a)" claimed_a 3000000 "Suc 0"]
    by (auto simp: numeral_2_eq_2 simp del: replicate_Suc)
  have "company options_a [] [([], ?w), ([], snd (exec (StartSession (sid session_a)) ?w))] []"
    unfolding d unfolding numeral_2_eq_2 by (intro company_noisy company_done)
  from attachment_follows_handlers [OF this, of failed_dial] show ?thesis
    unfolding fresh_node_def by (auto simp: failed_dial_def)
qed

text \<open>
  C28: terminating a session by the API ends its relay: at its next heartbeat the relay learns that
  the session is over and closes both peers with 1001, and the outcome it then records changes
  nothing any more.
\<close>

theorem termination_reaches_the_relay:
  assumes "lookup_row sid i (sessions d) = Some s"
  shows "let d' = wdb (snd (delete_session i (calm d t))) in
    renewHeartbeat i (Ticked # ts) (calm d' t') = (Some terminated_event, calm d' t')
    \<and> recordOutcome i (ev_normal terminated_event) (calm d' t') = calm d' t'"
proof -
  have si: "sid s = i" using assms lookup_row_Some by fastforce
  let ?d' = "wdb (snd (delete_session i (calm d t)))"
  obtain s' where s': "lookup_row sid i (sessions ?d') = Some s'" "sstatus s' \<noteq> Running"
    using assms si by (cases "active s") (auto simp: delete_session_calm effect_targets lookup_update_where active_def)
  then show ?thesis
    by (simp add: Let_def RenewSessionHeartbeat_def update_session_def recordOutcome_calm terminated_event_def)
qed

theorem termination_reaches_the_relay_witness:
  "fst (renewHeartbeat (UUID 7) [Ticked] (calm (wdb (snd (delete_session (UUID 7) (calm running_fleet 3000000)))) 4000000))
    = Some terminated_event"
proof -
  have "lookup_row sid (UUID 7) (sessions running_fleet) = Some running_a"
    by (simp add: running_fleet_def running_a_def session_a_eq start_row_def)
  from termination_reaches_the_relay [OF this, of 3000000 "[]" 4000000] show ?thesis by (simp add: Let_def)
qed

section \<open>Keys and the authenticator\<close>

text \<open>
  C29: who gets in: whatever a request of any method and path does, on the API or on a relay endpoint,
  it either only read (a probe, a refusal, an unknown path: the database is what others made of it), or
  it was served exactly as for a principal already let in: the key whose digest the presented token
  has and which was active when it was looked up, or anonymously when the server had never seen an
  active key and the database had none.
\<close>

theorem only_active_keys_get_in:
  assumes "decodes rq" and "sv_auth sv = TokenAuthenticator digest"
    and "serve_request sv st rq env w = (rp, st', w')"
  shows "disturbed w w'
    \<or> (\<exists>who st1 w1. (anonymous_ground st w who \<or> key_ground digest (credential (sv_options sv) rq) w who)
        \<and> serve_request (sv\<lparr>sv_auth := granting who\<rparr>) st1 rq env w1 = (rp, st', w'))"
  using assms by (rule served_let_in) (auto simp: let_in_def)

theorem only_active_keys_get_in_witness:
  "\<forall>env. let r = serve_request server_a \<lparr>authRequired = True, warned = False\<rparr> delete_request env (calm keyed 0)
     in fst r = Some (auth_failure ErrUnauthorized) \<and> snd (snd r) = calm keyed 0"
proof
  fix env
  let ?st = "\<lparr>authRequired = True, warned = False\<rparr>"
  obtain rp st' w' where r: "serve_request server_a ?st delete_request env (calm keyed 0) = (rp, st', w')"
    using prod_cases3 by blast
  have "sv_auth server_a = TokenAuthenticator digest_a" by (simp add: server_a_def)
  from only_active_keys_get_in [OF delete_request_decodes this r] have "disturbed (calm keyed 0) w'"
    by (auto simp: delete_request_credential key_ground_def anonymous_ground_def bearerToken_def cut_space_def)
  then have "w' = calm keyed 0" by (rule disturbed_calm)
  moreover have "rp = Some (auth_failure ErrUnauthorized)"
    using r delete_request_refused [of env "calm keyed 0"] by simp
  ultimately show "let r = serve_request server_a ?st delete_request env (calm keyed 0)
     in fst r = Some (auth_failure ErrUnauthorized) \<and> snd (snd r) = calm keyed 0"
    using r by simp
qed

text \<open>
  C30: the API keeps to its document: whoever sends a request to an operation and whatever happens to the
  database, the authentication and the handler answer with a status that \<open>openapi.yaml\<close> names for the
  operation, or not at all because the client has gone; the checks declared on the inputs refuse with the
  422 it names. Only an answer the framework itself gives to a request it cannot read is none of these.
\<close>

theorem replies_are_documented:
  assumes "r \<in> set api_routes" and "\<And>c. decoded = Inr c \<Longrightarrow> call_operation c = rt_operation r"
    and "serve_api s auth l st a r decoded w = (rp, st', w')"
  shows "(rp_status rp = 0 \<or> rp_status rp \<in> set (documented (rt_operation r)) \<or> decoded = Inl rp)
    \<and> (case decode_call parse uri inp (rt_operation r) of
         Inl x \<Rightarrow> rp_status x = 422 \<and> rp_status x \<in> set (documented (rt_operation r))
       | Inr c \<Rightarrow> call_operation c = rt_operation r)"
proof -
  have "proper (rt_operation r) (fst (serve_api s auth l st a r decoded w))
      \<or> decoded = Inl (fst (serve_api s auth l st a r decoded w))"
    using assms(1,2) by (rule api_replies_documented)
  with assms(3) checks_documented [where parse = parse and uri = uri and inp = inp and oper = "rt_operation r"] show ?thesis by (simp add: proper_def)
qed

theorem replies_are_documented_witness:
  "\<exists>rp st' w'. serve_api settings_a (TokenAuthenticator digest_a) False \<lparr>authRequired = True, warned = False\<rparr>
      bearer_a register_route (Inr (CallRegisterWorker (UUID 3) register_a)) (calm keyed 5000000) = (rp, st', w')
    \<and> (rp_status rp = 0 \<or> rp_status rp \<in> {201, 401, 422, 500, 503})"
proof -
  let ?r = "serve_api settings_a (TokenAuthenticator digest_a) False \<lparr>authRequired = True, warned = False\<rparr>
      bearer_a register_route (Inr (CallRegisterWorker (UUID 3) register_a)) (calm keyed 5000000)"
  obtain rp st' w' where r: "?r = (rp, st', w')" using prod_cases3 by blast
  moreover have "rt_operation register_route = RegisterWorkerOp" by (simp add: register_route_def)
  ultimately show ?thesis
    using replies_are_documented [OF register_route_declared _ r, where inp = register_input] by auto
qed

text \<open>
  C31: what \<open>apikey create\<close> prints works: the token of a created key, sent as a bearer token, is
  accepted as that key by every authenticator, latched or not; and the token spells all the random
  bytes it was made of, so no other draw gives it.
\<close>

theorem created_key_authenticates:
  assumes "cm_print env = None" and "cm_random env = Inr bytes" and "bytes \<noteq> []" and "TrimSpace name \<noteq> []"
    and "generateToken (cm_random env) = Inr token"
    and "cm_id env \<notin> kid ` set (api_keys d)" and "digest token \<notin> khash ` set (api_keys d)"
  shows "let (err, w) = Execute digest env (CreateCommand name) (calm d t) in
    err = None \<and> fst (TokenAuthenticator digest l st (''Bearer '' @ token) w) = Inr (Some (cm_id env))
    \<and> (\<forall>other. generateToken (Inr other) = Inr token \<longrightarrow> other = bytes)"
proof -
  have token: "token = token_prefix @ base64url bytes" using assms(2,5) by (simp add: generateToken_def)
  from create_calm_printed [OF assms(1,2,4,6)] assms(7) token obtain k where
    c: "Create digest env name (calm d t) = (Inr k, calm (insert_key k d) t)"
    and k: "kid k = cm_id env" "khash k = digest token" "krevoked k = None" by blast
  have "bearerToken (''Bearer '' @ token) = Some token"
    using minted_token_parses assms(2,3,5) by simp
  moreover have "active_keys (insert_key k d) \<noteq> []" by (simp add: active_keys_def effect_targets k(3))
  moreover have "\<forall>other. generateToken (Inr other) = Inr token \<longrightarrow> other = bytes"
    using token_determines_bytes assms(2,5) by simp
  ultimately show ?thesis
    using find_inserted [OF assms(7) k(2,3)] token_calm [of st "insert_key k d"] k(1)
    by (simp add: Execute_def c friendlyDatabaseError_def effect_targets)
qed

theorem created_key_authenticates_witness:
  "fst (TokenAuthenticator digest_a False \<lparr>authRequired = False, warned = False\<rparr> (''Bearer '' @ ''pwd_AQID'')
      (snd (Execute digest_a command_a (CreateCommand ''ci '') (calm fleet_a 0)))) = Inr (Some (UUID 10))"
proof -
  have "TrimSpace ''ci '' \<noteq> []" by (simp add: trim_a)
  from created_key_authenticates [OF _ _ _ this token_a, of "[1, 2, 3]" fleet_a digest_a 0 False
      "\<lparr>authRequired = False, warned = False\<rparr>"] show ?thesis
    by (simp add: command_a_def fleet_a_def key_a_def digest_a_def split: prod.splits)
qed

text \<open>
  C32: a token that could not be shown leaves no key unnoticed: when printing fails, \<open>apikey create\<close> fails.
  Undisturbed, the database is what it was. In any surroundings nothing was inserted, or the inserted key
  is gone when the command returns, or its error says that the deletion failed too, or that the
  insertion's answer never came.
\<close>

theorem unprinted_key_is_deleted:
  assumes "schema_ok d" and "cm_print env = Some p"
  shows "(\<exists>e. Execute digest env (CreateCommand name) (calm d t) = (Some e, calm d t))
    \<and> (\<exists>e w'. Create digest env name w = (Inl e, w')
        \<and> Execute digest env (CreateCommand name) w = (friendlyDatabaseError (Some e), w')
        \<and> (disturbed w w' \<or> (\<exists>c. e = Wrap ''inserting api key'' (Cause c))
           \<or> e = Wrap ''printing api key token'' p \<and> cm_id env \<notin> kid ` set (api_keys (wdb w'))
           \<or> (\<exists>x. e = Pair (Wrap ''printing api key token'' p) (Wrap ''deleting unusable api key'' x))))"
proof -
  obtain e where "Create digest env name (calm d t) = (Inl e, calm d t)"
    using create_calm_unprinted [OF assms, of digest name t]
    by (cases "Create digest env name (calm d t)") auto
  then have "\<exists>e. Execute digest env (CreateCommand name) (calm d t) = (Some e, calm d t)"
    by (simp add: Execute_def friendlyDatabaseError_def)
  with create_unprinted [OF assms(2), of digest name w] show ?thesis by (auto simp: Execute_def)
qed

theorem unprinted_key_is_deleted_witness:
  "\<exists>e. Execute digest_a (command_a\<lparr>cm_print := Some (Cause EndOfFile)\<rparr>) (CreateCommand ''ci'') (calm fleet_a 0)
    = (Some e, calm fleet_a 0)"
  using unprinted_key_is_deleted [OF fleet_a_ok(1), of "command_a\<lparr>cm_print := Some (Cause EndOfFile)\<rparr>"] by simp

text \<open>
  C33: revoking works and is idempotent, in a database that is undisturbed meanwhile: after
  \<open>apikey revoke\<close>, which reports nothing but a failure to print, no token with the key's digest is
  accepted as a key any more: an authenticator that asks for keys, because it was latched before or because
  an active key is left, refuses it, and one that has never seen a key, with none active, lets it in only
  as anonymous, like every request. Revoking again changes nothing.
\<close>

theorem revoked_key_is_refused:
  assumes "schema_ok d" and "lookup_row kid i (api_keys d) = Some k"
    and "bearerToken a = Some token" and "digest token = khash k"
  shows "let (err, w) = Revoke env i (calm d t) in
    (err = None \<or> krevoked k \<noteq> None \<and> cm_print env \<noteq> None)
    \<and> fst (TokenAuthenticator digest latched st a w)
        = (if authRequired st \<or> active_keys (wdb w) \<noteq> [] \<or> latched then Inl ErrUnauthorized else Inr None)
    \<and> snd (Revoke env i w) = w"
proof -
  let ?d = "if krevoked k = None then revoked_at i t d else d"
  have r: "snd (Revoke env i (calm d t)) = calm ?d t"
    "fst (Revoke env i (calm d t)) = None \<or> krevoked k \<noteq> None \<and> cm_print env \<noteq> None"
    using revoke_calm [OF assms(2), of env t] by (auto simp: option.map_disc_iff)
  have "lookup_row kid i (api_keys ?d) = Some (if krevoked k = None then k\<lparr>krevoked := Some t\<rparr> else k)"
    using assms(2) lookup_row_Some [OF assms(2)] by (simp add: revoked_at_def effect_targets lookup_update_where)
  then have "snd (Revoke env i (calm ?d t)) = calm ?d t"
    using revoke_calm [of i ?d _ env t] by (auto split: if_splits)
  moreover have "fst (TokenAuthenticator digest latched st a (calm ?d t))
      = (if authRequired st \<or> active_keys ?d \<noteq> [] \<or> latched then Inl ErrUnauthorized else Inr None)"
    using revoked_hash [OF assms(1,2), of t] assms(3) unfolding assms(4) [symmetric] by (intro token_of_no_key)
  ultimately show ?thesis using r by (simp add: case_prod_beta Let_def)
qed

theorem revoked_key_is_refused_witness:
  "fst (TokenAuthenticator digest_a False \<lparr>authRequired = True, warned = False\<rparr> bearer_a
      (snd (Revoke command_a (UUID 9) (calm keyed 0)))) = Inl ErrUnauthorized"
  using revoked_key_is_refused [OF keyed_ok, of "UUID 9" key_b bearer_a "''pwd_AQID''" digest_a command_a 0 False
      "\<lparr>authRequired = True, warned = False\<rparr>"]
  by (simp add: keyed_eq command_a_def bearer_a_token split: prod.splits)

section \<open>Versions\<close>

text \<open>
  C34: the matchers are the regular expressions: the version taken from a User-Agent header is that of
  the leftmost place where \<open>Playwright/major.minor[.patch]\<close> stands before white space or the end,
  and a version string has a prefix exactly when it is \<open>major.minor\<close> or
  \<open>major.minor.patch[-pre][+build]\<close>.
\<close>

theorem version_matchers:
  "(UserAgentVersion ua = Some (v, p) \<longleftrightarrow>
      (\<exists>pre suf major minor. ua = pre @ suf \<and> agent_language suf major minor
         \<and> v = major @ ''.'' @ minor \<and> p = v @ ''.''
         \<and> (\<nexists>k c d. k < length pre \<and> agent_language (drop k ua) c d)))
    \<and> (VersionPrefix s = Some q \<longleftrightarrow>
      (\<exists>major minor. version_language s major minor \<and> q = major @ ''.'' @ minor @ ''.''))"
proof -
  have "UserAgentVersion ua = Some (v, p) \<longleftrightarrow>
      (\<exists>major minor. find_agent ua = Some (major, minor) \<and> v = major @ ''.'' @ minor \<and> p = v @ ''.'')"
    by (auto simp: UserAgentVersion_def split: option.splits)
  also have "\<dots> \<longleftrightarrow> (\<exists>pre suf major minor. ua = pre @ suf \<and> agent_language suf major minor
       \<and> v = major @ ''.'' @ minor \<and> p = v @ ''.''
       \<and> (\<nexists>k c d. k < length pre \<and> agent_language (drop k ua) c d))"
    unfolding find_agent_Some agent_at_iff agent_at_None by blast
  finally have "UserAgentVersion ua = Some (v, p) \<longleftrightarrow>
    (\<exists>pre suf major minor. ua = pre @ suf \<and> agent_language suf major minor
       \<and> v = major @ ''.'' @ minor \<and> p = v @ ''.''
       \<and> (\<nexists>k c d. k < length pre \<and> agent_language (drop k ua) c d))" .
  moreover have "VersionPrefix s = Some q \<longleftrightarrow>
      (\<exists>major minor. version_language s major minor \<and> q = major @ ''.'' @ minor @ ''.'')"
    unfolding match_version_iff [symmetric] by (auto simp: VersionPrefix_def split: option.splits)
  ultimately show ?thesis by blast
qed

text \<open>
  C35: every spelling of a command is understood: with one dash or two, with the value in the same
  argument or the next, and whatever the name is, \<open>Parse\<close> gives back the command that was spelled.
\<close>

theorem spelled_commands_parse:
  assumes "\<And>i. parse_uuid (uuid_string i) = Inr i"
  shows "Parse parse_uuid help_err (spell uuid_string sp c) = Inr (Some c)"
  using assms by (rule parse_spelled)

theorem spelled_commands_parse_witness:
  "Parse (\<lambda>s. Inr (UUID (of_nat (length s)))) None
      (spell (\<lambda>i. replicate (unat (uuid_bits i)) CHR ''x'') \<lparr>sp_two_dashes = True, sp_equals = False\<rparr>
        (CreateCommand ''--help'')) = Inr (Some (CreateCommand ''--help''))"
proof -
  have "Inr (UUID (of_nat (length (replicate (unat (uuid_bits i)) CHR ''x'')))) = (Inr i :: error + uuid)" for i
    by (cases i) simp
  from spelled_commands_parse [of "\<lambda>s. Inr (UUID (of_nat (length s)))", OF this] show ?thesis .
qed

text \<open>
  C36: a client gets a worker of its own minor version: a worker with a well-formed version that a
  claim with the client's prefix can select has that very prefix, so the explicit endpoint accepts
  the same client on the session; 1.5 is never confused with 1.50.
\<close>

theorem claim_keeps_minor_version:
  assumes "UserAgentVersion ua = Some (v, p)" and "cp_prefix prm = p"
    and "w \<in> set (claim_candidates prm now d)" and "version_language (wversion w) major minor"
  shows "VersionPrefix (wversion w) = Some p \<and> v = major @ ''.'' @ minor"
proof -
  from agent_numbers [OF assms(1)] obtain c e where n: "number c" "number e" "p = c @ ''.'' @ e @ ''.''" by blast
  have "prefix p (wversion w)" using assms(2,3) by (simp add: candidate_iff claimable_def)
  with prefix_of_version [OF assms(4) n(1,2)] n(3) have vp: "VersionPrefix (wversion w) = Some p" by simp
  with assms(4) have "p = major @ ''.'' @ minor @ ''.''"
    by (auto simp: VersionPrefix_def match_version_iff [symmetric])
  moreover have "p = v @ ''.''" using assms(1) by (auto simp: UserAgentVersion_def split: option.splits)
  ultimately show ?thesis using vp by simp
qed

theorem claim_keeps_minor_version_witness:
  "VersionPrefix (wversion worker_a) = Some ''1.50.'' \<and> ''1.50'' = ''1'' @ ''.'' @ ''50''"
proof -
  have "UserAgentVersion ''Playwright/1.50.0 (x64)'' = Some (''1.50'', ''1.50.'')" by code_simp
  moreover have "worker_a \<in> set (claim_candidates (select_params options_a request_a []) 2000000 fleet_b)"
    by (simp add: candidates_b)
  moreover have "cp_prefix (select_params options_a request_a []) = ''1.50.''"
    by (simp add: select_params_def request_a_def)
  moreover have "version_language (wversion worker_a) ''1'' ''50''"
    unfolding match_version_iff [symmetric] by code_simp
  ultimately show ?thesis using claim_keeps_minor_version by blast
qed

section \<open>Workers, dials and timeouts\<close>

text \<open>
  C37: the life of a worker: in every step of the fleet a worker, idle or not, keeps its address,
  browser, version and slots, its lifetime counter never falls, its status moves only along the worker
  state machine (draining is never undone, shutting down is final), and its row disappears only when it
  has no active session.
\<close>

theorem worker_life:
  assumes "fleet_ok d" and "reaches (claim_step opts) \<lparr>fdb = d, claims = replicate n Idle\<rparr> f"
    and "claim_step opts f f'" and "w \<in> set (workers (fdb f))"
  shows "case lookup_row wid (wid w) (workers (fdb f')) of
      None \<Rightarrow> count_active (fdb f) (wid w) = 0
    | Some v \<Rightarrow> waddress v = waddress w \<and> wbrowser v = wbrowser w \<and> wversion v = wversion w
        \<and> wmax_slots v = wmax_slots w \<and> wlifetime w \<le> wlifetime v
        \<and> (wstatus v = wstatus w \<or> worker_next (wstatus w) (wstatus v))"
proof -
  have "claim_inv f" using claiming.reaches_inv [OF assms(2)] assms(1) by (simp add: start_inv)
  from step_fate [OF this assms(3,4)] show ?thesis
    by (auto simp: worker_fate_def worker_lives_def split: option.splits)
qed

theorem worker_life_witness:
  "case lookup_row wid (UUID 1) (workers (notify claimed_a)) of
      None \<Rightarrow> False | Some v \<Rightarrow> waddress v = ''ws://a:3000'' \<and> 4 \<le> wlifetime v"
proof -
  have "store_step L claimed_a (notify claimed_a)" for L
    using ss_notify [of 0 claimed_a notify L] by (simp add: NotifyCapacityChanged_def)
  then have "claim_step options_a \<lparr>fdb = claimed_a, claims = [Idle]\<rparr> \<lparr>fdb = notify claimed_a, claims = [Idle]\<rparr>"
    using cs_other [of "\<lparr>fdb = claimed_a, claims = [Idle]\<rparr>" "notify claimed_a" options_a] by simp
  from worker_life [OF fleet_a_ok(2) claimed_a_reached this, of "worker_a\<lparr>wlifetime := 4\<rparr>"] show ?thesis
    by (auto simp: claimed_a_eq worker_a_def)
qed

text \<open>
  C38: a registered worker is at once usable: a registration that passes the checks of its body and
  names a host is answered 201, announced to the waiting requests, and puts the worker among the
  candidates of every claim for its browser and a prefix of its version.
\<close>

theorem registered_worker_is_claimable:
  assumes "decode_call parse uri inp RegisterWorkerOp = Inr (CallRegisterWorker i rq)"
    and "as_hostname s (rr_address rq) = Some h" and "h \<noteq> []" and "i \<notin> wid ` set (workers d)" and "fleet_ok d"
    and "cp_browser p = rr_browser rq" and "prefix (cp_prefix p) (rr_version rq)" and "0 < cp_ttl p"
    and "0 \<le> cp_max_lifetime p" and "i \<notin> set (cp_excluded p)"
  shows "\<exists>d'. run_call s (CallRegisterWorker i rq) who (calm d t) = (plain_reply 201 [], calm d' t)
    \<and> notified d < notified d' \<and> registration i rq t \<in> set (claim_candidates p t d')"
proof -
  let ?d = "notify (insert_worker (registration i rq t) d)"
  have c: "known_browser (rr_browser rq)" "0 < rr_max_slots rq"
    using assms(1) checked_register [of uri "in_register inp" rq] by (auto simp: or_invalid_Inr)
  have "run_call s (CallRegisterWorker i rq) who (calm d t) = (plain_reply 201 [], calm ?d t)"
    using register_worker_calm [of "as_hostname s" rq h i d t, OF assms(2,3) c assms(4)]
    by (simp add: replied_def reply_of_def)
  moreover have "registration i rq t \<in> set (claim_candidates p t ?d)"
    using no_worker_no_active [OF assms(5,4)] c assms(6-10) by (rule registered_candidate)
  moreover have "notified d < notified ?d" by (simp add: effect_defs)
  ultimately show ?thesis by blast
qed

theorem registered_worker_is_claimable_witness:
  "\<exists>d'. run_call settings_a (CallRegisterWorker (UUID 3) register_a) None (calm fleet_a 5000000)
      = (plain_reply 201 [], calm d' 5000000)"
  using registered_worker_is_claimable [OF register_input_decodes, of settings_a "''c''" fleet_a
      "select_params options_a request_a []" None 5000000] fleet_a_ok(2)
  by (auto simp: settings_a_def register_a_def select_params_def fleet_a_def worker_a_def
      request_a_def options_a_def microseconds_pos)

text \<open>
  C39: the statements respect the schema: keys stay unique, the column checks hold and a session's
  key exists after every statement of the program, those of a claim included.
\<close>

theorem statements_keep_schema:
  assumes "schema_ok d"
  shows "(store_step L d d' \<longrightarrow> schema_ok d')
    \<and> (InsertClaimedSession p now d = Inr (s, e) \<longrightarrow> schema_ok (e d))
    \<and> (IncrementWorkerLifetimeSessions i now d = Inr (w, e') \<longrightarrow> schema_ok (e' d))"
  using assms store_step_schema insert_claimed_schema increment_schema by blast

theorem statements_keep_schema_witness:
  "schema_ok (notify fleet_a)"
proof -
  have "store_step (\<lambda>i. False) fleet_a (notify fleet_a)"
    using ss_notify [of 0 fleet_a notify "\<lambda>i. False"] by (simp add: NotifyCapacityChanged_def)
  with statements_keep_schema [OF fleet_a_ok(1)] show ?thesis by blast
qed

text \<open>
  C40: a server that starts serving has consistent timeouts: the settings are all positive and
  bounded as checked, the dial of a started session is over before a worker's report can declare
  the session lost, and the shutdown outlasts the grace period, the dial and the cleanup.
\<close>

theorem served_timeouts_fit:
  assumes "run env args = Serve p"
    and "rl_shutdown_grace (sp_relay p) < 2 ^ 62" and "so_queue_wait (sp_scheduler p) < 2 ^ 62"
  shows "sp_dial_timeout p < so_grace (sp_scheduler p)
    \<and> rl_shutdown_grace (sp_relay p) + sp_dial_timeout p + ShutdownCleanupBudget < sp_shutdown_timeout p
    \<and> so_queue_wait (sp_scheduler p) + sp_dial_timeout p < sp_write_timeout p
    \<and> rl_ping_interval (sp_relay p) < rl_pong_timeout (sp_relay p)
    \<and> rl_heartbeat_interval (sp_relay p) < ro_session_ttl (sp_rescuer p)
    \<and> 0 < ro_interval (sp_rescuer p)"
proof -
  from run_serves(1) [OF assms(1)] obtain a c where c: "config_ok c"
    "WorkerDialTimeout c < DefaultReconciliationGrace" "p = plan_of a c" by blast
  have "ShutdownGracePeriod c < 2 ^ 62" "QueueWaitTimeout c < 2 ^ 62"
    using assms(2,3) unfolding c(3) by (simp_all add: plan_of_def new_scheduler_def)
  from plan_timeouts [OF c(1,2) this, of a] c(1) show ?thesis
    unfolding c(3) by (simp add: plan_of_def config_ok_def duration_ok_def)
qed

theorem served_timeouts_fit_witness:
  "sp_dial_timeout (plan_of '':8080'' config_a) < so_grace (sp_scheduler (plan_of '':8080'' config_a))"
  using served_timeouts_fit [OF main_a_serves]
  by (simp add: plan_of_def new_scheduler_def config_a_def)

end
